(* ===== verification/Catp_Prelude.thy ===== *)
theory Catp_Prelude
  imports Main "HOL-Library.Word"
begin

unbundle bit_operations_syntax

text \<open>
  Shared ground of the development: the machine integer types, the outcome type every fallible
  operation returns, checked indexing and slicing with the panic of Rust as a value, big-endian
  byte strings and fixed-width chunks.

  A Rust function of result type \<open>Result<T, E>\<close> returns \<open>('t, 'e) result\<close> here.
  The third constructor, \<open>Panic\<close>, is what an out-of-range index or subslice does; the theorems
  on panic freedom state that a function never returns it.
\<close>

section \<open>Integers and outcomes\<close>

type_synonym u8 = "8 word"
type_synonym u16 = "16 word"
type_synonym u32 = "32 word"
type_synonym u64 = "64 word"
type_synonym bytes = "8 word list"

text \<open>Signed integers are words read with \<open>sint\<close> (two's complement).\<close>

type_synonym i16 = "16 word"
type_synonym i64 = "64 word"

named_theorems byte_simps \<open>rewrite rules on byte strings and slices\<close>
named_theorems mask_simps \<open>bit masks of the source as \<open>take_bit\<close>\<close>
named_theorems panic_free \<open>operations that never return \<open>Panic\<close>\<close>

datatype ('a, 'e) result = Ok 'a | Err 'e | Panic

primrec rbind :: "('a, 'e) result \<Rightarrow> ('a \<Rightarrow> ('b, 'e) result) \<Rightarrow> ('b, 'e) result" where
  "rbind (Ok x) f = f x"
| "rbind (Err e) f = Err e"
| "rbind Panic f = Panic"

primrec rmap :: "('a \<Rightarrow> 'b) \<Rightarrow> ('a, 'e) result \<Rightarrow> ('b, 'e) result" where
  "rmap f (Ok x) = Ok (f x)"
| "rmap f (Err e) = Err e"
| "rmap f Panic = Panic"

primrec is_ok :: "('a, 'e) result \<Rightarrow> bool" where
  "is_ok (Ok x) = True"
| "is_ok (Err e) = False"
| "is_ok Panic = False"

text \<open>\<open>Option::ok_or\<close>.\<close>

definition ok_or :: "'a option \<Rightarrow> 'e \<Rightarrow> ('a, 'e) result" where
  "ok_or x e = (case x of None \<Rightarrow> Err e | Some y \<Rightarrow> Ok y)"

lemma ok_or_simps [simp]: "ok_or None e = Err e" "ok_or (Some x) e = Ok x"
  by (simp_all add: ok_or_def)

lemma ok_or_eq_Ok [simp]: "ok_or x e = Ok y \<longleftrightarrow> x = Some y"
  by (cases x) (auto simp: ok_or_def)

text \<open>An early return that fails is a conjunct of success.\<close>

lemma if_Err_eq_Ok [simp]: "(if b then Err e else m) = Ok y \<longleftrightarrow> \<not> b \<and> m = Ok y"
  by simp

lemma rbind_eq_Ok [simp]: "rbind m f = Ok y \<longleftrightarrow> (\<exists>x. m = Ok x \<and> f x = Ok y)"
  by (cases m) auto

lemma rbind_eq_Panic: "rbind m f = Panic \<longleftrightarrow> m = Panic \<or> (\<exists>x. m = Ok x \<and> f x = Panic)"
  by (cases m) auto

lemma rbind_not_Panic [panic_free]:
  "m \<noteq> Panic \<Longrightarrow> (\<And>x. m = Ok x \<Longrightarrow> f x \<noteq> Panic) \<Longrightarrow> rbind m f \<noteq> Panic"
  by (cases m) auto

lemma ok_or_not_Panic [simp, panic_free]: "ok_or x e \<noteq> Panic"
  by (cases x) auto

lemma rmap_eq_Ok [simp]: "rmap f m = Ok y \<longleftrightarrow> (\<exists>x. m = Ok x \<and> y = f x)"
  by (cases m) auto

lemma rmap_eq_Panic [simp]: "rmap f m = Panic \<longleftrightarrow> m = Panic"
  by (cases m) auto

lemma is_ok_iff: "is_ok m \<longleftrightarrow> (\<exists>x. m = Ok x)"
  by (cases m) auto

section \<open>Indexing and slicing\<close>

text \<open>\<open>xs[i]\<close> and \<open>&xs[a..b]\<close>: Rust panics out of range.\<close>

definition idx :: "'a list \<Rightarrow> nat \<Rightarrow> ('a, 'e) result" where
  "idx xs i = (if i < length xs then Ok (xs ! i) else Panic)"

definition subslice :: "'a list \<Rightarrow> nat \<Rightarrow> nat \<Rightarrow> ('a list, 'e) result" where
  "subslice xs a b = (if a \<le> b \<and> b \<le> length xs then Ok (take (b - a) (drop a xs)) else Panic)"

text \<open>\<open>dst[a..a + src.len()].copy_from_slice(src)\<close> on a buffer.\<close>

definition copy_at :: "'a list \<Rightarrow> nat \<Rightarrow> 'a list \<Rightarrow> ('a list, 'e) result" where
  "copy_at dst a src =
     (if a + length src \<le> length dst
      then Ok (take a dst @ src @ drop (a + length src) dst) else Panic)"

lemma idx_ok [simp]: "i < length xs \<Longrightarrow> idx xs i = Ok (xs ! i)"
  by (simp add: idx_def)

lemma idx_eq_Ok: "idx xs i = Ok y \<longleftrightarrow> i < length xs \<and> y = xs ! i"
  by (auto simp: idx_def)

lemma subslice_ok [simp]: "a \<le> b \<Longrightarrow> b \<le> length xs \<Longrightarrow> subslice xs a b = Ok (take (b - a) (drop a xs))"
  by (simp add: subslice_def)

lemma copy_at_ok [simp]:
  "a + length src \<le> length dst \<Longrightarrow>
   copy_at dst a src = Ok (take a dst @ src @ drop (a + length src) dst)"
  by (simp add: copy_at_def)

lemma length_9_cases:
  assumes "9 \<le> length bs"
  obtains b0 b1 b2 b3 b4 b5 b6 b7 b8 rest
  where "bs = b0 # b1 # b2 # b3 # b4 # b5 # b6 # b7 # b8 # rest"
proof -
  have "\<exists>b0 b1 b2 b3 b4 b5 b6 b7 b8 rest.
      bs = b0 # b1 # b2 # b3 # b4 # b5 # b6 # b7 # b8 # rest"
    using assms by (auto simp: numeral_eq_Suc Suc_le_length_iff)
  then show thesis using that by blast
qed

section \<open>Words: masks and conversions\<close>

lemma and_masks [mask_simps]:
  fixes x :: "'a::len word"
  shows "x AND 7 = take_bit 3 x" "x AND 15 = take_bit 4 x" "x AND 31 = take_bit 5 x"
    "x AND 255 = take_bit 8 x" "x AND 4095 = take_bit 12 x" "x AND 524287 = take_bit 19 x"
  by (simp_all add: take_bit_eq_mask mask_eq_exp_minus_1)

lemma unat_take_bit_mod: "unat (take_bit n (w :: 'a::len word)) = unat w mod 2 ^ n"
  by (simp only: unsigned_take_bit_eq) (simp only: take_bit_eq_mod)

lemma unat_ucast_mod:
  "unat (ucast (w :: 'a::len word) :: 'b::len word) = unat w mod 2 ^ LENGTH('b)"
  by (simp add: unsigned_ucast_eq take_bit_eq_mod)

lemma unat_u32_less: "unat (n :: u32) < 4294967296"
  using unsigned_less [of n] by simp

lemma unat_u16_less: "unat (n :: u16) < 65536"
  using unsigned_less [of n] by simp

lemma unat_u8_less: "unat (n :: u8) < 256"
  using unsigned_less [of n] by simp

lemma unat_pred: "0 < (w :: 'a::len word) \<Longrightarrow> unat (w - 1) = unat w - 1"
  by (simp add: unat_minus_one word_gt_0)

text \<open>\<open>u32::checked_add\<close>.\<close>

definition checked_add_u32 :: "u32 \<Rightarrow> u32 \<Rightarrow> u32 option" where
  "checked_add_u32 a b = (if unat a + unat b < 2 ^ 32 then Some (a + b) else None)"

lemma checked_add_u32_Some:
  "checked_add_u32 a b = Some c \<longleftrightarrow> unat c = unat a + unat b"
  using unat_u32_less [of c]
  by (auto simp: checked_add_u32_def unat_word_ariths word_unat_eq_iff)

section \<open>Big-endian byte strings\<close>

text \<open>\<open>be_bytes n w\<close> is \<open>w.to_be_bytes()\<close> for an integer of \<open>n\<close> bytes; \<open>from_be\<close> is
  \<open>from_be_bytes\<close>.\<close>

primrec be_bytes :: "nat \<Rightarrow> 'a::len word \<Rightarrow> bytes" where
  "be_bytes 0 w = []"
| "be_bytes (Suc n) w = ucast (drop_bit (8 * n) w) # be_bytes n w"

definition from_be :: "bytes \<Rightarrow> 'a::len word" where
  "from_be bs = foldl (\<lambda>acc b. push_bit 8 acc OR ucast b) 0 bs"

lemma length_be_bytes [simp]: "length (be_bytes n w) = n"
  by (induction n) auto

lemma be_bytes_eq_Nil [simp]: "be_bytes n w = [] \<longleftrightarrow> n = 0"
  by (metis length_be_bytes length_0_conv)

lemma be_bytes_numeral [byte_simps]:
  "be_bytes (numeral k) w =
   ucast (drop_bit (8 * pred_numeral k) w) # be_bytes (pred_numeral k) w"
  by (simp add: numeral_eq_Suc)

lemma from_be_Nil [simp]: "from_be [] = 0"
  by (simp add: from_be_def)

lemma from_be_snoc: "from_be (bs @ [b]) = push_bit 8 (from_be bs) OR ucast b"
  by (simp add: from_be_def)

lemma from_be_acc:
  "foldl (\<lambda>acc b. push_bit 8 acc OR ucast b) (acc :: 'a::len word) bs
   = push_bit (8 * length bs) acc OR from_be bs"
proof (induction bs rule: rev_induct)
  case (snoc b bs)
  then show ?case
    by (simp add: from_be_snoc) (simp add: ac_simps)
qed simp

text \<open>Decoding what was encoded keeps the low \<open>8 * n\<close> bits, all of them at full width.\<close>

lemma from_be_be_bytes:
  "from_be (be_bytes n (w :: 'a::len word)) = (take_bit (8 * n) w :: 'a word)"
proof (induction n)
  case (Suc n)
  have "from_be (be_bytes (Suc n) w)
      = push_bit (8 * n) (ucast (ucast (drop_bit (8 * n) w) :: 8 word))
        OR (from_be (be_bytes n w) :: 'a word)"
    using from_be_acc [of "ucast (ucast (drop_bit (8 * n) w) :: 8 word)" "be_bytes n w"]
    by (simp add: from_be_def)
  then show ?case unfolding Suc
    by (intro bit_word_eqI) (auto simp: bit_simps)
qed simp

lemma be_bytes_snoc:
  "be_bytes (Suc n) w = be_bytes n (drop_bit 8 w) @ [ucast w]"
  by (induction n) (simp_all add: add.commute)

lemma be_bytes_take_bit:
  "8 * n \<le> m \<Longrightarrow> be_bytes n (take_bit m w) = be_bytes n w"
proof (induction n)
  case (Suc n)
  then show ?case
    by (auto intro!: bit_word_eqI simp: bit_simps)
qed simp

lemma be_bytes_from_be:
  "8 * length bs \<le> LENGTH('a) \<Longrightarrow> be_bytes (length bs) (from_be bs :: 'a::len word) = bs"
proof (induction bs rule: rev_induct)
  case (snoc b bs)
  let ?x = "from_be bs :: 'a word"
  have low: "ucast (push_bit 8 ?x OR ucast b) = b"
    using snoc.prems by (intro bit_word_eqI) (auto simp: bit_simps)
  have high: "drop_bit 8 (push_bit 8 ?x OR ucast b) = take_bit (LENGTH('a) - 8) ?x"
    using snoc.prems by (intro bit_word_eqI) (auto simp: bit_simps dest: bit_imp_le_length)
  have "be_bytes (length (bs @ [b])) (from_be (bs @ [b]) :: 'a word)
      = be_bytes (Suc (length bs)) (push_bit 8 ?x OR ucast b)"
    by (simp add: from_be_snoc del: be_bytes.simps)
  also have "\<dots> = be_bytes (length bs) (take_bit (LENGTH('a) - 8) ?x) @ [b]"
    by (simp only: be_bytes_snoc low high)
  also have "\<dots> = bs @ [b]"
    using snoc.prems snoc.IH by (simp add: be_bytes_take_bit)
  finally show ?case .
qed simp

lemma from_be_be_bytes_full [byte_simps]:
  "LENGTH('a) \<le> 8 * n \<Longrightarrow> from_be (be_bytes n (w :: 'a::len word)) = w"
  by (simp add: from_be_be_bytes take_bit_word_eq_self)

lemma be_bytes_inj:
  "LENGTH('a) \<le> 8 * n \<Longrightarrow> be_bytes n (v :: 'a::len word) = be_bytes n w \<longleftrightarrow> v = w"
  by (metis from_be_be_bytes_full)

text \<open>\<open>vec.as_chunks::<N>()\<close>: the full chunks and the remainder.\<close>

function chunks :: "nat \<Rightarrow> 'a list \<Rightarrow> 'a list list" where
  "chunks n xs = (if n = 0 \<or> length xs < n then [] else take n xs # chunks n (drop n xs))"
  by pat_completeness auto
termination
  by (relation "measure (\<lambda>(n, xs). length xs)") auto

declare chunks.simps [simp del]

definition chunk_rest :: "nat \<Rightarrow> 'a list \<Rightarrow> 'a list" where
  "chunk_rest n xs = drop (n * (length xs div n)) xs"

lemma chunks_short [simp]: "length xs < n \<Longrightarrow> chunks n xs = []"
  by (simp add: chunks.simps)

lemma chunks_append: "0 < n \<Longrightarrow> length c = n \<Longrightarrow> chunks n (c @ xs) = c # chunks n xs"
  by (subst chunks.simps) simp

lemma chunks_concat:
  "0 < n \<Longrightarrow> \<forall>c \<in> set cs. length c = n \<Longrightarrow> chunks n (concat cs) = cs"
  by (induction cs) (simp_all add: chunks_append)

lemma chunk_rest_empty: "0 < n \<Longrightarrow> chunk_rest n xs = [] \<longleftrightarrow> n dvd length xs"
proof -
  assume "0 < n"
  have "length xs - n * (length xs div n) = length xs mod n"
    by (simp add: minus_mult_div_eq_mod)
  then show ?thesis
    by (simp add: chunk_rest_def dvd_eq_mod_eq_0 flip: length_0_conv)
qed

lemma chunk_rest_concat:
  assumes "0 < n" and "\<forall>c \<in> set cs. length c = n"
  shows "chunk_rest n (concat cs) = []"
proof -
  from assms(2) have "length (concat cs) = n * length cs"
    by (induction cs) auto
  with assms(1) show ?thesis by (simp add: chunk_rest_empty)
qed

lemma chunks_length: "c \<in> set (chunks n xs) \<Longrightarrow> length c = n"
proof (induction n xs rule: chunks.induct)
  case (1 n xs)
  then show ?case
    by (subst (asm) chunks.simps) (auto split: if_splits)
qed

lemma concat_chunks: "0 < n \<Longrightarrow> n dvd length xs \<Longrightarrow> concat (chunks n xs) = xs"
proof (induction n xs rule: chunks.induct)
  case (1 n xs)
  show ?case
  proof (cases "length xs < n")
    case True
    with 1 have "xs = []" by (cases xs) (auto dest: dvd_imp_le)
    with \<open>0 < n\<close> show ?thesis by simp
  next
    case False
    with 1 have "concat (chunks n (drop n xs)) = drop n xs"
      by (simp add: dvd_diff_nat)
    with False \<open>0 < n\<close> show ?thesis by (subst chunks.simps) simp
  qed
qed

end
