(* ===== verification/Catp_Types.thy ===== *)
theory Catp_Types
  imports Catp_Prelude
begin

text \<open>
  The vocabulary of \<open>src/lib.rs\<close>: protocol constants, the identifier registries (direction,
  cipher suite, message type, body format) with their wire bytes, and the error type. Every
  registry is a datatype with the source's variants; \<open>as u8\<close> and \<open>from_u8\<close> are functions.
\<close>

section \<open>Constants\<close>

definition VERSION :: u8 where "VERSION = 1"
definition EPOCH_SECS :: u64 where "EPOCH_SECS = 128"
definition TICKS_PER_SEC :: u64 where "TICKS_PER_SEC = 4096"
definition TICKS_PER_EPOCH :: u32 where "TICKS_PER_EPOCH = push_bit 19 1"
definition MAX_BODY :: nat where "MAX_BODY = 4095"
definition HEADER_LEN :: nat where "HEADER_LEN = 9"
definition RECORD_HEADER_LEN :: nat where "RECORD_HEADER_LEN = 3"
definition NUMBER_PAYLOAD_LEN :: nat where "NUMBER_PAYLOAD_LEN = 3"
definition SERIES_ENTRY_LEN :: nat where "SERIES_ENTRY_LEN = 4"
definition SCALE_MIN :: u8 where "SCALE_MIN = 0x01"
definition SCALE_MAX :: u8 where "SCALE_MAX = 0x07"
definition SCHEMA_UNSTRUCTURED :: u8 where "SCHEMA_UNSTRUCTURED = 0xFF"
definition MAX_DATAGRAM_IPV4 :: nat where "MAX_DATAGRAM_IPV4 = 512"

lemmas const_defs [simp] =
  VERSION_def EPOCH_SECS_def TICKS_PER_SEC_def MAX_BODY_def HEADER_LEN_def
  RECORD_HEADER_LEN_def NUMBER_PAYLOAD_LEN_def SERIES_ENTRY_LEN_def SCALE_MIN_def SCALE_MAX_def
  SCHEMA_UNSTRUCTURED_def MAX_DATAGRAM_IPV4_def

text \<open>The compile-time assertion of \<open>src/lib.rs\<close>: one epoch is exactly \<open>2 ^ 19\<close> ticks.\<close>

lemma TICKS_PER_EPOCH_eq [simp]: "TICKS_PER_EPOCH = 524288"
  by (simp add: TICKS_PER_EPOCH_def)

lemma ticks_per_epoch_const: "EPOCH_SECS * TICKS_PER_SEC = ucast TICKS_PER_EPOCH"
  by simp

section \<open>Registries\<close>

datatype direction = NodeToCollector | CollectorToNode

primrec direction_u8 :: "direction \<Rightarrow> u8" where
  "direction_u8 NodeToCollector = 0x00"
| "direction_u8 CollectorToNode = 0x01"

datatype cipher_id = HmacSha256T64 | SipHash24 | ChaCha20Poly1305 | HmacSha256T32

primrec cipher_u8 :: "cipher_id \<Rightarrow> u8" where
  "cipher_u8 HmacSha256T64 = 0x01"
| "cipher_u8 SipHash24 = 0x02"
| "cipher_u8 ChaCha20Poly1305 = 0x03"
| "cipher_u8 HmacSha256T32 = 0x04"

definition cipher_from_u8 :: "u8 \<Rightarrow> cipher_id option" where
  "cipher_from_u8 v =
     (if v = 0x01 then Some HmacSha256T64
      else if v = 0x02 then Some SipHash24
      else if v = 0x03 then Some ChaCha20Poly1305
      else if v = 0x04 then Some HmacSha256T32
      else None)"

primrec tag_len :: "cipher_id \<Rightarrow> nat" where
  "tag_len HmacSha256T64 = 8"
| "tag_len SipHash24 = 8"
| "tag_len ChaCha20Poly1305 = 16"
| "tag_len HmacSha256T32 = 4"

primrec implemented :: "cipher_id \<Rightarrow> bool" where
  "implemented HmacSha256T64 = True"
| "implemented SipHash24 = True"
| "implemented ChaCha20Poly1305 = True"
| "implemented HmacSha256T32 = True"

primrec requires_inbound_rate_limit :: "cipher_id \<Rightarrow> bool" where
  "requires_inbound_rate_limit HmacSha256T64 = False"
| "requires_inbound_rate_limit SipHash24 = False"
| "requires_inbound_rate_limit ChaCha20Poly1305 = False"
| "requires_inbound_rate_limit HmacSha256T32 = True"

datatype msg_type =
    Message | Event | Alarm | Number | Series
  | EpochAnnounce | TimeAnnounce | TimeRequest | Heartbeat | CapabilityAdvertise

primrec msg_type_u8 :: "msg_type \<Rightarrow> u8" where
  "msg_type_u8 Message = 0x01"
| "msg_type_u8 Event = 0x02"
| "msg_type_u8 Alarm = 0x03"
| "msg_type_u8 Number = 0x04"
| "msg_type_u8 Series = 0x05"
| "msg_type_u8 EpochAnnounce = 0x10"
| "msg_type_u8 TimeAnnounce = 0x11"
| "msg_type_u8 TimeRequest = 0x12"
| "msg_type_u8 Heartbeat = 0x13"
| "msg_type_u8 CapabilityAdvertise = 0x14"

definition is_record_framed :: "msg_type \<Rightarrow> bool" where
  "is_record_framed mt = (mt = Message \<or> mt = Event \<or> mt = Alarm)"

definition msg_type_from_u8 :: "u8 \<Rightarrow> msg_type option" where
  "msg_type_from_u8 v =
     (if v = 0x01 then Some Message
      else if v = 0x02 then Some Event
      else if v = 0x03 then Some Alarm
      else if v = 0x04 then Some Number
      else if v = 0x05 then Some Series
      else if v = 0x10 then Some EpochAnnounce
      else if v = 0x11 then Some TimeAnnounce
      else if v = 0x12 then Some TimeRequest
      else if v = 0x13 then Some Heartbeat
      else if v = 0x14 then Some CapabilityAdvertise
      else None)"

definition is_control :: "u8 \<Rightarrow> bool" where
  "is_control t = (t AND 0x10 \<noteq> 0)"

definition is_vendor :: "u8 \<Rightarrow> bool" where
  "is_vendor t = (t AND 0x08 \<noteq> 0)"

datatype format = FmtNone | Cbor | MsgPack | Protobuf | FlatBuffers | CapnProto

primrec format_u8 :: "format \<Rightarrow> u8" where
  "format_u8 FmtNone = 0x01"
| "format_u8 Cbor = 0x02"
| "format_u8 MsgPack = 0x03"
| "format_u8 Protobuf = 0x04"
| "format_u8 FlatBuffers = 0x05"
| "format_u8 CapnProto = 0x06"

definition format_from_u8 :: "u8 \<Rightarrow> format option" where
  "format_from_u8 v =
     (if v = 0x01 then Some FmtNone
      else if v = 0x02 then Some Cbor
      else if v = 0x03 then Some MsgPack
      else if v = 0x04 then Some Protobuf
      else if v = 0x05 then Some FlatBuffers
      else if v = 0x06 then Some CapnProto
      else None)"

section \<open>Errors\<close>

datatype error =
    TooShort
  | UnsupportedVersion u8
  | BadMsgType u8
  | UnknownSender u32
  | CipherMismatch u8 u8 \<comment> \<open>got, want\<close>
  | CipherUnimplemented u8
  | EpochOutOfWindow
  | AuthFailed
  | Replay
  | Framing string
  | BodyTooLarge nat
  | Oversize nat
  | OffsetReuse u32
  | BadNumber string
  | BadSeries string
  | EpochRollback u32 u32 \<comment> \<open>got, hi\<close>
  | TimeRollback i64 i64 \<comment> \<open>asserted, floor\<close>
  | ClockAlreadyValid
  | NoClock
  | RateLimited
  | CipherRequiresRateLimit u8
  | BufferTooSmall nat nat \<comment> \<open>have, need\<close>

definition scale_is_valid :: "u8 \<Rightarrow> bool" where
  "scale_is_valid scale = (SCALE_MIN \<le> scale \<and> scale \<le> SCALE_MAX)"

section \<open>Finite registries as enumerations\<close>

text \<open>
  The registries are finite, so a statement over all their members is decided by evaluation.
\<close>

instantiation cipher_id :: enum
begin

definition "enum_cipher_id = [HmacSha256T64, SipHash24, ChaCha20Poly1305, HmacSha256T32]"
definition "enum_all_cipher_id P =
  (P HmacSha256T64 \<and> P SipHash24 \<and> P ChaCha20Poly1305 \<and> P HmacSha256T32)"
definition "enum_ex_cipher_id P =
  (P HmacSha256T64 \<or> P SipHash24 \<or> P ChaCha20Poly1305 \<or> P HmacSha256T32)"

instance
proof
  show "UNIV = set (enum_class.enum :: cipher_id list)"
    using cipher_id.exhaust by (auto simp: enum_cipher_id_def)
  show "distinct (enum_class.enum :: cipher_id list)"
    by (simp add: enum_cipher_id_def)
  show "enum_class.enum_all P \<longleftrightarrow> Ball UNIV P" for P :: "cipher_id \<Rightarrow> bool"
    unfolding enum_all_cipher_id_def by (metis UNIV_I cipher_id.exhaust)
  show "enum_class.enum_ex P \<longleftrightarrow> Bex UNIV P" for P :: "cipher_id \<Rightarrow> bool"
    unfolding enum_ex_cipher_id_def by (metis UNIV_I cipher_id.exhaust)
qed

end

section \<open>Facts on the registries\<close>

lemma cipher_from_u8_u8 [simp]: "cipher_from_u8 (cipher_u8 c) = Some c"
  by (cases c) (simp_all add: cipher_from_u8_def)

lemma cipher_from_u8_Some: "cipher_from_u8 v = Some c \<Longrightarrow> v = cipher_u8 c"
  by (auto simp: cipher_from_u8_def split: if_splits)

lemma msg_type_from_u8_u8 [simp]: "msg_type_from_u8 (msg_type_u8 t) = Some t"
  by (cases t) (simp_all add: msg_type_from_u8_def)

lemma msg_type_from_u8_Some: "msg_type_from_u8 v = Some t \<Longrightarrow> v = msg_type_u8 t"
  by (auto simp: msg_type_from_u8_def split: if_splits)

lemma format_from_u8_u8 [simp]: "format_from_u8 (format_u8 f) = Some f"
  by (cases f) (simp_all add: format_from_u8_def)

lemma format_from_u8_Some: "format_from_u8 v = Some f \<Longrightarrow> v = format_u8 f"
  by (auto simp: format_from_u8_def split: if_splits)

lemma cipher_u8_inj [simp]: "cipher_u8 c = cipher_u8 c' \<longleftrightarrow> c = c'"
  by (metis cipher_from_u8_u8 option.inject)

lemma msg_type_u8_inj [simp]: "msg_type_u8 c = msg_type_u8 c' \<longleftrightarrow> c = c'"
  by (metis msg_type_from_u8_u8 option.inject)

lemma direction_u8_inj [simp]: "direction_u8 d = direction_u8 d' \<longleftrightarrow> d = d'"
  by (cases d; cases d') simp_all

lemma implemented_all [simp]: "implemented c"
  by (cases c) simp_all

lemma tag_len_pos [simp]: "0 < tag_len c"
  by (cases c) simp_all

lemma tag_len_le: "tag_len c \<le> 16"
  by (cases c) simp_all

text \<open>The type and cipher bytes fit their 5-bit and 4-bit header fields.\<close>

lemma msg_type_u8_field: "msg_type_u8 t AND 0x1F = msg_type_u8 t"
  by (cases t) simp_all

lemma cipher_u8_field: "cipher_u8 c AND 0x0F = cipher_u8 c"
  by (cases c) simp_all

section \<open>Property\<close>

text \<open>The wire byte of a registry member and the member of a wire byte determine each other, for
  cipher suites, message types and body formats: reading a byte yields a member exactly when the
  byte is that member's.\<close>

lemma registries_roundtrip:
  "(cipher_from_u8 v = Some c \<longleftrightarrow> v = cipher_u8 c)
   \<and> (msg_type_from_u8 v = Some t \<longleftrightarrow> v = msg_type_u8 t)
   \<and> (format_from_u8 v = Some f \<longleftrightarrow> v = format_u8 f)"
  using cipher_from_u8_Some msg_type_from_u8_Some format_from_u8_Some by auto

end
