(* ===== verification/Catp_Clock.thy ===== *)
theory Catp_Clock
  imports Catp_Types "HOL-Library.Signed_Division"
begin

text \<open>
  The node's clock of \<open>src/peer.rs\<close>: \<open>NodeClock\<close>, the cold-start state machine. Times are 64-bit
  words read as signed; the two unchecked additions of the source wrap, as in a release build. The
  life of a node's clock is the labelled step relation \<open>clock_step\<close>.
\<close>

section \<open>State and operations\<close>

record node_clock =
  nc_valid :: bool
  nc_last_epoch :: u32
  nc_correction :: i64
  nc_next_request_at :: i64
  nc_request_backoff :: i64

definition TIME_REQUEST_BASE_SECS :: i64 where "TIME_REQUEST_BASE_SECS = 2"
definition TIME_REQUEST_MAX_SECS :: i64 where "TIME_REQUEST_MAX_SECS = 3600"

definition i64_min :: i64 where "i64_min = push_bit 63 1"

definition saturating_add_i64 :: "i64 \<Rightarrow> i64 \<Rightarrow> i64" where
  "saturating_add_i64 a b =
     (let s = sint a + sint b
      in if s < - (2 ^ 63) then i64_min else if 2 ^ 63 \<le> s then i64_min - 1 else a + b)"

definition min_i64 :: "i64 \<Rightarrow> i64 \<Rightarrow> i64" where
  "min_i64 a b = (if a <=s b then a else b)"

definition clockless :: "u32 \<Rightarrow> node_clock" where
  "clockless last_epoch =
     \<lparr>nc_valid = False, nc_last_epoch = last_epoch, nc_correction = 0,
      nc_next_request_at = i64_min, nc_request_backoff = TIME_REQUEST_BASE_SECS\<rparr>"

definition synced :: "u32 \<Rightarrow> node_clock" where
  "synced last_epoch =
     \<lparr>nc_valid = True, nc_last_epoch = last_epoch, nc_correction = 0,
      nc_next_request_at = i64_min, nc_request_backoff = TIME_REQUEST_BASE_SECS\<rparr>"

definition may_request_time :: "i64 \<Rightarrow> node_clock \<Rightarrow> bool" where
  "may_request_time now_monotonic c \<longleftrightarrow> \<not> nc_valid c \<and> nc_next_request_at c <=s now_monotonic"

definition record_time_request :: "i64 \<Rightarrow> node_clock \<Rightarrow> node_clock" where
  "record_time_request now_monotonic c =
     c\<lparr>nc_next_request_at := saturating_add_i64 now_monotonic (nc_request_backoff c),
       nc_request_backoff := min_i64 (nc_request_backoff c * 2) TIME_REQUEST_MAX_SECS\<rparr>"

definition time_floor :: "node_clock \<Rightarrow> i64" where
  "time_floor c = ucast (nc_last_epoch c) * ucast EPOCH_SECS"

definition accept_time_announce ::
  "i64 \<Rightarrow> i64 \<Rightarrow> node_clock \<Rightarrow> (unit, error) result \<times> node_clock" where
  "accept_time_announce asserted raw_now c =
     (if nc_valid c then (Err ClockAlreadyValid, c)
      else if asserted <=s time_floor c then (Err (TimeRollback asserted (time_floor c)), c)
      else (Ok (),
        c\<lparr>nc_correction := asserted - raw_now,
          nc_last_epoch := ucast (of_int (sint asserted sdiv sint (ucast EPOCH_SECS :: i64)) :: i64),
          nc_valid := True,
          nc_request_backoff := TIME_REQUEST_BASE_SECS\<rparr>))"

definition clock_now :: "i64 \<Rightarrow> node_clock \<Rightarrow> (i64, error) result" where
  "clock_now raw_now c =
     (if \<not> nc_valid c then Err NoClock else Ok (raw_now + nc_correction c))"

section \<open>Signed arithmetic\<close>

lemma sint_small: "unat (w :: i64) < 2 ^ 63 \<Longrightarrow> sint w = int (unat w)"
proof -
  assume "unat w < 2 ^ 63"
  then have "int (unat w) < int (2 ^ 63)" by (simp only: of_nat_less_iff)
  then have "uint w < 2 ^ 63" by simp
  then have "signed_take_bit 63 (uint w) = uint w"
    by (intro signed_take_bit_int_eq_self) (auto intro: order_trans [of _ 0])
  then show "sint w = int (unat w)" by (simp add: sint_uint)
qed

lemma sint_of_int_small:
  "- (2 ^ 63) \<le> k \<Longrightarrow> k < 2 ^ 63 \<Longrightarrow> sint (of_int k :: i64) = k"
  by (simp add: signed_of_int signed_take_bit_int_eq_self)

lemma sint_bounds: "- (2 ^ 63) \<le> sint (w :: i64)" "sint (w :: i64) < 2 ^ 63"
  using sint_ge [of w] sint_lt [of w] by simp_all

lemma sint_nonneg:
  assumes "0 \<le> sint (w :: i64)"
  shows "sint w = int (unat w) \<and> unat w < 2 ^ 63"
proof -
  have "sint w < 2 ^ 63" by (rule sint_bounds)
  then have "uint w = sint w"
    using assms by (simp add: uint_sint take_bit_int_eq_self)
  then have "int (unat w) = sint w" by simp
  moreover have "unat w < 2 ^ 63"
  proof -
    have "int (unat w) < int (2 ^ 63)" using \<open>int (unat w) = sint w\<close> \<open>sint w < 2 ^ 63\<close> by simp
    then show ?thesis by (simp only: of_nat_less_iff)
  qed
  ultimately show ?thesis by simp
qed

lemma sint_time_floor: "sint (time_floor c) = int (unat (nc_last_epoch c)) * 128"
proof -
  have b: "unat (nc_last_epoch c) < 4294967296" by (rule unat_u32_less)
  then have u: "unat (time_floor c) = unat (nc_last_epoch c) * 128"
    by (simp add: time_floor_def unat_word_ariths(2) unat_ucast_mod)
  then have "unat (time_floor c) < 2 ^ 63" using b by simp
  then show ?thesis by (simp add: sint_small u)
qed

lemma sint_saturating_add:
  "sint (saturating_add_i64 a b) = max (- (2 ^ 63)) (min (sint a + sint b) (2 ^ 63 - 1))"
proof -
  have m: "sint i64_min = - (2 ^ 63)" "sint (i64_min - 1) = 2 ^ 63 - 1"
    by (simp_all add: i64_min_def)
  have "sint (a + b) = sint a + sint b" if "- (2 ^ 63) \<le> sint a + sint b" "sint a + sint b < 2 ^ 63"
  proof -
    have "a + b = of_int (sint a + sint b)" by simp
    then show ?thesis using sint_of_int_small [OF that] by metis
  qed
  then show ?thesis by (auto simp: saturating_add_i64_def Let_def m)
qed

section \<open>Accepting an announcement\<close>

text \<open>The epoch an announcement of a time beyond the floor persists.\<close>

lemma announced_epoch:
  fixes asserted :: i64
  assumes "sint (time_floor c) < sint asserted"
  shows "unat (ucast (of_int (sint asserted sdiv sint (ucast EPOCH_SECS :: i64)) :: i64) :: u32)
       = (unat asserted div 128) mod 2 ^ 32"
proof -
  have "0 \<le> sint (time_floor c)" by (simp add: sint_time_floor)
  then have "0 \<le> sint asserted" using assms by linarith
  then have a: "sint asserted = int (unat asserted)" "unat asserted < 2 ^ 63"
    using sint_nonneg [of asserted] by auto
  have "int (unat asserted) sdiv 128 = int (unat asserted div 128)"
    by (cases "asserted = 0") (simp_all add: signed_divide_int_def zdiv_int)
  then have "sint asserted sdiv sint (ucast EPOCH_SECS :: i64) = int (unat asserted div 128)"
    by (simp add: a(1))
  moreover have "unat (of_int (int (unat asserted div 128)) :: i64) = unat asserted div 128"
    using a(2) by (simp add: unat_of_nat)
  ultimately show ?thesis by (simp only: unat_ucast_mod) simp
qed

lemma accept_time_announce_cases:
  assumes "accept_time_announce asserted raw_now c = (r, c')"
  obtains (valid) "nc_valid c" "r = Err ClockAlreadyValid" "c' = c"
    | (rollback) "\<not> nc_valid c" "sint asserted \<le> int (unat (nc_last_epoch c)) * 128"
      "r = Err (TimeRollback asserted (time_floor c))" "c' = c"
    | (set) "\<not> nc_valid c" "int (unat (nc_last_epoch c)) * 128 < sint asserted" "r = Ok ()"
      "nc_valid c'" "nc_correction c' = asserted - raw_now"
      "unat (nc_last_epoch c') = (unat asserted div 128) mod 2 ^ 32"
      "nc_request_backoff c' = TIME_REQUEST_BASE_SECS"
proof (cases "nc_valid c")
  case True
  with assms show ?thesis by (intro valid) (simp_all add: accept_time_announce_def)
next
  case False
  show ?thesis
  proof (cases "asserted <=s time_floor c")
    case True
    with False assms show ?thesis
      by (intro rollback) (auto simp: accept_time_announce_def word_sle_eq sint_time_floor)
  next
    case gt: False
    then have "sint (time_floor c) < sint asserted" by (simp add: word_sle_eq)
    with False gt assms announced_epoch [OF this] show ?thesis
      by (intro set) (auto simp: accept_time_announce_def sint_time_floor)
  qed
qed

section \<open>Backoff\<close>

lemma backoff_step:
  assumes "sint (nc_request_backoff c) = min (2 ^ Suc k) 3600"
  shows "sint (nc_request_backoff (record_time_request t c)) = min (2 ^ Suc (Suc k)) 3600"
proof -
  have "sint (nc_request_backoff c * 2) = sint (nc_request_backoff c) * 2"
  proof -
    have b: "- (2 ^ 63) \<le> sint (nc_request_backoff c) * 2" "sint (nc_request_backoff c) * 2 < 2 ^ 63"
      using assms by (auto simp: min_def intro: order_trans [of _ 0])
    have "nc_request_backoff c * 2 = of_int (sint (nc_request_backoff c) * 2)" by simp
    then show ?thesis using sint_of_int_small [OF b] by metis
  qed
  then show ?thesis
    using assms
    by (auto simp: record_time_request_def min_i64_def word_sle_eq TIME_REQUEST_MAX_SECS_def min_def)
qed

lemma backoff_after_requests:
  assumes "sint (nc_request_backoff c) = min (2 ^ Suc k) 3600"
  shows "sint (nc_request_backoff (fold record_time_request ts c))
       = min (2 ^ Suc (k + length ts)) 3600"
  using assms
proof (induction ts arbitrary: c k)
  case (Cons t ts)
  from Cons.IH [OF backoff_step [OF Cons.prems, of t]] show ?case by simp
qed simp

section \<open>The life of a clock\<close>

datatype clock_event =
    Request i64 \<comment> \<open>monotonic instant\<close>
  | Announce i64 i64 \<comment> \<open>asserted time, platform clock\<close>

text \<open>A node sends a request only when \<open>may_request_time\<close> says so; announcements arrive at any time.\<close>

inductive clock_step :: "node_clock \<Rightarrow> clock_event \<Rightarrow> node_clock \<Rightarrow> bool" where
  request: "may_request_time now c \<Longrightarrow> clock_step c (Request now) (record_time_request now c)"
| announce: "accept_time_announce asserted raw_now c = (r, c') \<Longrightarrow> clock_step c (Announce asserted raw_now) c'"

inductive clock_run :: "node_clock \<Rightarrow> clock_event list \<Rightarrow> node_clock \<Rightarrow> bool" where
  finished: "clock_run c [] c"
| step: "clock_step c e c1 \<Longrightarrow> clock_run c1 es c2 \<Longrightarrow> clock_run c (e # es) c2"

inductive_cases clock_requestE: "clock_step c (Request now) c'"
inductive_cases clock_announceE: "clock_step c (Announce asserted raw_now) c'"
inductive_simps clock_run_simps: "clock_run c [] c'" "clock_run c (e # es) c'"

text \<open>What a time in range is: its epoch fits the persisted 32-bit value.\<close>

fun event_in_range :: "clock_event \<Rightarrow> bool" where
  "event_in_range (Announce asserted raw_now) = (sint asserted < 2 ^ 39)"
| "event_in_range (Request now) = True"

lemma clock_step_floor:
  assumes "clock_step c e c'" and "event_in_range e"
  shows "nc_last_epoch c \<le> nc_last_epoch c'"
  using assms(1)
proof cases
  case (request now)
  then show ?thesis by (simp add: record_time_request_def)
next
  case (announce asserted raw_now r)
  from announce(2) show ?thesis
  proof (cases rule: accept_time_announce_cases)
    case set
    have pos: "0 \<le> sint asserted" using set(2) by (meson le_less_trans less_imp_le of_nat_0_le_iff zero_le_mult_iff zero_le_numeral)
    have u: "sint asserted = int (unat asserted)" using sint_nonneg [OF pos] by simp
    have lt: "int (unat asserted) < int (2 ^ 39)"
      using assms(2) announce(1) u by simp
    then have "unat asserted div 128 < 2 ^ 32" by (simp only: of_nat_less_iff) simp
    then have new: "unat (nc_last_epoch c') = unat asserted div 128" using set(6) by simp
    have "int (unat (nc_last_epoch c) * 128) < int (unat asserted)" using set(2) u by simp
    then have "unat (nc_last_epoch c) * 128 < unat asserted" by (simp only: of_nat_less_iff)
    then have "unat (nc_last_epoch c) \<le> unat asserted div 128"
      by (simp add: less_eq_div_iff_mult_less_eq)
    with new show ?thesis by (simp add: word_le_nat_alt)
  qed simp_all
qed

lemma clock_run_floor:
  "clock_run c es c' \<Longrightarrow> list_all event_in_range es \<Longrightarrow> nc_last_epoch c \<le> nc_last_epoch c'"
  by (induction rule: clock_run.induct) (auto dest: clock_step_floor)

lemma clock_step_valid: "clock_step c e c' \<Longrightarrow> nc_valid c \<Longrightarrow> c' = c"
  by (auto elim!: clock_step.cases simp: may_request_time_def accept_time_announce_def)

lemma clock_run_valid: "clock_run c es c' \<Longrightarrow> nc_valid c \<Longrightarrow> c' = c"
  by (induction rule: clock_run.induct) (auto dest: clock_step_valid)

section \<open>Properties\<close>

text \<open>\<open>accept_time_announce\<close> sets the clock exactly when it has none and the asserted time is strictly
  beyond the persisted floor; otherwise it returns the matching error and changes nothing. A set
  clock reads the asserted time at the instant of acceptance and advances with the platform clock.\<close>

lemma time_announce_outcome:
  assumes "accept_time_announce asserted raw_now c = (r, c')"
  shows "if nc_valid c then r = Err ClockAlreadyValid \<and> c' = c
    else if sint asserted \<le> int (unat (nc_last_epoch c)) * 128
    then r = Err (TimeRollback asserted (time_floor c)) \<and> c' = c
    else r = Ok () \<and> nc_valid c' \<and> clock_now (raw_now + d) c' = Ok (asserted + d)
      \<and> unat (nc_last_epoch c') = (unat asserted div 128) mod 2 ^ 32"
  using assms by (cases rule: accept_time_announce_cases) (simp_all add: clock_now_def)

text \<open>C33: Over any run of guarded requests and announcements, the persisted epoch never decreases, as long
  as every asserted time has an epoch that fits 32 bits; and once the clock is set, nothing changes
  it again.\<close>

theorem clock_floor_never_decreases:
  assumes "clock_run c es c'"
  shows "(list_all event_in_range es \<longrightarrow> nc_last_epoch c \<le> nc_last_epoch c') \<and> (nc_valid c \<longrightarrow> c' = c)"
  using clock_run_floor [OF assms] clock_run_valid [OF assms] by blast

theorem clock_floor_never_decreases_witness:
  "nc_last_epoch (clockless 3)
   \<le> nc_last_epoch (snd (accept_time_announce 1700000000 5 (record_time_request 0 (clockless 3))))"
proof -
  let ?c1 = "record_time_request 0 (clockless 3)"
  obtain r c2 where a: "accept_time_announce 1700000000 5 ?c1 = (r, c2)" by fastforce
  have "may_request_time 0 (clockless 3)"
    by (simp add: may_request_time_def clockless_def i64_min_def word_sle_eq)
  then have "clock_run (clockless 3) [Request 0, Announce 1700000000 5] c2"
    by (blast intro: clock_run.intros clock_step.intros a)
  from clock_floor_never_decreases [OF this] show ?thesis by (simp add: a)
qed

text \<open>The persisted epoch is cut to 32 bits: an authenticated announcement of a time whose epoch needs
  more resets the floor, to zero in this instance, although it is meant only to rise.\<close>

lemma clock_floor_truncates:
  "fst (accept_time_announce 0x8000000000 0 (clockless 13281250)) = Ok ()
   \<and> nc_last_epoch (snd (accept_time_announce 0x8000000000 0 (clockless 13281250))) = 0"
proof -
  obtain r c' where a: "accept_time_announce 0x8000000000 0 (clockless 13281250) = (r, c')" by fastforce
  then show ?thesis
  proof (cases rule: accept_time_announce_cases)
    case set
    have "unat (nc_last_epoch c') = 0" using set(6) by simp
    then show ?thesis using set(3) by (simp add: a unat_eq_0)
  qed (simp_all add: clockless_def)
qed

text \<open>The request backoff after \<open>k\<close> recorded requests is \<open>min (2 * 2 ^ k) 3600\<close> seconds: it doubles
  from two seconds to the one-hour ceiling and stays there, without overflow for any instants.\<close>

lemma request_backoff_schedule:
  "sint (nc_request_backoff (fold record_time_request ts (clockless e)))
   = min (2 * 2 ^ length ts) 3600"
  using backoff_after_requests [of "clockless e" 0 ts]
  by (simp add: clockless_def TIME_REQUEST_BASE_SECS_def)

lemma record_keeps_valid: "nc_valid (fold record_time_request ts c) = nc_valid c"
  by (induction ts arbitrary: c) (simp_all add: record_time_request_def)

lemma request_gap:
  "may_request_time t' (record_time_request t c)
   \<longleftrightarrow> \<not> nc_valid c \<and> max (- (2 ^ 63)) (min (sint t + sint (nc_request_backoff c)) (2 ^ 63 - 1)) \<le> sint t'"
  by (simp add: may_request_time_def record_time_request_def word_sle_eq sint_saturating_add)

text \<open>C34: Requests are spaced by the backoff, and by no more: after a request at instant \<open>t\<close> the next one is
  allowed at \<open>t'\<close> exactly if the node still has no clock and \<open>t'\<close> is no earlier than \<open>t\<close> plus the backoff
  in force (the far end of the clock saturating). For a node that started without a clock and has
  recorded requests at the instants \<open>ts\<close> before, that backoff is \<open>2 * 2 ^ length ts\<close> seconds, up to an
  hour, and the next request is always allowed in the end.\<close>

theorem requests_are_spaced:
  "(0 \<le> sint (nc_request_backoff c) \<longrightarrow>
      may_request_time t' (record_time_request t c)
      = (\<not> nc_valid c \<and> min (sint t + sint (nc_request_backoff c)) (2 ^ 63 - 1) \<le> sint t'))
   \<and> may_request_time t' (record_time_request t (fold record_time_request ts (clockless e)))
      = (min (sint t + min (2 * 2 ^ length ts) 3600) (2 ^ 63 - 1) \<le> sint t')"
proof
  have gap: "may_request_time t' (record_time_request t c)
      = (\<not> nc_valid c \<and> min (sint t + sint (nc_request_backoff c)) (2 ^ 63 - 1) \<le> sint t')"
    if "0 \<le> sint (nc_request_backoff c)" for c
    unfolding request_gap using that sint_bounds [of t] sint_bounds [of t'] by auto
  then show "0 \<le> sint (nc_request_backoff c) \<longrightarrow>
      may_request_time t' (record_time_request t c)
      = (\<not> nc_valid c \<and> min (sint t + sint (nc_request_backoff c)) (2 ^ 63 - 1) \<le> sint t')" by blast
  have "0 \<le> sint (nc_request_backoff (fold record_time_request ts (clockless e)))"
    by (simp add: request_backoff_schedule)
  from gap [OF this]
  show "may_request_time t' (record_time_request t (fold record_time_request ts (clockless e)))
      = (min (sint t + min (2 * 2 ^ length ts) 3600) (2 ^ 63 - 1) \<le> sint t')"
    by (simp add: request_backoff_schedule record_keeps_valid) (simp add: clockless_def)
qed

theorem requests_are_spaced_witness:
  "may_request_time 12 (record_time_request 10 (clockless 3))
   \<and> \<not> may_request_time 11 (record_time_request 10 (clockless 3))"
proof -
  have "sint (nc_request_backoff (clockless 3)) = 2" "\<not> nc_valid (clockless 3)"
    by (simp_all add: clockless_def TIME_REQUEST_BASE_SECS_def)
  then show ?thesis
    using requests_are_spaced [of "clockless 3" 12 10 "[]" 3] requests_are_spaced [of "clockless 3" 11 10 "[]" 3]
    by simp
qed

end
