(* ===== verification/Catp_Codec.thy ===== *)
theory Catp_Codec
  imports Catp_Prelude
begin

text \<open>
  The interface of a decoder applied repeatedly to a byte stream until it is consumed: the record
  loop of a payload and the digit pairs of a hex field both have this shape. \<open>stream_decoder\<close> reads
  back what an encoder wrote; \<open>stream_codec\<close> also accepts nothing else.
\<close>

locale stream_decoder =
  fixes valid :: "'a \<Rightarrow> bool"
    and enc :: "'a \<Rightarrow> 'b list"
    and dec :: "'b list \<Rightarrow> ('a \<times> nat, 'e) result"
    and dec_all :: "'b list \<Rightarrow> ('a list, 'e) result"
  assumes dec_enc: "valid x \<Longrightarrow> dec (enc x @ ys) = Ok (x, length (enc x))"
    and enc_nonempty: "valid x \<Longrightarrow> enc x \<noteq> []"
    and dec_all_Nil: "dec_all [] = Ok []"
    and dec_all_step:
      "bs \<noteq> [] \<Longrightarrow> dec bs = Ok (x, n) \<Longrightarrow> 0 < n \<Longrightarrow> n \<le> length bs \<Longrightarrow>
       dec_all bs = rmap (\<lambda>xs. x # xs) (dec_all (drop n bs))"
begin

lemma dec_all_enc: "\<forall>x \<in> set xs. valid x \<Longrightarrow> dec_all (concat (map enc xs)) = Ok xs"
proof (induction xs)
  case (Cons x xs)
  then have x: "valid x" and ih: "dec_all (concat (map enc xs)) = Ok xs" by simp_all
  have "dec_all (enc x @ concat (map enc xs))
      = rmap (\<lambda>xs. x # xs) (dec_all (drop (length (enc x)) (enc x @ concat (map enc xs))))"
    by (rule dec_all_step) (use enc_nonempty [OF x] dec_enc [OF x] in simp_all)
  with ih show ?case by simp
qed (simp add: dec_all_Nil)

lemma enc_all_inj:
  "\<forall>x \<in> set xs. valid x \<Longrightarrow> \<forall>y \<in> set ys. valid y \<Longrightarrow>
   concat (map enc xs) = concat (map enc ys) \<longleftrightarrow> xs = ys"
  by (metis dec_all_enc result.inject(1))

end

locale stream_codec = stream_decoder +
  assumes dec_inv: "dec bs = Ok (x, n) \<Longrightarrow> valid x \<and> n = length (enc x) \<and> take n bs = enc x"
    and dec_all_fail: "bs \<noteq> [] \<Longrightarrow> \<not> is_ok (dec bs) \<Longrightarrow> \<not> is_ok (dec_all bs)"
begin

lemma dec_all_Ok: "dec_all bs = Ok xs \<Longrightarrow> (\<forall>x \<in> set xs. valid x) \<and> concat (map enc xs) = bs"
proof (induction "length bs" arbitrary: bs xs rule: less_induct)
  case less
  show ?case
  proof (cases "bs = []")
    case True
    with less.prems show ?thesis by (simp add: dec_all_Nil)
  next
    case False
    with less.prems dec_all_fail [of bs] obtain x n where d: "dec bs = Ok (x, n)"
      by (auto simp: is_ok_iff)
    then have x: "valid x" "n = length (enc x)" "take n bs = enc x" using dec_inv by blast+
    then have n: "0 < n" "n \<le> length bs" using enc_nonempty [of x]
      by (simp, metis length_take min.absorb_iff2 min.commute)
    have "rmap (\<lambda>xs. x # xs) (dec_all (drop n bs)) = Ok xs"
      using dec_all_step [OF False d n] less.prems by simp
    then obtain ys where ys: "dec_all (drop n bs) = Ok ys" "xs = x # ys"
      by (auto simp only: rmap_eq_Ok)
    have "length (drop n bs) < length bs" using n by simp
    with less.hyps ys(1) have "(\<forall>y \<in> set ys. valid y) \<and> concat (map enc ys) = drop n bs" by blast
    moreover have "bs = enc x @ drop n bs" using x(3) append_take_drop_id [of n bs] by simp
    ultimately show ?thesis using x(1) ys(2) by auto
  qed
qed

lemma dec_all_iff:
  "dec_all bs = Ok xs \<longleftrightarrow> (\<forall>x \<in> set xs. valid x) \<and> bs = concat (map enc xs)"
  using dec_all_Ok dec_all_enc by blast

end

end
