(* ===== verification/Catp_Record.thy ===== *)
theory Catp_Record
  imports Catp_Types Catp_Codec
begin

text \<open>
  Records of \<open>src/wire.rs\<close>: the 24-bit packed header, \<open>Record::write_into\<close>, \<open>Record::decode\<close> and the
  loop of \<open>decode\<close> (step 9) that reads the records of a payload.
\<close>

section \<open>The record\<close>

record catp_record =
  r_format :: u8
  r_schema_version :: u8
  r_body :: bytes

definition record_new :: "format \<Rightarrow> u8 \<Rightarrow> bytes \<Rightarrow> catp_record" where
  "record_new fmt schema_version body =
     \<lparr>r_format = format_u8 fmt, r_schema_version = schema_version, r_body = body\<rparr>"

definition wire_len :: "catp_record \<Rightarrow> nat" where
  "wire_len r = RECORD_HEADER_LEN + length (r_body r)"

definition header_word :: "catp_record \<Rightarrow> u32" where
  "header_word r =
     push_bit 20 (ucast (r_format r) AND 0x0F)
     OR push_bit 12 (ucast (r_schema_version r) AND 0xFF)
     OR (of_nat (length (r_body r)) AND 0xFFF)"

text \<open>The result is the buffer after the write and the number of bytes written.\<close>

definition write_into :: "catp_record \<Rightarrow> bytes \<Rightarrow> (bytes \<times> nat, error) result" where
  "write_into r out =
     (if r_body r = [] \<or> MAX_BODY < length (r_body r) then Err (BodyTooLarge (length (r_body r)))
      else let need = wire_len r in
        if length out < need then Err (BufferTooSmall (length out) need)
        else rbind (subslice (be_bytes 4 (header_word r)) 1 4) (\<lambda>h.
             rbind (copy_at out 0 h) (\<lambda>out.
             rbind (copy_at out RECORD_HEADER_LEN (r_body r)) (\<lambda>out. Ok (out, need)))))"

definition record_decode :: "bytes \<Rightarrow> (catp_record \<times> nat, error) result" where
  "record_decode buf =
     (if length buf < RECORD_HEADER_LEN then Err (Framing ''record header truncated'')
      else rbind (idx buf 0) (\<lambda>b0. rbind (idx buf 1) (\<lambda>b1. rbind (idx buf 2) (\<lambda>b2.
        let w = push_bit 16 (ucast b0) OR push_bit 8 (ucast b1) OR ucast b2 :: u32;
            fmt = ucast (drop_bit 20 w AND 0x0F) :: u8;
            schema_version = ucast (drop_bit 12 w AND 0xFF) :: u8;
            sz = unat (w AND 0xFFF)
        in if fmt = 0 then Err (Framing ''format 0x00 is invalid'')
           else if schema_version = 0 then Err (Framing ''schema_version 0x00 is invalid'')
           else if sz = 0 then Err (Framing ''size 0 is invalid'')
           else let end = RECORD_HEADER_LEN + sz in
             if length buf < end then Err (Framing ''record body overruns payload'')
             else rbind (subslice buf RECORD_HEADER_LEN end) (\<lambda>body.
               Ok (\<lparr>r_format = fmt, r_schema_version = schema_version, r_body = body\<rparr>, end))))))"

lemma record_decode_used:
  "record_decode buf = Ok (r, n) \<Longrightarrow> n = wire_len r \<and> 3 < n \<and> n \<le> length buf"
  by (auto simp: record_decode_def wire_len_def Let_def split: if_splits)

text \<open>\<open>while pos < payload.len()\<close>, with the records read so far.\<close>

function decode_records :: "bytes \<Rightarrow> nat \<Rightarrow> catp_record list \<Rightarrow> (catp_record list, error) result"
where
  "decode_records payload pos recs =
     (if pos < length payload then
        (case subslice payload pos (length payload) of
           Ok rest \<Rightarrow>
             (case record_decode rest of
                Ok (r, used) \<Rightarrow> decode_records payload (pos + used) (recs @ [r])
              | Err e \<Rightarrow> Err e
              | Panic \<Rightarrow> Panic)
         | Err e \<Rightarrow> Err e
         | Panic \<Rightarrow> Panic)
      else if pos \<noteq> length payload then Err (Framing ''trailing bytes after final record'')
      else Ok recs)"
  by pat_completeness auto
termination
  by (relation "measure (\<lambda>(payload, pos, recs). length payload - pos)")
    (auto dest!: record_decode_used)

declare decode_records.simps [simp del]

section \<open>Encoding and decoding one record\<close>

text \<open>What the writer puts on the wire, and the records that survive the trip.\<close>

definition record_bytes :: "catp_record \<Rightarrow> bytes" where
  "record_bytes r = be_bytes 3 (header_word r) @ r_body r"

definition body_ok :: "catp_record \<Rightarrow> bool" where
  "body_ok r \<longleftrightarrow> r_body r \<noteq> [] \<and> length (r_body r) \<le> MAX_BODY"

definition record_ok :: "catp_record \<Rightarrow> bool" where
  "record_ok r \<longleftrightarrow>
     body_ok r \<and> r_schema_version r \<noteq> 0 \<and> r_format r \<noteq> 0 \<and> r_format r AND 0x0F = r_format r"

lemma length_record_bytes [simp]: "length (record_bytes r) = wire_len r"
  by (simp add: record_bytes_def wire_len_def)

lemma record_bytes_nonempty [simp]: "record_bytes r \<noteq> []"
  by (simp add: record_bytes_def)

lemma write_into_ok:
  assumes "body_ok r" and "wire_len r \<le> length out"
  shows "write_into r out = Ok (record_bytes r @ drop (wire_len r) out, wire_len r)"
proof -
  have "take 3 (drop 1 (be_bytes 4 (header_word r))) = be_bytes 3 (header_word r)"
    by (simp add: numeral_eq_Suc)
  with assms show ?thesis
    by (simp add: write_into_def body_ok_def wire_len_def record_bytes_def Let_def not_less add.commute)
qed

lemma write_into_err:
  "\<not> body_ok r \<Longrightarrow> write_into r out = Err (BodyTooLarge (length (r_body r)))"
  "body_ok r \<Longrightarrow> length out < wire_len r \<Longrightarrow>
   write_into r out = Err (BufferTooSmall (length out) (wire_len r))"
  by (auto simp: write_into_def body_ok_def Let_def)

text \<open>The three header fields are recovered from the packed word, and pack back to it.\<close>

definition header3 :: "u8 \<Rightarrow> u8 \<Rightarrow> u8 \<Rightarrow> u32" where
  "header3 b0 b1 b2 = push_bit 16 (ucast b0) OR push_bit 8 (ucast b1) OR ucast b2"

lemma header3_be_bytes:
  "be_bytes 3 (w :: u32) = [b0, b1, b2] \<Longrightarrow> header3 b0 b1 b2 = take_bit 24 w"
proof -
  assume a: "be_bytes 3 w = [b0, b1, b2]"
  have "(from_be [b0, b1, b2] :: u32) = header3 b0 b1 b2"
    by (simp add: from_be_def header3_def) (simp add: ac_simps)
  with a show ?thesis using from_be_be_bytes [of 3 w] by simp
qed

lemma be_bytes_header3: "be_bytes 3 (header3 b0 b1 b2) = [b0, b1, b2]"
proof -
  have "(from_be [b0, b1, b2] :: u32) = header3 b0 b1 b2"
    by (simp add: from_be_def header3_def) (simp add: ac_simps)
  moreover have "length [b0, b1, b2] = 3" by simp
  ultimately show ?thesis
    using be_bytes_from_be [of "[b0, b1, b2]", where 'a = 32] by (simp only:) simp
qed

lemma header_word_fields:
  "ucast (drop_bit 20 (header_word r) AND 0x0F) = r_format r AND 0x0F"
  "ucast (drop_bit 12 (header_word r) AND 0xFF) = r_schema_version r"
  "header_word r AND 0xFFF = take_bit 12 (of_nat (length (r_body r)))"
  unfolding header_word_def mask_simps
  by (auto intro!: bit_word_eqI simp: bit_simps simp del: of_nat_take_bit)

lemma take_bit_header_word: "take_bit 24 (header_word r) = header_word r"
  unfolding header_word_def mask_simps
  by (auto intro!: bit_word_eqI simp: bit_simps)

lemma header_word_repack:
  fixes w :: u32
  assumes "take_bit 24 w = w" and "length body = unat (w AND 0xFFF)"
  shows "header_word \<lparr>r_format = ucast (drop_bit 20 w AND 0x0F),
      r_schema_version = ucast (drop_bit 12 w AND 0xFF), r_body = body\<rparr> = w"
proof -
  have "of_nat (length body) = w AND 0xFFF" by (simp add: assms(2))
  moreover have "push_bit 20 (take_bit 4 (ucast (ucast (take_bit 4 (drop_bit 20 w)) :: u8)))
      OR push_bit 12 (take_bit 8 (ucast (ucast (take_bit 8 (drop_bit 12 w)) :: u8)))
      OR take_bit 12 (take_bit 12 w) = take_bit 24 w"
    by (rule bit_word_eqI) (auto simp: bit_simps)
  ultimately show ?thesis
    using assms(1) by (simp add: header_word_def mask_simps)
qed

lemma record_decode_eq:
  "record_decode (b0 # b1 # b2 # rest) =
     (let w = header3 b0 b1 b2;
          fmt = ucast (drop_bit 20 w AND 0x0F) :: u8;
          schema_version = ucast (drop_bit 12 w AND 0xFF) :: u8;
          sz = unat (w AND 0xFFF)
      in if fmt = 0 then Err (Framing ''format 0x00 is invalid'')
         else if schema_version = 0 then Err (Framing ''schema_version 0x00 is invalid'')
         else if sz = 0 then Err (Framing ''size 0 is invalid'')
         else if length rest < sz then Err (Framing ''record body overruns payload'')
         else Ok (\<lparr>r_format = fmt, r_schema_version = schema_version, r_body = take sz rest\<rparr>,
                  3 + sz))"
  by (simp add: record_decode_def header3_def Let_def)

lemma record_decode_encode:
  assumes "record_ok r"
  shows "record_decode (record_bytes r @ ys) = Ok (r, wire_len r)"
proof -
  have len: "length (be_bytes 3 (header_word r)) = 3" by simp
  then obtain b0 b1 b2 where b: "be_bytes 3 (header_word r) = [b0, b1, b2]"
    by (auto simp: numeral_eq_Suc length_Suc_conv simp del: length_be_bytes)
  have w: "header3 b0 b1 b2 = header_word r"
    by (simp add: header3_be_bytes [OF b] take_bit_header_word)
  have body: "r_body r \<noteq> []" "length (r_body r) \<le> 4095"
    using assms by (auto simp: record_ok_def body_ok_def)
  have sz: "unat (header_word r AND 0xFFF) = length (r_body r)"
    using body by (simp only: header_word_fields(3) unat_take_bit_mod unat_of_nat) simp
  show ?thesis
    using assms body
    by (simp add: record_bytes_def b record_decode_eq Let_def w header_word_fields(1,2) sz
        record_ok_def wire_len_def)
qed

lemma record_decode_inv:
  assumes "record_decode bs = Ok (r, n)"
  shows "record_ok r \<and> n = wire_len r \<and> take n bs = record_bytes r"
proof -
  have "3 \<le> length bs" using record_decode_used [OF assms] by simp
  then obtain b0 b1 b2 rest where bs: "bs = b0 # b1 # b2 # rest"
    by (auto simp: numeral_eq_Suc Suc_le_length_iff)
  let ?w = "header3 b0 b1 b2"
  let ?sz = "unat (?w AND 0xFFF)"
  from assms have r: "r = \<lparr>r_format = ucast (drop_bit 20 ?w AND 0x0F),
      r_schema_version = ucast (drop_bit 12 ?w AND 0xFF), r_body = take ?sz rest\<rparr>"
    and n: "n = 3 + ?sz" "?sz \<le> length rest" "?sz \<noteq> 0"
    and nz: "r_format r \<noteq> 0" "r_schema_version r \<noteq> 0"
    by (auto simp: bs record_decode_eq Let_def split: if_splits)
  have w24: "take_bit 24 ?w = ?w"
    by (metis be_bytes_header3 header3_be_bytes)
  have hw: "header_word r = ?w"
    unfolding r by (rule header_word_repack) (use w24 n in simp_all)
  have len: "length (r_body r) = ?sz" using n by (simp add: r)
  have "?sz < 4096"
    by (simp only: mask_simps unat_take_bit_mod) simp
  moreover have "r_format r AND 0x0F = r_format r"
    unfolding r mask_simps by (auto intro!: bit_word_eqI simp: bit_simps)
  ultimately have "record_ok r"
    using nz n(3) len by (auto simp: record_ok_def body_ok_def)
  moreover have "n = wire_len r" using n len by (simp add: wire_len_def)
  moreover have "take n bs = record_bytes r"
  proof -
    have "record_bytes r = [b0, b1, b2] @ take ?sz rest"
      unfolding record_bytes_def hw be_bytes_header3 by (simp add: r)
    then show ?thesis using n(1) by (simp add: bs take_Cons')
  qed
  ultimately show ?thesis by blast
qed

lemma record_decode_not_Panic [simp, panic_free]: "record_decode bs \<noteq> Panic"
proof (cases "length bs < 3")
  case False
  then obtain b0 b1 b2 rest where "bs = b0 # b1 # b2 # rest"
    by (auto simp: not_less numeral_eq_Suc Suc_le_length_iff)
  then show ?thesis by (simp add: record_decode_eq Let_def)
qed (simp add: record_decode_def)

section \<open>The record loop\<close>

text \<open>The loop with an accumulator and a cursor is the loop on the rest of the payload.\<close>

definition records_of :: "bytes \<Rightarrow> (catp_record list, error) result" where
  "records_of payload = decode_records payload 0 []"

lemma decode_records_shift:
  "pos \<le> length payload \<Longrightarrow>
   decode_records payload pos recs = rmap (\<lambda>rs. recs @ rs) (records_of (drop pos payload))"
proof -
  have "pos + p \<le> length payload \<Longrightarrow>
      decode_records payload (pos + p) (recs @ rs)
      = rmap (\<lambda>rs. recs @ rs) (decode_records (drop pos payload) p rs)" for p rs
  proof (induction "drop pos payload" p rs rule: decode_records.induct)
    case (1 p rs)
    show ?case
    proof (cases "pos + p < length payload")
      case False
      with 1 show ?thesis by (simp add: decode_records.simps)
    next
      case True
      then have lt: "p < length (drop pos payload)" by simp
      have sub: "subslice (drop pos payload) p (length (drop pos payload))
          = (Ok (drop (pos + p) payload) :: (bytes, error) result)"
        "subslice payload (pos + p) (length payload)
          = (Ok (drop (pos + p) payload) :: (bytes, error) result)"
        using True by (simp_all add: add.commute)
      show ?thesis
      proof (cases "record_decode (drop (pos + p) payload)")
        case (Ok x)
        obtain r used where x: "x = (r, used)" by (cases x)
        have "pos + (p + used) \<le> length payload"
          using record_decode_used [of "drop (pos + p) payload" r used] Ok x True by auto
        with 1(1) [OF lt sub(1)] Ok x sub show ?thesis using True lt
          by (subst (1 2) decode_records.simps) (simp add: add.assoc)
      qed (use True lt sub in \<open>subst (1 2) decode_records.simps; simp\<close>)+
    qed
  qed
  from this [of 0 "[]"] show "pos \<le> length payload \<Longrightarrow>
      decode_records payload pos recs = rmap (\<lambda>rs. recs @ rs) (records_of (drop pos payload))"
    by (simp add: records_of_def)
qed

lemma records_of_Nil [simp]: "records_of [] = Ok []"
  by (simp add: records_of_def decode_records.simps)

lemma records_of_step:
  assumes "bs \<noteq> []"
  shows "records_of bs =
     (case record_decode bs of
        Ok (r, n) \<Rightarrow> rmap (\<lambda>rs. r # rs) (records_of (drop n bs))
      | Err e \<Rightarrow> Err e | Panic \<Rightarrow> Panic)"
  using assms
  by (subst records_of_def, subst decode_records.simps)
    (auto simp: decode_records_shift dest!: record_decode_used split: result.splits)

interpretation records: stream_codec record_ok record_bytes record_decode records_of
proof
  fix r ys assume "record_ok r"
  then show "record_decode (record_bytes r @ ys) = Ok (r, length (record_bytes r))"
    by (simp add: record_decode_encode)
next
  fix bs :: bytes and r n
  assume "bs \<noteq> []" "record_decode bs = Ok (r, n)"
  then show "records_of bs = rmap (\<lambda>rs. r # rs) (records_of (drop n bs))"
    by (simp add: records_of_step)
next
  fix bs r n assume "record_decode bs = Ok (r, n)"
  then show "record_ok r \<and> n = length (record_bytes r) \<and> take n bs = record_bytes r"
    using record_decode_inv by simp
next
  fix bs assume "bs \<noteq> []" "\<not> is_ok (record_decode bs)"
  then show "\<not> is_ok (records_of bs)"
    by (cases "record_decode bs") (simp_all add: records_of_step)
qed simp_all

lemma decode_records_not_Panic [simp, panic_free]:
  "pos \<le> length payload \<Longrightarrow> decode_records payload pos recs \<noteq> Panic"
proof -
  have "records_of bs \<noteq> Panic" for bs
  proof (induction "length bs" arbitrary: bs rule: less_induct)
    case less
    show ?case
    proof (cases "bs = []")
      case False
      then show ?thesis
        using less record_decode_used
        by (fastforce simp: records_of_step split: result.splits)
    qed simp
  qed
  then show "pos \<le> length payload \<Longrightarrow> decode_records payload pos recs \<noteq> Panic"
    by (simp add: decode_records_shift)
qed

text \<open>A record of schema version 0, which \<open>Record::new\<close> and the writer let pass, is refused wherever it
  stands.\<close>

definition writable :: "catp_record \<Rightarrow> bool" where
  "writable r \<longleftrightarrow> body_ok r \<and> r_format r \<noteq> 0 \<and> r_format r AND 0x0F = r_format r"

lemma record_ok_writable: "record_ok r \<longleftrightarrow> writable r \<and> r_schema_version r \<noteq> 0"
  by (auto simp: record_ok_def writable_def)

lemma record_decode_schema_0:
  assumes "writable r" and "r_schema_version r = 0"
  shows "record_decode (record_bytes r @ ys) = Err (Framing ''schema_version 0x00 is invalid'')"
proof -
  have len: "length (be_bytes 3 (header_word r)) = 3" by simp
  then obtain b0 b1 b2 where b: "be_bytes 3 (header_word r) = [b0, b1, b2]"
    by (auto simp: numeral_eq_Suc length_Suc_conv simp del: length_be_bytes)
  have "header3 b0 b1 b2 = header_word r"
    by (simp add: header3_be_bytes [OF b] take_bit_header_word)
  with assms show ?thesis
    by (simp add: record_bytes_def b record_decode_eq Let_def header_word_fields(1,2) writable_def)
qed

lemma records_of_schema_0:
  "\<forall>r \<in> set rs. writable r \<Longrightarrow> \<exists>r \<in> set rs. r_schema_version r = 0 \<Longrightarrow>
   records_of (concat (map record_bytes rs)) = Err (Framing ''schema_version 0x00 is invalid'')"
proof (induction rs)
  case (Cons r rs)
  show ?case
  proof (cases "r_schema_version r = 0")
    case True
    with Cons.prems(1) show ?thesis
      by (simp add: records_of_step record_decode_schema_0)
  next
    case False
    with Cons.prems have "record_decode (record_bytes r @ concat (map record_bytes rs)) = Ok (r, wire_len r)"
      by (intro record_decode_encode) (simp add: record_ok_writable)
    with Cons False show ?thesis by (simp add: records_of_step)
  qed
qed simp

section \<open>Properties\<close>

text \<open>C26: The record loop accepts a payload exactly when it is the concatenation of encoded legal records
  (a body of 1 to 4095 bytes, a nonzero format of four bits, a nonzero schema version), and returns
  those records: no bytes are skipped, none are left over, and the split is unique.\<close>

theorem record_payload_exact:
  "decode_records payload 0 [] = Ok recs
   \<longleftrightarrow> list_all record_ok recs \<and> payload = concat (map record_bytes recs)"
  using records.dec_all_iff [of payload recs] by (simp add: records_of_def list_all_iff)

text \<open>\<open>Record::write_into\<close> refuses an empty body or one above 4095 bytes, then a short buffer with both
  counts, and otherwise writes the three-byte header and the body at the front of the buffer and
  touches nothing after them.\<close>

lemma record_write_outcome:
  "write_into r out =
     (if r_body r = [] \<or> 4095 < length (r_body r) then Err (BodyTooLarge (length (r_body r)))
      else if length out < 3 + length (r_body r)
      then Err (BufferTooSmall (length out) (3 + length (r_body r)))
      else Ok (be_bytes 3 (header_word r) @ r_body r @ drop (3 + length (r_body r)) out,
               3 + length (r_body r)))"
proof (cases "body_ok r")
  case True
  then have "r_body r \<noteq> []" "\<not> 4095 < length (r_body r)" by (simp_all add: body_ok_def)
  then show ?thesis
    using write_into_ok [OF True, of out] write_into_err(2) [OF True, of out]
    by (simp add: wire_len_def record_bytes_def not_less)
qed (auto simp: write_into_err body_ok_def)

end
