(* ===== verification/Catp_Reading.thy ===== *)
theory Catp_Reading
  imports Catp_Types
begin

text \<open>
  The fixed-layout payloads of \<open>src/lib.rs\<close>: \<open>validate_number\<close> and \<open>validate_series\<close>. A mantissa is
  the 16-bit word the code reads with \<open>i16::from_be_bytes\<close>; its signed value is \<open>sint\<close>.
\<close>

section \<open>Validation\<close>

definition validate_number :: "bytes \<Rightarrow> (u8 \<times> i16, error) result" where
  "validate_number p =
     (if length p \<noteq> NUMBER_PAYLOAD_LEN then Err (BadNumber ''payload must be exactly 3 bytes'')
      else rbind (idx p 0) (\<lambda>scale.
        if \<not> scale_is_valid scale then Err (BadNumber ''scale must be 0x01..=0x07'')
        else rbind (idx p 1) (\<lambda>p1. rbind (idx p 2) (\<lambda>p2. Ok (scale, from_be [p1, p2])))))"

text \<open>The loop over the 4-byte entries, with the running instant \<open>cum\<close>.\<close>

fun series_entries ::
  "bytes list \<Rightarrow> u32 \<Rightarrow> (u32 \<times> i16) list \<Rightarrow> ((u32 \<times> i16) list, error) result" where
  "series_entries [] cum readings = Ok readings"
| "series_entries (entry # entries) cum readings =
     rbind (idx entry 0) (\<lambda>e0. rbind (idx entry 1) (\<lambda>e1.
       let delta = from_be [e0, e1] :: u16 in
       if delta = 0 then Err (BadSeries ''delta must be at least 1 tick'')
       else case Option.bind (checked_add_u32 cum (ucast delta))
                  (\<lambda>c. if c < TICKS_PER_EPOCH then Some c else None) of
         None \<Rightarrow> Err (BadSeries ''reading's instant crosses the epoch boundary'')
       | Some cum \<Rightarrow>
           rbind (idx entry 2) (\<lambda>e2. rbind (idx entry 3) (\<lambda>e3.
             series_entries entries cum (readings @ [(cum, from_be [e2, e3])])))))"

definition validate_series :: "bytes \<Rightarrow> u32 \<Rightarrow> (u8 \<times> (u32 \<times> i16) list, error) result" where
  "validate_series p anchor_offset =
     (if length p < NUMBER_PAYLOAD_LEN
      then Err (BadSeries ''shorter than scale + first reading'')
      else rbind (idx p 0) (\<lambda>scale.
        if \<not> scale_is_valid scale then Err (BadSeries ''scale must be 0x01..=0x07'')
        else rbind (subslice p NUMBER_PAYLOAD_LEN (length p)) (\<lambda>rest.
          if rest = [] then Err (BadSeries ''SERIES must carry at least two readings'')
          else
            let entries = chunks SERIES_ENTRY_LEN rest;
                remainder = chunk_rest SERIES_ENTRY_LEN rest in
            if remainder \<noteq> [] then Err (BadSeries ''trailing entries must be 4 bytes each'')
            else if TICKS_PER_EPOCH \<le> anchor_offset
            then Err (BadSeries ''datagram_offset exceeds 19 bits'')
            else rbind (idx p 1) (\<lambda>p1. rbind (idx p 2) (\<lambda>p2.
              rmap (\<lambda>readings. (scale, readings))
                (series_entries entries anchor_offset [(anchor_offset, from_be [p1, p2])]))))))"

section \<open>What a legal batch of readings is\<close>

text \<open>
  Instants strictly increase, consecutive instants are at most 65535 ticks apart, and all of them
  lie inside one epoch. The payload of a batch is its scale, the first mantissa and one
  \<open>(delta, mantissa)\<close> entry per later reading.
\<close>

fun gaps_ok :: "u32 \<Rightarrow> (u32 \<times> i16) list \<Rightarrow> bool" where
  "gaps_ok prev [] = True"
| "gaps_ok prev ((t, m) # rs) =
     (prev < t \<and> unat t - unat prev \<le> 65535 \<and> t < TICKS_PER_EPOCH \<and> gaps_ok t rs)"

fun entry_bytes :: "u32 \<Rightarrow> (u32 \<times> i16) list \<Rightarrow> bytes list" where
  "entry_bytes prev [] = []"
| "entry_bytes prev ((t, m) # rs) =
     (be_bytes 2 (ucast (t - prev) :: u16) @ be_bytes 2 m) # entry_bytes t rs"

fun batch_ok :: "(u32 \<times> i16) list \<Rightarrow> bool" where
  "batch_ok ((t, m) # r # rs) = (t < TICKS_PER_EPOCH \<and> gaps_ok t (r # rs))"
| "batch_ok _ = False"

fun batch_bytes :: "u8 \<Rightarrow> (u32 \<times> i16) list \<Rightarrow> bytes" where
  "batch_bytes scale ((t, m) # rs) = scale # be_bytes 2 m @ concat (entry_bytes t rs)"
| "batch_bytes scale [] = []"

section \<open>Correctness\<close>

lemma from_be_2 [simp]: "from_be (be_bytes 2 (w :: 16 word)) = w"
  by (rule from_be_be_bytes_full) simp

lemma be_bytes_2_from_be: "be_bytes 2 (from_be [a, b] :: 16 word) = [a, b]"
proof -
  have "be_bytes (length [a, b]) (from_be [a, b] :: 16 word) = [a, b]"
    by (rule be_bytes_from_be) simp
  moreover have "length [a, b] = 2" by simp
  ultimately show ?thesis by (simp only:)
qed

lemma be_bytes_2_conv: "be_bytes 2 (w :: 16 word) = [be_bytes 2 w ! 0, be_bytes 2 w ! 1]"
  by (simp add: numeral_2_eq_2)

lemma from_be_nth_2 [simp]: "from_be [be_bytes 2 w ! 0, be_bytes 2 w ! Suc 0] = (w :: 16 word)"
  by (metis One_nat_def be_bytes_2_conv from_be_2)

lemma entry_bytes_length: "e \<in> set (entry_bytes t rs) \<Longrightarrow> length e = 4"
  by (induction t rs rule: entry_bytes.induct) auto

lemma validate_number_Ok:
  "validate_number p = Ok (scale, m) \<longleftrightarrow> scale_is_valid scale \<and> p = scale # be_bytes 2 m"
proof (cases "length p = 3")
  case True
  then obtain a b c where p: "p = [a, b, c]"
    by (auto simp: numeral_eq_Suc length_Suc_conv)
  show ?thesis
    using be_bytes_2_from_be [of b c] by (auto simp: p validate_number_def)
qed (auto simp: validate_number_def)

lemma validate_number_not_Panic [simp, panic_free]: "validate_number p \<noteq> Panic"
  by (auto simp: validate_number_def)

lemma unat_u16_to_u32: "unat (ucast (d :: u16) :: u32) = unat d"
  using unat_u16_less [of d] by (simp add: unat_ucast_mod)

lemma unat_delta:
  "prev < t \<Longrightarrow> unat t - unat prev \<le> 65535 \<Longrightarrow>
   unat (ucast (t - prev) :: u16) = unat t - unat (prev :: u32)"
  by (simp add: unat_ucast_mod unat_sub less_imp_le)

text \<open>Parsing the entries of a legal batch gives back the batch.\<close>

lemma series_entries_encode:
  "gaps_ok cum rs \<Longrightarrow> series_entries (entry_bytes cum rs) cum acc = Ok (acc @ rs)"
proof (induction cum rs arbitrary: acc rule: gaps_ok.induct)
  case (2 prev t m rs)
  let ?d = "ucast (t - prev) :: u16"
  have g: "prev < t" "unat t - unat prev \<le> 65535" "t < TICKS_PER_EPOCH" "gaps_ok t rs"
    using "2.prems" by auto
  have d: "unat ?d = unat t - unat prev" using g by (intro unat_delta)
  have "unat prev < unat t" using g(1) by (simp add: word_less_nat_alt)
  with d have pos: "?d \<noteq> 0" by (metis unat_0 zero_less_diff not_less_zero)
  have "unat (ucast ?d :: u32) = unat t - unat prev"
    using d by (simp add: unat_u16_to_u32)
  then have add: "checked_add_u32 prev (ucast ?d) = Some t"
    using \<open>unat prev < unat t\<close> by (simp add: checked_add_u32_Some)
  show ?case
    using "2.IH" [OF g(4), of "acc @ [(t, m)]"] g(3) pos add
    by (simp add: nth_append Let_def)
qed simp

text \<open>Whatever the loop accepts is a legal batch, and the entries are its encoding.\<close>

lemma series_entries_Ok:
  assumes "series_entries es cum acc = Ok out" and "\<forall>e \<in> set es. length e = 4"
  shows "\<exists>rs. out = acc @ rs \<and> gaps_ok cum rs \<and> entry_bytes cum rs = es \<and> length rs = length es"
  using assms
proof (induction es arbitrary: cum acc)
  case (Cons e es)
  obtain a b c d where e: "e = [a, b, c, d]"
    using Cons.prems(2) by (auto simp: numeral_eq_Suc length_Suc_conv)
  let ?d = "from_be [a, b] :: u16"
  from Cons.prems(1) obtain t where pos: "?d \<noteq> 0"
    and add: "checked_add_u32 cum (ucast ?d) = Some t" and t: "t < TICKS_PER_EPOCH"
    and rec: "series_entries es t (acc @ [(t, from_be [c, d])]) = Ok out"
    by (auto simp: e Let_def split: if_splits option.splits Option.bind_splits)
  obtain rs where rs: "out = (acc @ [(t, from_be [c, d])]) @ rs" "gaps_ok t rs"
    "entry_bytes t rs = es" "length rs = length es"
    using Cons.IH [OF rec] Cons.prems(2) by auto
  have ut: "unat t = unat cum + unat ?d"
    using add by (simp add: checked_add_u32_Some unat_u16_to_u32)
  have "unat ?d \<noteq> 0" using pos by (simp add: unat_eq_0)
  then have lt: "cum < t" using ut by (simp add: word_less_nat_alt)
  have gap: "unat t - unat cum \<le> 65535"
    using ut unat_u16_less [of ?d] by simp
  have "ucast (t - cum) = ?d"
    using unat_delta [OF lt gap] ut by (simp add: word_unat_eq_iff)
  then have "entry_bytes cum ((t, from_be [c, d]) # rs) = e # es"
    using rs(3) by (simp add: e be_bytes_2_from_be)
  with lt gap t rs show ?case
    by (intro exI [of _ "(t, from_be [c, d]) # rs"]) simp
qed simp

lemma validate_series_encode:
  assumes "scale_is_valid scale" and "batch_ok rs"
  shows "validate_series (batch_bytes scale rs) (fst (hd rs)) = Ok (scale, rs)"
proof -
  from assms(2) obtain t m r rs' where rs: "rs = (t, m) # r # rs'"
    and t: "t < TICKS_PER_EPOCH" and gaps: "gaps_ok t (r # rs')"
    by (cases rs rule: batch_ok.cases) auto
  let ?es = "entry_bytes t (r # rs')"
  have chunk: "chunks 4 (concat ?es) = ?es" "chunk_rest 4 (concat ?es) = []"
    by (auto intro!: chunks_concat chunk_rest_concat dest: entry_bytes_length simp del: entry_bytes.simps)
  have ne: "concat ?es \<noteq> []" by (cases r) simp
  have m: "be_bytes 2 m = [be_bytes 2 m ! 0, be_bytes 2 m ! 1]" by (rule be_bytes_2_conv)
  then obtain m0 m1 where m01: "be_bytes 2 m = [m0, m1]" by blast
  then have "from_be [m0, m1] = m" by (metis from_be_2)
  with assms(1) t gaps chunk ne series_entries_encode [OF gaps, of "[(t, m)]"] show ?thesis
    by (simp add: rs validate_series_def m01 Let_def del: entry_bytes.simps series_entries.simps)
qed

lemma validate_series_Ok:
  assumes "validate_series p anchor = Ok (scale, rs)"
  shows "scale_is_valid scale \<and> batch_ok rs \<and> fst (hd rs) = anchor \<and> p = batch_bytes scale rs"
proof -
  from assms have "3 \<le> length p" by (auto simp: validate_series_def split: if_splits)
  then obtain s a b rest where p: "p = s # a # b # rest"
    by (auto simp: numeral_eq_Suc Suc_le_length_iff)
  let ?first = "(anchor, from_be [a, b])"
  from assms have ok: "scale_is_valid s" "scale = s" "rest \<noteq> []" "chunk_rest 4 rest = []"
    "\<not> TICKS_PER_EPOCH \<le> anchor"
    "series_entries (chunks 4 rest) anchor [?first] = Ok rs"
    by (auto simp: p validate_series_def Let_def split: if_splits)
  have dvd: "4 dvd length rest" using ok(4) by (simp add: chunk_rest_empty)
  then have cc: "concat (chunks 4 rest) = rest" by (simp add: concat_chunks)
  obtain rs' where rs': "rs = [?first] @ rs'" "gaps_ok anchor rs'"
    "entry_bytes anchor rs' = chunks 4 rest" "length rs' = length (chunks 4 rest)"
    using series_entries_Ok [OF ok(6)] by (auto dest: chunks_length)
  have "rs' \<noteq> []" using rs'(3) cc ok(3) by (cases rs') auto
  then obtain r rs'' where "rs' = r # rs''" by (cases rs') auto
  with ok rs' cc show ?thesis
    by (simp add: p be_bytes_2_from_be not_le)
qed

text \<open>Together: the parser accepts exactly the encodings of legal batches.\<close>

lemma validate_series_iff:
  "validate_series p anchor = Ok (scale, rs)
   \<longleftrightarrow> scale_is_valid scale \<and> batch_ok rs \<and> fst (hd rs) = anchor \<and> p = batch_bytes scale rs"
  using validate_series_Ok validate_series_encode by blast

lemma series_entries_not_Panic:
  "\<forall>e \<in> set es. length e = 4 \<Longrightarrow> series_entries es cum acc \<noteq> Panic"
  by (induction es arbitrary: cum acc) (auto simp: Let_def split: option.splits)

lemma validate_series_not_Panic [simp, panic_free]: "validate_series p anchor \<noteq> Panic"
proof -
  have "series_entries (chunks 4 xs) a acc \<noteq> Panic" for xs a acc
    by (intro series_entries_not_Panic) (auto dest: chunks_length)
  then show ?thesis
    by (auto simp: validate_series_def Let_def rbind_eq_Panic idx_def subslice_def split: if_splits)
qed

lemma gaps_ok_sorted:
  "gaps_ok prev rs \<Longrightarrow> sorted_wrt (<) (map fst rs)
     \<and> (\<forall>r \<in> set rs. prev < fst r \<and> fst r < TICKS_PER_EPOCH)"
  by (induction prev rs rule: gaps_ok.induct) (auto intro: less_trans)

lemma batch_ok_sorted:
  "batch_ok rs \<Longrightarrow> 2 \<le> length rs \<and> sorted_wrt (<) (map fst rs)
     \<and> (\<forall>r \<in> set rs. fst r < TICKS_PER_EPOCH)"
proof (cases rs rule: batch_ok.cases)
  case (1 t m r rs')
  assume "batch_ok rs"
  with 1 have t: "t < TICKS_PER_EPOCH" and g: "gaps_ok t (r # rs')" by auto
  from gaps_ok_sorted [OF g] t show ?thesis by (simp add: 1)
qed auto

section \<open>Properties\<close>

text \<open>\<open>validate_number\<close> accepts exactly the 3-byte encodings of a legal scale and a mantissa, and
  reads back that scale and mantissa; every one of the 65536 mantissas is legal.\<close>

lemma number_payload_exact:
  "validate_number p = Ok (scale, m) \<longleftrightarrow> scale_is_valid scale \<and> p = scale # be_bytes 2 m"
  by (rule validate_number_Ok)

text \<open>C27: \<open>validate_series\<close> accepts exactly the encodings of legal batches: a legal scale and at least two
  readings whose instants start at the anchor, strictly increase by at most 65535 ticks a step and
  stay inside the epoch; it returns those readings. The encoding of a batch is unique.\<close>

theorem series_payload_exact:
  "validate_series p anchor = Ok (scale, rs)
   \<longleftrightarrow> scale_is_valid scale \<and> batch_ok rs \<and> fst (hd rs) = anchor \<and> p = batch_bytes scale rs"
  by (rule validate_series_iff)

text \<open>The readings \<open>validate_series\<close> returns are in strictly increasing order of instant, two or more,
  all of them within one epoch of \<open>2 ^ 19\<close> ticks.\<close>

lemma series_readings_ordered:
  assumes "validate_series p anchor = Ok (scale, rs)"
  shows "2 \<le> length rs \<and> sorted_wrt (<) (map fst rs) \<and> list_all (\<lambda>r. fst r < 524288) rs"
  using assms batch_ok_sorted [of rs] by (simp add: validate_series_iff list_all_iff)

end
