(* ===== verification/Catp_Keys.thy ===== *)
theory Catp_Keys
  imports Catp_Types
begin

text \<open>
  The key schedule and the MAC of \<open>src/lib.rs\<close>: \<open>DeviceSecret\<close>, \<open>mac_parts\<close>, \<open>mac\<close>,
  \<open>mac_into\<close> and \<open>ct_eq\<close>. The primitives come from third-party crates (hkdf, hmac, sha2,
  siphasher, chacha20poly1305, subtle); they are the fields of the record \<open>crypto\<close>, an argument
  of every definition that uses one. An output array of \<open>N\<close> bytes is an \<open>8 * N\<close>-bit word, so its
  length is part of its type as in Rust. Zeroization has no effect on values and is not modelled.
\<close>

section \<open>The primitives\<close>

record crypto =
  hkdf_sha256 :: "bytes \<Rightarrow> bytes \<Rightarrow> 256 word"
    \<comment> \<open>\<open>Hkdf::<Sha256>::new(None, ikm)\<close> expanded with \<open>info\<close> to 32 bytes\<close>
  hmac_sha256 :: "bytes \<Rightarrow> bytes \<Rightarrow> 256 word" \<comment> \<open>key, message\<close>
  siphash_2_4 :: "bytes \<Rightarrow> bytes \<Rightarrow> 64 word" \<comment> \<open>16-byte key, message\<close>
  chacha20poly1305_tag :: "bytes \<Rightarrow> bytes \<Rightarrow> bytes \<Rightarrow> 128 word"
    \<comment> \<open>key, nonce, associated data; the plaintext is empty\<close>
  subtle_ct_eq :: "bytes \<Rightarrow> bytes \<Rightarrow> bool" \<comment> \<open>on slices of one length\<close>

text \<open>What the code relies on: \<open>subtle\<close>'s comparison decides equality of equally long slices.\<close>

definition ct_eq_decides :: "crypto \<Rightarrow> bool" where
  "ct_eq_decides C \<longleftrightarrow> (\<forall>a b. length a = length b \<longrightarrow> (subtle_ct_eq C a b \<longleftrightarrow> a = b))"

section \<open>Key derivation\<close>

type_synonym device_secret = bytes \<comment> \<open>32 bytes, private to \<open>DeviceSecret\<close>\<close>

text \<open>The label bytes \<open>b"CATP1"\<close> and \<open>b"CATP1-time"\<close>.\<close>

definition label_epoch :: bytes where
  "label_epoch = [0x43, 0x41, 0x54, 0x50, 0x31]"

definition label_time :: bytes where
  "label_time = label_epoch @ [0x2D, 0x74, 0x69, 0x6D, 0x65]"

definition epoch_info :: "u32 \<Rightarrow> u32 \<Rightarrow> direction \<Rightarrow> bytes" where
  "epoch_info sender_id epoch_id dir =
     label_epoch @ be_bytes 4 sender_id @ be_bytes 4 epoch_id @ [direction_u8 dir]"

definition epoch_key :: "crypto \<Rightarrow> device_secret \<Rightarrow> u32 \<Rightarrow> u32 \<Rightarrow> direction \<Rightarrow> bytes" where
  "epoch_key C secret sender_id epoch_id dir =
     be_bytes 32 (hkdf_sha256 C secret (epoch_info sender_id epoch_id dir))"

definition time_info :: "u32 \<Rightarrow> direction \<Rightarrow> bytes" where
  "time_info sender_id dir = label_time @ be_bytes 4 sender_id @ [direction_u8 dir]"

definition time_key :: "crypto \<Rightarrow> device_secret \<Rightarrow> u32 \<Rightarrow> direction \<Rightarrow> bytes" where
  "time_key C secret sender_id dir = be_bytes 32 (hkdf_sha256 C secret (time_info sender_id dir))"

section \<open>Tags\<close>

text \<open>
  \<open>usize::saturating_add\<close>, and the staging loop of the ChaCha20-Poly1305 arm: the parts are copied
  into a fixed scratch buffer of \<open>MAX_DATAGRAM_IPV4\<close> bytes, or refused.
\<close>

definition sat_add_usize :: "nat \<Rightarrow> nat \<Rightarrow> nat" where
  "sat_add_usize a b = min (a + b) (2 ^ 64 - 1)"

fun stage_parts :: "bytes list \<Rightarrow> bytes \<Rightarrow> (bytes, error) result" where
  "stage_parts [] stage = Ok stage"
| "stage_parts (part # parts) stage =
     (if MAX_DATAGRAM_IPV4 - length stage < length part
      then Err (Oversize (sat_add_usize (length stage) (length part)))
      else stage_parts parts (stage @ part))"

text \<open>
  \<open>mac_parts\<close> writes the tag to the front of \<open>out\<close> and leaves the rest of the buffer: the result is
  the buffer afterwards. Hashing the parts one by one is hashing their concatenation (the
  streaming interface of the hash crates).
\<close>

definition mac_parts ::
  "crypto \<Rightarrow> cipher_id \<Rightarrow> bytes \<Rightarrow> bytes list \<Rightarrow> u32 \<Rightarrow> bytes \<Rightarrow> (bytes, error) result" where
  "mac_parts C cipher key parts datagram_offset out =
     (if \<not> implemented cipher then Err (CipherUnimplemented (cipher_u8 cipher))
      else if length out < tag_len cipher
      then Err (BufferTooSmall (length out) (tag_len cipher))
      else case cipher of
        HmacSha256T64 \<Rightarrow>
          copy_at out 0 (take (tag_len cipher) (be_bytes 32 (hmac_sha256 C key (concat parts))))
      | HmacSha256T32 \<Rightarrow>
          copy_at out 0 (take (tag_len cipher) (be_bytes 32 (hmac_sha256 C key (concat parts))))
      | SipHash24 \<Rightarrow>
          copy_at out 0 (be_bytes 8 (siphash_2_4 C (take 16 key) (concat parts)))
      | ChaCha20Poly1305 \<Rightarrow>
          rbind (stage_parts parts []) (\<lambda>stage.
            copy_at out 0 (take (tag_len cipher)
              (be_bytes 16 (chacha20poly1305_tag C key
                 (replicate 8 0 @ be_bytes 4 datagram_offset) stage)))))"

definition mac_into ::
  "crypto \<Rightarrow> cipher_id \<Rightarrow> bytes \<Rightarrow> bytes \<Rightarrow> u32 \<Rightarrow> bytes \<Rightarrow> (bytes, error) result" where
  "mac_into C cipher key msg datagram_offset out =
     mac_parts C cipher key [msg] datagram_offset out"

definition mac :: "crypto \<Rightarrow> cipher_id \<Rightarrow> bytes \<Rightarrow> bytes \<Rightarrow> u32 \<Rightarrow> (bytes, error) result" where
  "mac C cipher key msg datagram_offset =
     mac_into C cipher key msg datagram_offset (replicate (tag_len cipher) 0)"

definition ct_eq :: "crypto \<Rightarrow> bytes \<Rightarrow> bytes \<Rightarrow> bool" where
  "ct_eq C a b = (if length a \<noteq> length b then False else subtle_ct_eq C a b)"

section \<open>What a tag is\<close>

text \<open>
  The mathematical tag of a message, with no buffer and no staging, and the messages for which a
  suite can compute it.
\<close>

definition tag_of :: "crypto \<Rightarrow> cipher_id \<Rightarrow> bytes \<Rightarrow> bytes \<Rightarrow> u32 \<Rightarrow> bytes" where
  "tag_of C cipher key msg off = (case cipher of
     HmacSha256T64 \<Rightarrow> take 8 (be_bytes 32 (hmac_sha256 C key msg))
   | HmacSha256T32 \<Rightarrow> take 4 (be_bytes 32 (hmac_sha256 C key msg))
   | SipHash24 \<Rightarrow> be_bytes 8 (siphash_2_4 C (take 16 key) msg)
   | ChaCha20Poly1305 \<Rightarrow>
       be_bytes 16 (chacha20poly1305_tag C key (replicate 8 0 @ be_bytes 4 off) msg))"

definition mac_fits :: "cipher_id \<Rightarrow> nat \<Rightarrow> bool" where
  "mac_fits cipher n \<longleftrightarrow> (cipher = ChaCha20Poly1305 \<longrightarrow> n \<le> MAX_DATAGRAM_IPV4)"

lemma length_tag_of [simp]: "length (tag_of C c key msg off) = tag_len c"
  by (cases c) (simp_all add: tag_of_def)

lemma ct_eq_iff: "ct_eq_decides C \<Longrightarrow> ct_eq C a b \<longleftrightarrow> a = b"
  by (auto simp: ct_eq_def ct_eq_decides_def)

text \<open>Staging succeeds exactly when the total fits the scratch buffer; then it concatenates.\<close>

lemma stage_parts_ok:
  "length stage + length (concat parts) \<le> MAX_DATAGRAM_IPV4 \<Longrightarrow>
   stage_parts parts stage = Ok (stage @ concat parts)"
  by (induction parts arbitrary: stage) auto

lemma stage_parts_oversize:
  "length stage \<le> MAX_DATAGRAM_IPV4 \<Longrightarrow>
   MAX_DATAGRAM_IPV4 < length stage + length (concat parts) \<Longrightarrow>
   \<exists>n. stage_parts parts stage = Err (Oversize n)"
proof (induction parts arbitrary: stage)
  case (Cons part parts)
  show ?case
  proof (cases "MAX_DATAGRAM_IPV4 - length stage < length part")
    case False
    with Cons.prems Cons.IH [of "stage @ part"] show ?thesis by simp
  qed simp
qed simp

lemma mac_parts_ok:
  assumes "tag_len c \<le> length out" and "mac_fits c (length (concat parts))"
  shows "mac_parts C c key parts off out
       = Ok (tag_of C c key (concat parts) off @ drop (tag_len c) out)"
  using assms stage_parts_ok [of "[]" parts]
  by (cases c) (simp_all add: mac_parts_def tag_of_def mac_fits_def)

lemma mac_parts_short_buffer:
  "length out < tag_len c \<Longrightarrow>
   mac_parts C c key parts off out = Err (BufferTooSmall (length out) (tag_len c))"
  by (simp add: mac_parts_def)

lemma mac_parts_oversize:
  assumes "tag_len c \<le> length out" and "\<not> mac_fits c (length (concat parts))"
  shows "\<exists>n. mac_parts C c key parts off out = Err (Oversize n)"
  using assms stage_parts_oversize [of "[]" parts]
  by (cases c) (auto simp: mac_parts_def mac_fits_def)

lemma mac_parts_not_Panic [simp, panic_free]: "mac_parts C c key parts off out \<noteq> Panic"
  by (metis mac_parts_ok mac_parts_oversize mac_parts_short_buffer not_less
      result.distinct(3) result.distinct(5))

lemma mac_ok: "mac_fits c (length msg) \<Longrightarrow> mac C c key msg off = Ok (tag_of C c key msg off)"
  by (simp add: mac_def mac_into_def mac_parts_ok)

lemma mac_eq_Ok:
  "mac C c key msg off = Ok t \<longleftrightarrow> mac_fits c (length msg) \<and> t = tag_of C c key msg off"
proof (cases "mac_fits c (length msg)")
  case False
  then show ?thesis
    using mac_parts_oversize [of c "replicate (tag_len c) 0" "[msg]" C key off]
    by (auto simp: mac_def mac_into_def)
qed (auto simp: mac_ok)

lemma mac_not_Panic [simp, panic_free]: "mac C c key msg off \<noteq> Panic"
  by (simp add: mac_def mac_into_def)

section \<open>Domain separation of the derived keys\<close>

lemma length_epoch_key [simp]: "length (epoch_key C s i e d) = 32"
  by (simp add: epoch_key_def)

lemma length_time_key [simp]: "length (time_key C s i d) = 32"
  by (simp add: time_key_def)

lemma length_epoch_info: "length (epoch_info i e d) = 14"
  by (simp add: epoch_info_def label_epoch_def)

lemma length_time_info: "length (time_info i d) = 15"
  by (simp add: time_info_def label_time_def label_epoch_def)

lemma epoch_info_inj:
  "epoch_info i e d = epoch_info i' e' d' \<longleftrightarrow> i = i' \<and> e = e' \<and> d = d'"
  by (auto simp: epoch_info_def append_eq_append_conv be_bytes_inj)

lemma time_info_inj: "time_info i d = time_info i' d' \<longleftrightarrow> i = i' \<and> d = d'"
  by (auto simp: time_info_def append_eq_append_conv be_bytes_inj)

lemma epoch_info_neq_time_info: "epoch_info i e d \<noteq> time_info i' d'"
  by (metis length_epoch_info length_time_info numeral_eq_iff semiring_norm(88) semiring_norm(90))

section \<open>A concrete instance of the primitives\<close>

text \<open>
  Computable stand-ins of the right types, none of them constant, on which the hypotheses about
  the primitives hold; the witnesses of the properties use them.
\<close>

definition demo_crypto :: crypto where
  "demo_crypto =
     \<lparr>hkdf_sha256 = (\<lambda>ikm info. from_be (ikm @ info)),
      hmac_sha256 = (\<lambda>key msg. push_bit 192 (from_be msg) XOR from_be key),
      siphash_2_4 = (\<lambda>key msg. from_be key + from_be msg),
      chacha20poly1305_tag = (\<lambda>key nonce ad. from_be ad XOR from_be nonce),
      subtle_ct_eq = (=)\<rparr>"

lemma demo_crypto_ct_eq: "ct_eq_decides demo_crypto"
  by (simp add: ct_eq_decides_def demo_crypto_def)

section \<open>Properties\<close>

text \<open>The HKDF info strings separate every derived key: two epoch keys share their info string only
  when sender, epoch and direction agree, two time keys only when sender and direction agree, and
  no epoch key ever shares one with a time key.\<close>

lemma key_info_separation:
  "(epoch_info i e d = epoch_info i' e' d' \<longleftrightarrow> i = i' \<and> e = e' \<and> d = d')
   \<and> (time_info i d = time_info i' d' \<longleftrightarrow> i = i' \<and> d = d')
   \<and> epoch_info i e d \<noteq> time_info i' d'"
  by (simp add: epoch_info_inj time_info_inj epoch_info_neq_time_info)

text \<open>The tag computed in place over message parts is the tag of their concatenation written at the
  front of the output buffer, the rest of which is untouched; it is refused exactly when the buffer
  is shorter than the suite's tag (with both counts), or when suite 0x03's message exceeds the
  512-byte scratch.\<close>

lemma mac_parts_outcome:
  "case mac_parts C c key parts off out of
     Ok out' \<Rightarrow> tag_len c \<le> length out \<and> mac_fits c (length (concat parts))
       \<and> out' = tag_of C c key (concat parts) off @ drop (tag_len c) out
   | Err e \<Rightarrow>
       (length out < tag_len c \<and> e = BufferTooSmall (length out) (tag_len c))
       \<or> (tag_len c \<le> length out \<and> \<not> mac_fits c (length (concat parts)) \<and> (\<exists>n. e = Oversize n))
   | Panic \<Rightarrow> False"
proof -
  consider "length out < tag_len c"
    | "tag_len c \<le> length out" "mac_fits c (length (concat parts))"
    | "tag_len c \<le> length out" "\<not> mac_fits c (length (concat parts))"
    by fastforce
  then show ?thesis
  proof cases
    case 3
    then obtain n where "mac_parts C c key parts off out = Err (Oversize n)"
      using mac_parts_oversize by blast
    with 3 show ?thesis by simp
  qed (simp_all add: mac_parts_short_buffer mac_parts_ok)
qed

end
