(* ===== verification/Catp_Datagram.thy ===== *)
theory Catp_Datagram
  imports Catp_Record Catp_Reading Catp_Keys
begin

text \<open>
  The \<open>Datagram\<close> of \<open>src/wire.rs\<close>: its builders, the 9-byte wire header, the 13-byte authenticated
  header image, and the serialisers \<open>payload_into\<close>, \<open>encode_into\<close> and \<open>encode\<close>, which write into a
  caller's buffer. The reference encoding is header, payload and tag concatenated.
\<close>

section \<open>The datagram and its builders\<close>

record datagram =
  d_version :: u8
  d_msg_type :: u8
  d_cipher_id :: u8
  d_epoch_low :: u8
  d_reserved :: u8
  d_offset :: u32 \<comment> \<open>\<open>datagram_offset\<close>\<close>
  d_sender_id :: u32
  d_records :: "catp_record list"
  d_raw :: bytes

definition base :: "msg_type \<Rightarrow> cipher_id \<Rightarrow> u32 \<Rightarrow> u32 \<Rightarrow> u32 \<Rightarrow> datagram" where
  "base msg_type cipher sender_id epoch_id off =
     \<lparr>d_version = VERSION, d_msg_type = msg_type_u8 msg_type, d_cipher_id = cipher_u8 cipher,
      d_epoch_low = ucast (epoch_id AND 0x0F), d_reserved = 0, d_offset = off,
      d_sender_id = sender_id, d_records = [], d_raw = []\<rparr>"

definition data_datagram ::
  "msg_type \<Rightarrow> cipher_id \<Rightarrow> u32 \<Rightarrow> u32 \<Rightarrow> u32 \<Rightarrow> catp_record list \<Rightarrow> (datagram, error) result" where
  "data_datagram msg_type cipher sender_id epoch_id datagram_offset recs =
     (if \<not> is_record_framed msg_type then Err (Framing ''msg_type is not record-framed'')
      else if recs = [] then Err (Framing ''record-framed datagram needs at least one record'')
      else if (msg_type = Event \<or> msg_type = Alarm) \<and> 1 < length recs
      then Err (Framing ''EVENT and ALARM carry exactly one record'')
      else if TICKS_PER_EPOCH \<le> datagram_offset
      then Err (Framing ''datagram_offset exceeds 19 bits'')
      else Ok ((base msg_type cipher sender_id epoch_id datagram_offset)\<lparr>d_records := recs\<rparr>))"

definition number_datagram ::
  "cipher_id \<Rightarrow> u32 \<Rightarrow> u32 \<Rightarrow> u32 \<Rightarrow> u8 \<Rightarrow> i16 \<Rightarrow> (datagram, error) result" where
  "number_datagram cipher sender_id epoch_id datagram_offset scale mantissa =
     (if \<not> scale_is_valid scale then Err (BadNumber ''scale must be 0x01..=0x07'')
      else if TICKS_PER_EPOCH \<le> datagram_offset
      then Err (Framing ''datagram_offset exceeds 19 bits'')
      else Ok ((base Number cipher sender_id epoch_id datagram_offset)
                 \<lparr>d_raw := [scale] @ be_bytes 2 mantissa\<rparr>))"

text \<open>The loop over \<open>&readings[1..]\<close>: the payload grown so far and the previous instant.\<close>

fun series_raw :: "(u32 \<times> i16) list \<Rightarrow> u32 \<Rightarrow> bytes \<Rightarrow> (bytes \<times> u32, error) result" where
  "series_raw [] prev raw = Ok (raw, prev)"
| "series_raw ((off, mantissa) # readings) prev raw =
     (if off \<le> prev then Err (BadSeries ''reading instants must strictly increase'')
      else if 65535 < off - prev
      then Err (BadSeries ''gap between readings exceeds 65535 ticks'')
      else series_raw readings off
             (raw @ be_bytes 2 (ucast (off - prev) :: u16) @ be_bytes 2 mantissa))"

definition series_datagram ::
  "cipher_id \<Rightarrow> u32 \<Rightarrow> u32 \<Rightarrow> u8 \<Rightarrow> (u32 \<times> i16) list \<Rightarrow> (datagram, error) result" where
  "series_datagram cipher sender_id epoch_id scale readings =
     (if \<not> scale_is_valid scale then Err (BadSeries ''scale must be 0x01..=0x07'')
      else if length readings < 2
      then Err (BadSeries ''SERIES must carry at least two readings'')
      else rbind (idx readings 0) (\<lambda>(first_offset, first_mantissa).
        if TICKS_PER_EPOCH \<le> first_offset
        then Err (Framing ''datagram_offset exceeds 19 bits'')
        else rbind (subslice readings 1 (length readings)) (\<lambda>rest.
          rbind (series_raw rest first_offset ([scale] @ be_bytes 2 first_mantissa))
            (\<lambda>(raw, prev).
              if TICKS_PER_EPOCH \<le> prev
              then Err (BadSeries ''reading instant crosses the epoch boundary'')
              else Ok ((base Series cipher sender_id epoch_id first_offset)\<lparr>d_raw := raw\<rparr>)))))"

definition control_datagram ::
  "msg_type \<Rightarrow> cipher_id \<Rightarrow> u32 \<Rightarrow> u32 \<Rightarrow> u32 \<Rightarrow> bytes \<Rightarrow> (datagram, error) result" where
  "control_datagram msg_type cipher sender_id epoch_id datagram_offset body =
     (if \<not> is_control (msg_type_u8 msg_type) then Err (Framing ''not a control type'')
      else if TICKS_PER_EPOCH \<le> datagram_offset
      then Err (Framing ''datagram_offset exceeds 19 bits'')
      else Ok ((base msg_type cipher sender_id epoch_id datagram_offset)\<lparr>d_raw := body\<rparr>))"

definition number_value :: "datagram \<Rightarrow> (u8 \<times> i16) option" where
  "number_value d =
     (if d_msg_type d = msg_type_u8 Number
      then (case validate_number (d_raw d) of Ok v \<Rightarrow> Some v | _ \<Rightarrow> None) else None)"

definition series_values :: "datagram \<Rightarrow> (u8 \<times> (u32 \<times> i16) list) option" where
  "series_values d =
     (if d_msg_type d = msg_type_u8 Series
      then (case validate_series (d_raw d) (d_offset d) of Ok v \<Rightarrow> Some v | _ \<Rightarrow> None) else None)"

section \<open>The header\<close>

definition header_bytes :: "datagram \<Rightarrow> bytes" where
  "header_bytes d =
     (let b0 = push_bit 5 (d_version d AND 0x07) OR (d_msg_type d AND 0x1F);
          b1 = push_bit 4 (d_cipher_id d AND 0x0F) OR (d_epoch_low d AND 0x0F);
          o' = d_offset d AND 0x7FFFF;
          b2 = push_bit 3 (d_reserved d AND 0x1F) OR (ucast (drop_bit 16 o') AND 0x07);
          s = be_bytes 4 (d_sender_id d)
      in [b0, b1, b2, ucast (drop_bit 8 o'), ucast o', s ! 0, s ! 1, s ! 2, s ! 3])"

definition auth_header :: "datagram \<Rightarrow> u32 \<Rightarrow> bytes" where
  "auth_header d epoch_id =
     (let h = header_bytes d; e = be_bytes 4 epoch_id
      in [h ! 0, h ! 1 AND 0xF0, h ! 2, h ! 3, h ! 4,
          e ! 0, e ! 1, e ! 2, e ! 3, h ! 5, h ! 6, h ! 7, h ! 8])"

text \<open>The fields \<open>decode\<close> reads from the first nine bytes, with no payload yet.\<close>

definition parse_header :: "bytes \<Rightarrow> (datagram, error) result" where
  "parse_header buf =
     rbind (idx buf 0) (\<lambda>b0. rbind (idx buf 1) (\<lambda>b1. rbind (idx buf 2) (\<lambda>b2.
     rbind (idx buf 3) (\<lambda>b3. rbind (idx buf 4) (\<lambda>b4. rbind (idx buf 5) (\<lambda>b5.
     rbind (idx buf 6) (\<lambda>b6. rbind (idx buf 7) (\<lambda>b7. rbind (idx buf 8) (\<lambda>b8.
       Ok \<lparr>d_version = drop_bit 5 b0 AND 0x07, d_msg_type = b0 AND 0x1F,
           d_cipher_id = drop_bit 4 b1 AND 0x0F, d_epoch_low = b1 AND 0x0F,
           d_reserved = drop_bit 3 b2 AND 0x1F,
           d_offset = push_bit 16 (ucast (b2 AND 0x07)) OR push_bit 8 (ucast b3) OR ucast b4,
           d_sender_id = from_be [b5, b6, b7, b8], d_records = [], d_raw = []\<rparr>)))))))))"

section \<open>Serialisation\<close>

definition payload_len :: "datagram \<Rightarrow> nat" where
  "payload_len d =
     (if d_records d \<noteq> [] then sum_list (map wire_len (d_records d)) else length (d_raw d))"

text \<open>\<open>for r in &self.records\<close>, with the bytes used so far.\<close>

fun write_records :: "catp_record list \<Rightarrow> nat \<Rightarrow> bytes \<Rightarrow> (bytes, error) result" where
  "write_records [] used out = Ok out"
| "write_records (r # rs) used out =
     rbind (subslice out used (length out)) (\<lambda>tail.
     rbind (write_into r tail) (\<lambda>(tail, n).
     rbind (copy_at out used tail) (\<lambda>out. write_records rs (used + n) out)))"

definition payload_into :: "datagram \<Rightarrow> bytes \<Rightarrow> (bytes \<times> nat, error) result" where
  "payload_into d out =
     (let need = payload_len d in
      if length out < need then Err (BufferTooSmall (length out) need)
      else if d_records d \<noteq> []
      then rmap (\<lambda>out. (out, need)) (write_records (d_records d) 0 out)
      else rmap (\<lambda>out. (out, need)) (copy_at out 0 (d_raw d)))"

definition encode_into ::
  "crypto \<Rightarrow> datagram \<Rightarrow> device_secret \<Rightarrow> u32 \<Rightarrow> direction \<Rightarrow> bytes \<Rightarrow> (bytes \<times> nat, error) result"
where
  "encode_into C d secret epoch_id dir out =
     rbind (ok_or (cipher_from_u8 (d_cipher_id d)) (CipherUnimplemented (d_cipher_id d))) (\<lambda>cipher.
       let need = HEADER_LEN + payload_len d + tag_len cipher in
       if length out < need then Err (BufferTooSmall (length out) need)
       else
         rbind (subslice out HEADER_LEN (HEADER_LEN + payload_len d)) (\<lambda>region.
         rbind (payload_into d region) (\<lambda>(region, plen).
         rbind (copy_at out HEADER_LEN region) (\<lambda>out.
         let key = epoch_key C secret (d_sender_id d) epoch_id dir in
         rbind (copy_at out 0 (header_bytes d)) (\<lambda>out.
         rbind (subslice out HEADER_LEN (HEADER_LEN + plen)) (\<lambda>payload.
         rbind (subslice out (HEADER_LEN + plen) (HEADER_LEN + plen + tag_len cipher)) (\<lambda>tag.
         rbind (mac_parts C cipher key [auth_header d epoch_id, payload] (d_offset d) tag) (\<lambda>tag.
         rbind (copy_at out (HEADER_LEN + plen) tag) (\<lambda>out.
           Ok (out, HEADER_LEN + plen + tag_len cipher))))))))))"

definition encode ::
  "crypto \<Rightarrow> datagram \<Rightarrow> device_secret \<Rightarrow> u32 \<Rightarrow> direction \<Rightarrow> nat \<Rightarrow> (bytes, error) result" where
  "encode C d secret epoch_id dir max_datagram_size =
     rbind (ok_or (cipher_from_u8 (d_cipher_id d)) (CipherUnimplemented (d_cipher_id d))) (\<lambda>cipher.
     rbind (encode_into C d secret epoch_id dir
              (replicate (HEADER_LEN + payload_len d + tag_len cipher) 0)) (\<lambda>(out, n).
       let out = take n out in
       if max_datagram_size < length out then Err (Oversize (length out)) else Ok out))"

section \<open>The header round trip\<close>

text \<open>Header fields within their bit widths.\<close>

definition hdr_wf :: "datagram \<Rightarrow> bool" where
  "hdr_wf d \<longleftrightarrow> d_version d AND 0x07 = d_version d \<and> d_msg_type d AND 0x1F = d_msg_type d \<and>
     d_cipher_id d AND 0x0F = d_cipher_id d \<and> d_epoch_low d AND 0x0F = d_epoch_low d \<and>
     d_reserved d AND 0x1F = d_reserved d \<and> d_offset d AND 0x7FFFF = d_offset d"

lemma length_header_bytes [simp]: "length (header_bytes d) = 9"
  by (simp add: header_bytes_def Let_def)

lemma length_auth_header [simp]: "length (auth_header d e) = 13"
  by (simp add: auth_header_def Let_def)

lemma be_bytes_4_conv:
  "be_bytes 4 w = [be_bytes 4 w ! 0, be_bytes 4 w ! 1, be_bytes 4 w ! 2, be_bytes 4 w ! 3]"
  by (simp add: numeral_eq_Suc)

lemma from_be_nth_4:
  "from_be [be_bytes 4 w ! 0, be_bytes 4 w ! 1, be_bytes 4 w ! 2, be_bytes 4 w ! 3] = (w :: u32)"
  by (simp only: be_bytes_4_conv [symmetric]) (simp add: from_be_be_bytes_full)

lemma be_bytes_4_from_be: "be_bytes 4 (from_be [a, b, c, d] :: u32) = [a, b, c, d]"
proof -
  have "length [a, b, c, d] = 4" by simp
  then show ?thesis using be_bytes_from_be [of "[a, b, c, d]", where 'a = 32] by (simp only:) simp
qed

lemma header_fields:
  "drop_bit 5 (push_bit 5 (take_bit 3 v) OR take_bit 5 t :: u8) = take_bit 3 v"
  "take_bit 5 (push_bit 5 (take_bit 3 v) OR take_bit 5 t :: u8) = take_bit 5 t"
  "drop_bit 4 (push_bit 4 (take_bit 4 c) OR take_bit 4 e :: u8) = take_bit 4 c"
  "take_bit 4 (push_bit 4 (take_bit 4 c) OR take_bit 4 e :: u8) = take_bit 4 e"
  "drop_bit 3 (push_bit 3 (take_bit 5 r) OR take_bit 3 h :: u8) = take_bit 5 r"
  "take_bit 3 (push_bit 3 (take_bit 5 r) OR take_bit 3 h :: u8) = take_bit 3 h"
  by (rule bit_word_eqI; auto simp: bit_simps)+

lemma offset_split:
  "push_bit 16 (ucast (take_bit 3 (ucast (drop_bit 16 (take_bit 19 off :: u32)) :: u8)))
   OR push_bit 8 (ucast (ucast (drop_bit 8 (take_bit 19 off)) :: u8))
   OR ucast (ucast (take_bit 19 off) :: u8) = (take_bit 19 off :: u32)"
  by (rule bit_word_eqI) (auto simp: bit_simps)

text \<open>What a reader of nine header bytes sees of the datagram that wrote them.\<close>

definition masked_header :: "datagram \<Rightarrow> datagram" where
  "masked_header d =
     \<lparr>d_version = d_version d AND 0x07, d_msg_type = d_msg_type d AND 0x1F,
      d_cipher_id = d_cipher_id d AND 0x0F, d_epoch_low = d_epoch_low d AND 0x0F,
      d_reserved = d_reserved d AND 0x1F, d_offset = d_offset d AND 0x7FFFF,
      d_sender_id = d_sender_id d, d_records = [], d_raw = []\<rparr>"

lemma parse_header_Cons:
  "parse_header (b0 # b1 # b2 # b3 # b4 # b5 # b6 # b7 # b8 # rest) =
     Ok \<lparr>d_version = drop_bit 5 b0 AND 0x07, d_msg_type = b0 AND 0x1F,
         d_cipher_id = drop_bit 4 b1 AND 0x0F, d_epoch_low = b1 AND 0x0F,
         d_reserved = drop_bit 3 b2 AND 0x1F,
         d_offset = push_bit 16 (ucast (b2 AND 0x07)) OR push_bit 8 (ucast b3) OR ucast b4,
         d_sender_id = from_be [b5, b6, b7, b8], d_records = [], d_raw = []\<rparr>"
  by (simp add: parse_header_def)

lemma parse_header_not_Panic [panic_free]: "9 \<le> length buf \<Longrightarrow> parse_header buf \<noteq> Panic"
  by (elim length_9_cases) (simp add: parse_header_Cons)

lemma parse_header_bytes: "parse_header (header_bytes d @ rest) = Ok (masked_header d)"
  unfolding header_bytes_def masked_header_def Let_def mask_simps append_Cons append_Nil
    parse_header_Cons
  by (simp only: header_fields offset_split from_be_nth_4 take_bit_take_bit) simp

text \<open>Conversely, writing the fields read from nine bytes gives those bytes back.\<close>

lemma byte_split:
  "push_bit 5 (take_bit 3 (take_bit 3 (drop_bit 5 b))) OR take_bit 5 (take_bit 5 b) = (b :: u8)"
  "push_bit 4 (take_bit 4 (take_bit 4 (drop_bit 4 b))) OR take_bit 4 (take_bit 4 b) = (b :: u8)"
  by (rule bit_word_eqI; auto simp: bit_simps)+

lemma offset_join:
  fixes b2 b3 b4 :: u8
  defines "o' \<equiv> push_bit 16 (ucast (take_bit 3 b2)) OR push_bit 8 (ucast b3) OR ucast b4 :: u32"
  shows "take_bit 19 o' = o'"
    and "push_bit 3 (take_bit 5 (take_bit 5 (drop_bit 3 b2)))
         OR take_bit 3 (ucast (drop_bit 16 o')) = b2"
    and "ucast (drop_bit 8 o') = b3" and "ucast o' = b4"
  unfolding o'_def by (rule bit_word_eqI; auto simp: bit_simps dest: bit_imp_le_length)+

lemma parse_header_wf:
  assumes "parse_header buf = Ok d" and "9 \<le> length buf"
  shows "hdr_wf d \<and> header_bytes d = take 9 buf \<and> d_records d = [] \<and> d_raw d = []"
proof -
  obtain b0 b1 b2 b3 b4 b5 b6 b7 b8 rest
    where b: "buf = b0 # b1 # b2 # b3 # b4 # b5 # b6 # b7 # b8 # rest"
    by (rule length_9_cases [OF assms(2)])
  have s: "be_bytes 4 (from_be [b5, b6, b7, b8] :: u32) = [b5, b6, b7, b8]"
    by (rule be_bytes_4_from_be)
  have d: "d = \<lparr>d_version = take_bit 3 (drop_bit 5 b0), d_msg_type = take_bit 5 b0,
         d_cipher_id = take_bit 4 (drop_bit 4 b1), d_epoch_low = take_bit 4 b1,
         d_reserved = take_bit 5 (drop_bit 3 b2),
         d_offset = push_bit 16 (ucast (take_bit 3 b2)) OR push_bit 8 (ucast b3) OR ucast b4,
         d_sender_id = from_be [b5, b6, b7, b8], d_records = [], d_raw = []\<rparr>"
    using assms(1) unfolding b parse_header_Cons mask_simps by simp
  have wf: "hdr_wf d"
    unfolding d hdr_wf_def mask_simps datagram.simps offset_join(1) by simp
  have "header_bytes d = [b0, b1, b2, b3, b4, b5, b6, b7, b8]"
    unfolding d header_bytes_def Let_def mask_simps datagram.simps byte_split s offset_join by simp
  with wf show ?thesis by (simp add: b d take_Cons')
qed

lemma masked_header_wf:
  "hdr_wf d \<Longrightarrow> masked_header d = d\<lparr>d_records := [], d_raw := []\<rparr>"
  by (cases d) (simp add: hdr_wf_def masked_header_def)

section \<open>The reference encoding\<close>

definition payload_bytes :: "datagram \<Rightarrow> bytes" where
  "payload_bytes d =
     (if d_records d \<noteq> [] then concat (map record_bytes (d_records d)) else d_raw d)"

definition signed_message :: "datagram \<Rightarrow> u32 \<Rightarrow> bytes" where
  "signed_message d epoch_id = auth_header d epoch_id @ payload_bytes d"

definition datagram_tag ::
  "crypto \<Rightarrow> cipher_id \<Rightarrow> datagram \<Rightarrow> device_secret \<Rightarrow> u32 \<Rightarrow> direction \<Rightarrow> bytes" where
  "datagram_tag C cipher d secret epoch_id dir =
     tag_of C cipher (epoch_key C secret (d_sender_id d) epoch_id dir)
       (signed_message d epoch_id) (d_offset d)"

definition wire_image ::
  "crypto \<Rightarrow> cipher_id \<Rightarrow> datagram \<Rightarrow> device_secret \<Rightarrow> u32 \<Rightarrow> direction \<Rightarrow> bytes" where
  "wire_image C cipher d secret epoch_id dir =
     header_bytes d @ payload_bytes d @ datagram_tag C cipher d secret epoch_id dir"

text \<open>The complete outcome of \<open>encode_into\<close>: each refusal in order, or the reference encoding at the
  front of an otherwise unchanged buffer.\<close>

definition encode_spec ::
  "crypto \<Rightarrow> datagram \<Rightarrow> device_secret \<Rightarrow> u32 \<Rightarrow> direction \<Rightarrow> bytes \<Rightarrow> (bytes \<times> nat, error) result"
where
  "encode_spec C d secret epoch_id dir out =
     (case cipher_from_u8 (d_cipher_id d) of
        None \<Rightarrow> Err (CipherUnimplemented (d_cipher_id d))
      | Some c \<Rightarrow>
          let need = 9 + payload_len d + tag_len c in
          if length out < need then Err (BufferTooSmall (length out) need)
          else case find (\<lambda>r. \<not> body_ok r) (d_records d) of
            Some r \<Rightarrow> Err (BodyTooLarge (length (r_body r)))
          | None \<Rightarrow>
              if \<not> mac_fits c (13 + payload_len d)
              then Err (Oversize (sat_add_usize 13 (payload_len d)))
              else Ok (wire_image C c d secret epoch_id dir @ drop need out, need))"

lemma length_payload_bytes [simp]: "length (payload_bytes d) = payload_len d"
  by (simp add: payload_bytes_def payload_len_def length_concat comp_def)

lemma length_datagram_tag [simp]: "length (datagram_tag C c d s e dir) = tag_len c"
  by (simp add: datagram_tag_def)

lemma length_signed_message [simp]: "length (signed_message d e) = 13 + payload_len d"
  by (simp add: signed_message_def)

lemma length_wire_image: "length (wire_image C c d s e dir) = 9 + payload_len d + tag_len c"
  by (simp add: wire_image_def)

lemma write_records_ok:
  "\<forall>r \<in> set rs. body_ok r \<Longrightarrow> used + sum_list (map wire_len rs) \<le> length out \<Longrightarrow>
   write_records rs used out
   = Ok (take used out @ concat (map record_bytes rs)
         @ drop (used + sum_list (map wire_len rs)) out)"
proof (induction rs arbitrary: used out)
  case (Cons r rs)
  let ?tail = "drop used out"
  let ?out = "take used out @ record_bytes r @ drop (used + wire_len r) out"
  have "write_into r ?tail = Ok (record_bytes r @ drop (wire_len r) ?tail, wire_len r)"
    using Cons.prems by (intro write_into_ok) simp_all
  then have w: "write_into r ?tail = Ok (record_bytes r @ drop (used + wire_len r) out, wire_len r)"
    by (simp add: add.commute)
  have "length ?out = length out" using Cons.prems by simp
  then have "write_records rs (used + wire_len r) ?out
     = Ok (take (used + wire_len r) ?out @ concat (map record_bytes rs)
         @ drop (used + wire_len r + sum_list (map wire_len rs)) ?out)"
    using Cons.prems by (intro Cons.IH) simp_all
  then show ?case
    using Cons.prems w by (simp add: ac_simps)
qed simp

lemma write_records_bad:
  "find (\<lambda>r. \<not> body_ok r) rs = Some r \<Longrightarrow> used + sum_list (map wire_len rs) \<le> length out \<Longrightarrow>
   write_records rs used out = Err (BodyTooLarge (length (r_body r)))"
proof (induction rs arbitrary: used out)
  case (Cons r' rs)
  show ?case
  proof (cases "body_ok r'")
    case False
    with Cons.prems show ?thesis by (simp add: write_into_err)
  next
    case True
    then have "write_into r' (drop used out)
        = Ok (record_bytes r' @ drop (wire_len r') (drop used out), wire_len r')"
      using Cons.prems by (intro write_into_ok) simp_all
    with True Cons show ?thesis by (simp add: ac_simps)
  qed
qed simp

lemma payload_into_eq:
  assumes "payload_len d \<le> length out"
  shows "payload_into d out =
    (case find (\<lambda>r. \<not> body_ok r) (d_records d) of
       Some r \<Rightarrow> Err (BodyTooLarge (length (r_body r)))
     | None \<Rightarrow> Ok (payload_bytes d @ drop (payload_len d) out, payload_len d))"
proof (cases "d_records d = []")
  case False
  then have len: "0 + sum_list (map wire_len (d_records d)) \<le> length out"
    using assms by (simp add: payload_len_def)
  show ?thesis
  proof (cases "find (\<lambda>r. \<not> body_ok r) (d_records d)")
    case None
    then have "\<forall>r \<in> set (d_records d). body_ok r" by (simp add: find_None_iff)
    with None False assms write_records_ok [OF _ len] show ?thesis
      by (simp add: payload_into_def payload_bytes_def payload_len_def Let_def)
  next
    case (Some r)
    with False assms write_records_bad [OF Some len] show ?thesis
      by (simp add: payload_into_def Let_def)
  qed
qed (use assms in \<open>simp add: payload_into_def payload_bytes_def payload_len_def Let_def\<close>)

lemma mac_two_parts:
  assumes "length a = 13" and "length tag = tag_len c"
  shows "mac_parts C c key [a, p] off tag =
    (if mac_fits c (13 + length p) then Ok (tag_of C c key (a @ p) off)
     else Err (Oversize (sat_add_usize 13 (length p))))"
proof (cases "mac_fits c (13 + length p)")
  case True
  with assms mac_parts_ok [of c tag "[a, p]" C key off] show ?thesis by simp
next
  case False
  then have "c = ChaCha20Poly1305" "512 < 13 + length p" by (auto simp: mac_fits_def)
  with assms False show ?thesis by (simp add: mac_parts_def)
qed

lemma encode_into_refines: "encode_into C d secret e dir out = encode_spec C d secret e dir out"
proof (cases "cipher_from_u8 (d_cipher_id d)")
  case None
  then show ?thesis by (simp add: encode_into_def encode_spec_def)
next
  case (Some c)
  let ?p = "payload_len d" and ?n = "tag_len c"
  show ?thesis
  proof (cases "length out < 9 + ?p + ?n")
    case True
    with Some show ?thesis by (simp add: encode_into_def encode_spec_def Let_def)
  next
    case len: False
    let ?region = "take ?p (drop 9 out)"
    have rl: "?p \<le> length ?region" using len by simp
    show ?thesis
    proof (cases "find (\<lambda>r. \<not> body_ok r) (d_records d)")
      case bad: (Some r)
      with Some len payload_into_eq [OF rl] show ?thesis
        by (simp add: encode_into_def encode_spec_def Let_def)
    next
      case None
      let ?key = "epoch_key C secret (d_sender_id d) e dir"
      let ?rest = "drop (9 + ?p) out"
      have pay: "payload_into d ?region = Ok (payload_bytes d, ?p)"
        using payload_into_eq [OF rl] None len by simp
      have tag: "mac_parts C c ?key [auth_header d e, payload_bytes d] (d_offset d) (take ?n ?rest)
        = (if mac_fits c (13 + ?p) then Ok (datagram_tag C c d secret e dir)
           else Err (Oversize (sat_add_usize 13 ?p)))"
        using len by (subst mac_two_parts) (simp_all add: datagram_tag_def signed_message_def)
      show ?thesis
        using Some len None pay tag
        by (simp add: encode_into_def encode_spec_def Let_def wire_image_def ac_simps)
    qed
  qed
qed

lemma encode_eq:
  "encode C d secret e dir max_size =
     (case cipher_from_u8 (d_cipher_id d) of
        None \<Rightarrow> Err (CipherUnimplemented (d_cipher_id d))
      | Some c \<Rightarrow>
          (case find (\<lambda>r. \<not> body_ok r) (d_records d) of
             Some r \<Rightarrow> Err (BodyTooLarge (length (r_body r)))
           | None \<Rightarrow>
               if \<not> mac_fits c (13 + payload_len d)
               then Err (Oversize (sat_add_usize 13 (payload_len d)))
               else if max_size < 9 + payload_len d + tag_len c
               then Err (Oversize (9 + payload_len d + tag_len c))
               else Ok (wire_image C c d secret e dir)))"
  by (auto simp: encode_def encode_into_refines encode_spec_def Let_def length_wire_image
      split: option.splits)

lemma encode_Ok:
  "encode C d secret e dir max_size = Ok w \<longleftrightarrow>
   (\<exists>c. cipher_from_u8 (d_cipher_id d) = Some c \<and> (\<forall>r \<in> set (d_records d). body_ok r)
      \<and> mac_fits c (13 + payload_len d) \<and> 9 + payload_len d + tag_len c \<le> max_size
      \<and> w = wire_image C c d secret e dir)"
  by (auto simp: encode_eq find_None_iff find_Some_iff not_less split: option.splits if_splits
      dest: nth_mem)

lemma encode_not_Panic [simp, panic_free]: "encode C d secret e dir max_size \<noteq> Panic"
  by (simp add: encode_eq split: option.splits)

section \<open>The authenticated image\<close>

text \<open>
  For header fields within their widths, the signed message determines every header field but
  \<open>epoch_low\<close>, the full epoch and the payload: no two distinct datagrams share one.
\<close>

lemma header_byte1_mask:
  "(push_bit 4 (take_bit 4 c) OR take_bit 4 e) AND 0xF0 = (push_bit 4 (take_bit 4 c) :: u8)"
proof -
  have *: "(0xF0 :: u8) = push_bit 4 (mask 4)" by (simp add: mask_eq_exp_minus_1)
  show ?thesis
    unfolding * by (rule bit_word_eqI) (auto simp: bit_simps)
qed

lemma auth_header_image:
  "auth_header d e =
     (let h = header_bytes (d\<lparr>d_epoch_low := 0\<rparr>)
      in take 5 h @ be_bytes 4 e @ drop 5 h)"
  by (simp add: auth_header_def header_bytes_def Let_def mask_simps header_byte1_mask)
    (simp add: numeral_eq_Suc)

lemma auth_header_inj:
  assumes "hdr_wf d" and "hdr_wf d'" and "auth_header d e = auth_header d' e'"
  shows "e = e' \<and> d\<lparr>d_epoch_low := 0, d_records := [], d_raw := []\<rparr>
                 = d'\<lparr>d_epoch_low := 0, d_records := [], d_raw := []\<rparr>"
proof -
  let ?z = "d\<lparr>d_epoch_low := 0\<rparr>" and ?z' = "d'\<lparr>d_epoch_low := 0\<rparr>"
  have "take 5 (header_bytes ?z) = take 5 (header_bytes ?z')"
    and "be_bytes 4 e = be_bytes 4 e'" and "drop 5 (header_bytes ?z) = drop 5 (header_bytes ?z')"
    using assms(3) by (simp_all add: auth_header_image Let_def append_eq_append_conv)
  then have "header_bytes ?z = header_bytes ?z'" and e: "e = e'"
    by (metis append_take_drop_id, simp add: be_bytes_inj)
  then have "masked_header ?z = masked_header ?z'"
    using parse_header_bytes [of ?z "[]"] parse_header_bytes [of ?z' "[]"] by simp
  moreover have "hdr_wf ?z" "hdr_wf ?z'" using assms(1,2) by (simp_all add: hdr_wf_def)
  ultimately show ?thesis using e by (simp add: masked_header_wf)
qed

lemma signed_message_inj:
  assumes "hdr_wf d" and "hdr_wf d'" and "signed_message d e = signed_message d' e'"
  shows "e = e' \<and> payload_bytes d = payload_bytes d'
       \<and> d\<lparr>d_epoch_low := 0, d_records := [], d_raw := []\<rparr>
         = d'\<lparr>d_epoch_low := 0, d_records := [], d_raw := []\<rparr>"
proof -
  have "auth_header d e = auth_header d' e'" and "payload_bytes d = payload_bytes d'"
    using assms(3) by (simp_all add: signed_message_def append_eq_append_conv)
  with auth_header_inj [OF assms(1,2)] show ?thesis by blast
qed

section \<open>The builders\<close>

lemma base_wf [simp]: "off < TICKS_PER_EPOCH \<Longrightarrow> hdr_wf (base mt c s e off)"
proof -
  assume "off < TICKS_PER_EPOCH"
  then have "unat off < 524288" by (simp add: word_less_nat_alt)
  then have "off AND 0x7FFFF = off"
    unfolding mask_simps by (simp add: word_unat_eq_iff unat_take_bit_mod)
  moreover have "(ucast (e AND 0x0F) :: u8) AND 0x0F = ucast (e AND 0x0F)"
    unfolding mask_simps by (rule bit_word_eqI) (auto simp: bit_simps)
  ultimately show ?thesis
    by (simp add: hdr_wf_def base_def msg_type_u8_field cipher_u8_field)
qed

lemma base_simps [simp]:
  "d_version (base mt c s e off) = 1" "d_msg_type (base mt c s e off) = msg_type_u8 mt"
  "d_cipher_id (base mt c s e off) = cipher_u8 c" "d_reserved (base mt c s e off) = 0"
  "d_epoch_low (base mt c s e off) = ucast (e AND 0x0F)"
  "d_offset (base mt c s e off) = off" "d_sender_id (base mt c s e off) = s"
  "d_records (base mt c s e off) = []" "d_raw (base mt c s e off) = []"
  by (simp_all add: base_def)

lemma hdr_wf_payload [simp]:
  "hdr_wf (d\<lparr>d_records := rs\<rparr>) = hdr_wf d" "hdr_wf (d\<lparr>d_raw := p\<rparr>) = hdr_wf d"
  by (simp_all add: hdr_wf_def)

lemma series_raw_last: "series_raw rs prev raw = Ok (raw', lst) \<Longrightarrow> prev \<le> lst"
  by (induction rs prev raw rule: series_raw.induct) (fastforce split: if_splits)+

lemma gap_word: "prev < t \<Longrightarrow> \<not> 65535 < t - prev \<longleftrightarrow> unat t - unat (prev :: u32) \<le> 65535"
  by (simp add: word_less_nat_alt unat_sub word_le_nat_alt not_less)

text \<open>The delta loop accepts exactly the legal gaps, and emits the entries of the batch.\<close>

lemma series_raw_iff:
  "(\<exists>lst. series_raw rs prev raw = Ok (raw', lst) \<and> lst < TICKS_PER_EPOCH)
   \<longleftrightarrow> prev < TICKS_PER_EPOCH \<and> gaps_ok prev rs \<and> raw' = raw @ concat (entry_bytes prev rs)"
proof (induction rs prev raw rule: series_raw.induct)
  case (2 off m rs prev raw)
  show ?case
  proof (cases "prev < off \<and> unat off - unat prev \<le> 65535")
    case True
    then have ok: "\<not> off \<le> prev" "\<not> 65535 < off - prev" by (auto simp: gap_word)
    with 2 [OF ok] True show ?thesis by auto
  next
    case False
    then have "off \<le> prev \<or> 65535 < off - prev"
      using gap_word [of prev off] by (meson not_le)
    with False show ?thesis by auto
  qed
qed auto

lemma series_datagram_iff:
  "series_datagram c s e scale rs = Ok d
   \<longleftrightarrow> scale_is_valid scale \<and> batch_ok rs
       \<and> d = (base Series c s e (fst (hd rs)))\<lparr>d_raw := batch_bytes scale rs\<rparr>"
proof (cases rs rule: batch_ok.cases)
  case (1 t m r rs')
  have "(\<exists>raw lst. series_raw (r # rs') t ([scale] @ be_bytes 2 m) = Ok (raw, lst)
        \<and> lst < TICKS_PER_EPOCH \<and> d = (base Series c s e t)\<lparr>d_raw := raw\<rparr>)
     \<longleftrightarrow> (\<exists>raw. (\<exists>lst. series_raw (r # rs') t ([scale] @ be_bytes 2 m) = Ok (raw, lst)
        \<and> lst < TICKS_PER_EPOCH) \<and> d = (base Series c s e t)\<lparr>d_raw := raw\<rparr>)"
    by blast
  also have "\<dots> \<longleftrightarrow> t < TICKS_PER_EPOCH \<and> gaps_ok t (r # rs')
        \<and> d = (base Series c s e t)\<lparr>d_raw := batch_bytes scale rs\<rparr>"
    unfolding series_raw_iff by (auto simp: 1)
  finally have loop: "(\<exists>raw lst. series_raw (r # rs') t ([scale] @ be_bytes 2 m) = Ok (raw, lst)
        \<and> lst < TICKS_PER_EPOCH \<and> d = (base Series c s e t)\<lparr>d_raw := raw\<rparr>)
     \<longleftrightarrow> t < TICKS_PER_EPOCH \<and> gaps_ok t (r # rs')
        \<and> d = (base Series c s e t)\<lparr>d_raw := batch_bytes scale rs\<rparr>" .
  have "series_datagram c s e scale rs = Ok d
     \<longleftrightarrow> scale_is_valid scale \<and> t < TICKS_PER_EPOCH \<and>
       (\<exists>raw lst. series_raw (r # rs') t ([scale] @ be_bytes 2 m) = Ok (raw, lst)
        \<and> lst < TICKS_PER_EPOCH \<and> d = (base Series c s e t)\<lparr>d_raw := raw\<rparr>)"
    unfolding 1 series_datagram_def
    by (auto simp: not_le not_less simp del: series_raw.simps split: if_splits)
  then show ?thesis unfolding loop by (auto simp: 1 simp del: gaps_ok.simps entry_bytes.simps)
qed (auto simp: series_datagram_def)

section \<open>Properties\<close>

text \<open>Reading the header fields of serialised header bytes gives back every field cut to its width:
  three bits of version, five of type, four of cipher and of epoch, five reserved, nineteen of
  offset and all of the sender id; no field leaks into a neighbour.\<close>

lemma header_roundtrip: "parse_header (header_bytes d @ rest) = Ok (masked_header d)"
  by (rule parse_header_bytes)

text \<open>C9: \<open>encode_into\<close> does exactly what its specification says, in every case: it refuses, in this
  order, an unknown cipher, a short buffer (with both counts), a record body out of bounds, a
  message above suite 0x03's scratch; otherwise it writes the reference encoding (header, payload,
  tag over the authenticated header and payload) at the front of the buffer, leaves the rest alone
  and returns the length. It never panics.\<close>

theorem encode_into_outcome:
  "encode_into C d secret e dir out = encode_spec C d secret e dir out"
  by (rule encode_into_refines)

text \<open>C20: The message a tag authenticates determines the epoch, the payload and every header field except
  the four epoch bits, which the full epoch replaces: two datagrams with the same signed message
  are the same datagram.\<close>

theorem signed_message_unambiguous:
  assumes "hdr_wf d" and "hdr_wf d'" and "signed_message d e = signed_message d' e'"
  shows "e = e' \<and> payload_bytes d = payload_bytes d'
       \<and> d\<lparr>d_epoch_low := 0, d_records := [], d_raw := []\<rparr>
         = d'\<lparr>d_epoch_low := 0, d_records := [], d_raw := []\<rparr>"
  using assms by (rule signed_message_inj)

theorem signed_message_unambiguous_witness:
  "payload_bytes ((base Heartbeat SipHash24 7 3 9)\<lparr>d_raw := [1]\<rparr>)
   = payload_bytes ((base Heartbeat SipHash24 7 19 9)\<lparr>d_raw := [1]\<rparr>)"
  using signed_message_unambiguous [of "(base Heartbeat SipHash24 7 3 9)\<lparr>d_raw := [1]\<rparr>"
      "(base Heartbeat SipHash24 7 19 9)\<lparr>d_raw := [1]\<rparr>" 3 3]
  by (simp add: signed_message_def auth_header_def header_bytes_def payload_bytes_def hdr_wf_def
      base_def Let_def)

text \<open>The \<open>SERIES\<close> builder succeeds exactly on legal batches, and its payload is the one the parser
  reads back as those readings, at the first reading's instant.\<close>

lemma series_builder_roundtrip:
  "series_datagram c s e scale rs = Ok d
   \<longleftrightarrow> d = (base Series c s e (fst (hd rs)))\<lparr>d_raw := batch_bytes scale rs\<rparr>
       \<and> series_values d = Some (scale, rs)"
proof -
  have "validate_series (batch_bytes scale rs) (fst (hd rs)) = Ok (scale, rs)
      \<longleftrightarrow> scale_is_valid scale \<and> batch_ok rs"
    by (simp add: validate_series_iff)
  then show ?thesis
    by (auto simp: series_datagram_iff series_values_def split: result.splits)
qed

end
