(* ===== verification/Catp_Time.thy ===== *)
theory Catp_Time
  imports Catp_Datagram
begin

text \<open>
  The time-recovery messages of \<open>src/wire.rs\<close>, keyed on the epoch-independent \<open>time_key\<close>: the
  builders \<open>time_request\<close> and \<open>time_announce\<close>, the pinned header of \<open>check_time_header\<close>, and the
  two verifiers. A time in seconds is the 64-bit word of the \<open>i64\<close>.
\<close>

section \<open>Builders\<close>

definition time_datagram :: "msg_type \<Rightarrow> u8 \<Rightarrow> u32 \<Rightarrow> bytes \<Rightarrow> datagram" where
  "time_datagram msg_type reserved sender_id raw =
     \<lparr>d_version = VERSION, d_msg_type = msg_type_u8 msg_type,
      d_cipher_id = cipher_u8 HmacSha256T64, d_epoch_low = 0, d_reserved = reserved,
      d_offset = 0, d_sender_id = sender_id, d_records = [], d_raw = raw\<rparr>"

definition time_announce :: "crypto \<Rightarrow> u32 \<Rightarrow> i64 \<Rightarrow> device_secret \<Rightarrow> (bytes, error) result" where
  "time_announce C sender_id asserted_time secret =
     (let d = time_datagram TimeAnnounce 0 sender_id (be_bytes 8 asserted_time);
          key = time_key C secret sender_id CollectorToNode;
          signed = auth_header d 0 @ d_raw d
      in rbind (mac C HmacSha256T64 key signed 0) (\<lambda>tag.
           Ok (header_bytes d @ d_raw d @ tag)))"

definition time_request :: "crypto \<Rightarrow> u32 \<Rightarrow> device_secret \<Rightarrow> (bytes, error) result" where
  "time_request C sender_id secret =
     (let d = time_datagram TimeRequest 0 sender_id [];
          key = time_key C secret sender_id NodeToCollector
      in rbind (mac C HmacSha256T64 key (auth_header d 0) 0) (\<lambda>tag. Ok (header_bytes d @ tag)))"

section \<open>Verification\<close>

definition check_time_header :: "bytes \<Rightarrow> msg_type \<Rightarrow> u32 \<Rightarrow> (u8, error) result" where
  "check_time_header buf want sender_id =
     rbind (idx buf 0) (\<lambda>b0.
     if drop_bit 5 b0 AND 0x07 \<noteq> VERSION then Err (UnsupportedVersion (drop_bit 5 b0 AND 0x07))
     else if b0 AND 0x1F \<noteq> msg_type_u8 want then Err (BadMsgType (b0 AND 0x1F))
     else rbind (idx buf 1) (\<lambda>b1.
     if drop_bit 4 b1 AND 0x0F \<noteq> cipher_u8 HmacSha256T64
     then Err (CipherMismatch (drop_bit 4 b1 AND 0x0F) (cipher_u8 HmacSha256T64))
     else if b1 AND 0x0F \<noteq> 0 then Err (Framing ''time-recovery epoch_low must be zero'')
     else rbind (idx buf 2) (\<lambda>b2. rbind (idx buf 3) (\<lambda>b3. rbind (idx buf 4) (\<lambda>b4.
     let off = push_bit 16 (ucast (b2 AND 0x07)) OR push_bit 8 (ucast b3) OR ucast b4 :: u32 in
     if off \<noteq> 0 then Err (Framing ''time-recovery datagram_offset must be zero'')
     else rbind (idx buf 5) (\<lambda>b5. rbind (idx buf 6) (\<lambda>b6.
          rbind (idx buf 7) (\<lambda>b7. rbind (idx buf 8) (\<lambda>b8.
     let got = from_be [b5, b6, b7, b8] :: u32 in
     if got \<noteq> sender_id then Err (UnknownSender got)
     else Ok (drop_bit 3 b2 AND 0x1F))))))))))"

definition decode_time_request ::
  "crypto \<Rightarrow> bytes \<Rightarrow> u32 \<Rightarrow> device_secret \<Rightarrow> (unit, error) result" where
  "decode_time_request C buf sender_id secret =
     (let tl = tag_len HmacSha256T64 in
      if length buf \<noteq> HEADER_LEN + tl then Err TooShort
      else rbind (check_time_header buf TimeRequest sender_id) (\<lambda>reserved.
        let d = time_datagram TimeRequest reserved sender_id [];
            key = time_key C secret sender_id NodeToCollector in
        rbind (mac C HmacSha256T64 key (auth_header d 0) 0) (\<lambda>expected.
        rbind (subslice buf HEADER_LEN (length buf)) (\<lambda>tag.
          if \<not> ct_eq C expected tag then Err AuthFailed else Ok ()))))"

definition decode_time_announce ::
  "crypto \<Rightarrow> bytes \<Rightarrow> u32 \<Rightarrow> device_secret \<Rightarrow> (i64, error) result" where
  "decode_time_announce C buf sender_id secret =
     (let tl = tag_len HmacSha256T64 in
      if length buf \<noteq> HEADER_LEN + 8 + tl then Err TooShort
      else rbind (check_time_header buf TimeAnnounce sender_id) (\<lambda>reserved.
        rbind (subslice buf HEADER_LEN (HEADER_LEN + 8)) (\<lambda>payload.
        let d = time_datagram TimeAnnounce reserved sender_id payload;
            key = time_key C secret sender_id CollectorToNode;
            signed = auth_header d 0 @ payload in
        rbind (mac C HmacSha256T64 key signed 0) (\<lambda>expected.
        rbind (subslice buf (HEADER_LEN + 8) (length buf)) (\<lambda>tag.
          if \<not> ct_eq C expected tag then Err AuthFailed else Ok (from_be payload))))))"

section \<open>The pinned header\<close>

lemma length_header_9: "length bs = 9 \<Longrightarrow> take 9 (bs @ cs) = bs"
  by simp

text \<open>
  A header passes the check exactly when it is the canonical one for these five reserved bits,
  which are the only freedom it leaves.
\<close>

lemma time_datagram_wf: "reserved AND 0x1F = reserved \<Longrightarrow> hdr_wf (time_datagram mt reserved s raw)"
  by (simp add: hdr_wf_def time_datagram_def msg_type_u8_field)

lemma check_time_header_parse:
  assumes "9 \<le> length buf"
  shows "check_time_header buf want s = Ok reserved
    \<longleftrightarrow> parse_header buf = Ok (time_datagram want reserved s [])"
proof -
  obtain b0 b1 b2 b3 b4 b5 b6 b7 b8 rest
    where "buf = b0 # b1 # b2 # b3 # b4 # b5 # b6 # b7 # b8 # rest"
    by (rule length_9_cases [OF assms])
  then show ?thesis
    by (simp add: check_time_header_def parse_header_Cons time_datagram_def Let_def) blast
qed

lemma check_time_header_iff:
  assumes "9 \<le> length buf"
  shows "check_time_header buf want s = Ok reserved
    \<longleftrightarrow> reserved AND 0x1F = reserved \<and> take 9 buf = header_bytes (time_datagram want reserved s [])"
proof
  assume "check_time_header buf want s = Ok reserved"
  then have "parse_header buf = Ok (time_datagram want reserved s [])"
    by (simp add: check_time_header_parse [OF assms])
  from parse_header_wf [OF this assms]
  show "reserved AND 0x1F = reserved \<and> take 9 buf = header_bytes (time_datagram want reserved s [])"
    by (simp add: hdr_wf_def time_datagram_def)
next
  assume a: "reserved AND 0x1F = reserved \<and> take 9 buf = header_bytes (time_datagram want reserved s [])"
  let ?d = "time_datagram want reserved s []"
  have "masked_header ?d = ?d"
    using a masked_header_wf [OF time_datagram_wf [of reserved want s "[]"]]
    by (simp add: time_datagram_def)
  moreover have "buf = header_bytes ?d @ drop 9 buf"
    using a by (metis append_take_drop_id)
  ultimately show "check_time_header buf want s = Ok reserved"
    using parse_header_bytes [of ?d "drop 9 buf"] by (simp add: check_time_header_parse [OF assms])
qed

lemma check_time_header_not_Panic [panic_free]:
  "9 \<le> length buf \<Longrightarrow> check_time_header buf want s \<noteq> Panic"
  by (elim length_9_cases) (simp add: check_time_header_def Let_def)

lemma time_header_raw:
  "header_bytes (time_datagram mt r s raw) = header_bytes (time_datagram mt r s [])"
  "auth_header (time_datagram mt r s raw) e = auth_header (time_datagram mt r s []) e"
  by (simp_all add: header_bytes_def auth_header_def time_datagram_def)

section \<open>What the verifiers accept\<close>

definition request_image :: "crypto \<Rightarrow> u8 \<Rightarrow> u32 \<Rightarrow> device_secret \<Rightarrow> bytes" where
  "request_image C reserved s secret =
     (let d = time_datagram TimeRequest reserved s []
      in header_bytes d
         @ tag_of C HmacSha256T64 (time_key C secret s NodeToCollector) (auth_header d 0) 0)"

definition announce_image :: "crypto \<Rightarrow> u8 \<Rightarrow> u32 \<Rightarrow> i64 \<Rightarrow> device_secret \<Rightarrow> bytes" where
  "announce_image C reserved s asserted secret =
     (let d = time_datagram TimeAnnounce reserved s []
      in header_bytes d @ be_bytes 8 asserted
         @ tag_of C HmacSha256T64 (time_key C secret s CollectorToNode)
             (auth_header d 0 @ be_bytes 8 asserted) 0)"

lemma mac_t64: "mac C HmacSha256T64 key msg off = Ok (tag_of C HmacSha256T64 key msg off)"
  by (rule mac_ok) (simp add: mac_fits_def)

lemma time_request_eq: "time_request C s secret = Ok (request_image C 0 s secret)"
  by (simp add: time_request_def request_image_def mac_t64 Let_def)

lemma time_announce_eq: "time_announce C s t secret = Ok (announce_image C 0 s t secret)"
  by (simp add: time_announce_def announce_image_def mac_t64 Let_def
      time_header_raw [of _ _ _ "be_bytes 8 t"])
    (simp add: time_datagram_def)

lemma length_images [simp]:
  "length (request_image C r s secret) = 17" "length (announce_image C r s t secret) = 25"
  by (simp_all add: request_image_def announce_image_def Let_def)

lemma decode_time_request_iff:
  assumes "ct_eq_decides C"
  shows "decode_time_request C buf s secret = Ok ()
    \<longleftrightarrow> (\<exists>reserved. reserved AND 0x1F = reserved \<and> buf = request_image C reserved s secret)"
proof (cases "length buf = 17")
  case True
  then have len: "9 \<le> length buf" by simp
  let ?tag = "\<lambda>r. tag_of C HmacSha256T64 (time_key C secret s NodeToCollector)
      (auth_header (time_datagram TimeRequest r s []) 0) 0"
  have "decode_time_request C buf s secret = Ok ()
     \<longleftrightarrow> (\<exists>r. (r AND 0x1F = r \<and> take 9 buf = header_bytes (time_datagram TimeRequest r s []))
          \<and> ?tag r = drop 9 buf)"
    using True by (simp add: decode_time_request_def Let_def mac_t64 ct_eq_iff [OF assms]
        check_time_header_iff [OF len] del: length_tag_of)
  also have "\<dots> \<longleftrightarrow> (\<exists>r. r AND 0x1F = r \<and> buf = request_image C r s secret)"
  proof -
    have "take 9 buf = header_bytes (time_datagram TimeRequest r s []) \<and> ?tag r = drop 9 buf
        \<longleftrightarrow> buf = request_image C r s secret" for r
      unfolding request_image_def Let_def
      by (metis append_eq_conv_conj length_header_bytes)
    then show ?thesis by (simp only: conj_assoc)
  qed
  finally show ?thesis .
next
  case False
  then show ?thesis by (auto simp: decode_time_request_def Let_def)
qed

lemma from_be_eq_8: "length p = 8 \<Longrightarrow> (from_be p :: 64 word) = t \<longleftrightarrow> p = be_bytes 8 t"
  using be_bytes_from_be [of p, where 'a = 64] from_be_be_bytes_full [of 8 t] by auto

lemma decode_time_announce_iff:
  assumes "ct_eq_decides C"
  shows "decode_time_announce C buf s secret = Ok t
    \<longleftrightarrow> (\<exists>reserved. reserved AND 0x1F = reserved \<and> buf = announce_image C reserved s t secret)"
proof (cases "length buf = 25")
  case True
  then have len: "9 \<le> length buf" by simp
  let ?p = "take 8 (drop 9 buf)"
  let ?tag = "\<lambda>r p. tag_of C HmacSha256T64 (time_key C secret s CollectorToNode)
      (auth_header (time_datagram TimeAnnounce r s []) 0 @ p) 0"
  have "decode_time_announce C buf s secret = Ok t
     \<longleftrightarrow> (\<exists>r. (r AND 0x1F = r \<and> take 9 buf = header_bytes (time_datagram TimeAnnounce r s []))
          \<and> ?tag r ?p = drop 17 buf \<and> from_be ?p = t)"
    using True by (simp add: decode_time_announce_def Let_def mac_t64 ct_eq_iff [OF assms]
        check_time_header_iff [OF len] time_header_raw [of _ _ _ ?p] del: length_tag_of)
  also have "\<dots> \<longleftrightarrow> (\<exists>r. r AND 0x1F = r \<and> buf = announce_image C r s t secret)"
  proof -
    have p: "from_be ?p = t \<longleftrightarrow> ?p = be_bytes 8 t"
      using True by (intro from_be_eq_8) simp
    have split: "buf = h @ q @ g \<longleftrightarrow> take 9 buf = h \<and> ?p = q \<and> drop 17 buf = g"
      if "length h = 9" "length q = 8" for h q g
    proof -
      have "?p @ drop 17 buf = drop 9 buf"
        using append_take_drop_id [of 8 "drop 9 buf"] by (simp add: drop_drop add.commute)
      then have "buf = take 9 buf @ ?p @ drop 17 buf" by (metis append_take_drop_id)
      with that show ?thesis by (auto simp: append_eq_conv_conj drop_drop)
    qed
    have "take 9 buf = header_bytes (time_datagram TimeAnnounce r s [])
          \<and> ?tag r ?p = drop 17 buf \<and> from_be ?p = t
        \<longleftrightarrow> buf = announce_image C r s t secret" for r
      unfolding announce_image_def Let_def p by (subst split) auto
    then show ?thesis by (simp only: conj_assoc)
  qed
  finally show ?thesis .
next
  case False
  then show ?thesis by (auto simp: decode_time_announce_def Let_def)
qed

lemma decode_time_not_Panic [panic_free]:
  "decode_time_request C buf s secret \<noteq> Panic" "decode_time_announce C buf s secret \<noteq> Panic"
  by (auto simp: decode_time_request_def decode_time_announce_def Let_def rbind_eq_Panic
      check_time_header_not_Panic split: if_splits)

section \<open>Properties\<close>

text \<open>A \<open>TIME_REQUEST\<close> is accepted exactly when its 17 bytes are the canonical request of this sender
  (version, type, suite 0x01, zero epoch bits, zero offset, sender id; the five reserved bits free)
  with the tag of the node-to-collector time key; the collector learns nothing else from it.\<close>

lemma time_request_exact:
  assumes "ct_eq_decides C"
  shows "decode_time_request C buf s secret = Ok ()
    \<longleftrightarrow> (\<exists>reserved. reserved AND 0x1F = reserved \<and> buf = request_image C reserved s secret)"
  using assms by (rule decode_time_request_iff)

text \<open>C35: A \<open>TIME_ANNOUNCE\<close> yields a time exactly when its 25 bytes are the canonical announcement of that
  time for this sender under the collector-to-node time key; the builder's output is accepted and
  yields the asserted time, over the whole range of \<open>i64\<close>.\<close>

theorem time_announce_exact:
  assumes "ct_eq_decides C"
  shows "(decode_time_announce C buf s secret = Ok t
      \<longleftrightarrow> (\<exists>reserved. reserved AND 0x1F = reserved \<and> buf = announce_image C reserved s t secret))
    \<and> rbind (time_announce C s t secret) (\<lambda>bytes. decode_time_announce C bytes s secret) = Ok t"
proof -
  have "decode_time_announce C (announce_image C 0 s t secret) s secret = Ok t"
    unfolding decode_time_announce_iff [OF assms] by (rule exI [of _ 0]) simp
  then show ?thesis by (simp add: time_announce_eq decode_time_announce_iff [OF assms])
qed

theorem time_announce_exact_witness:
  "rbind (time_announce demo_crypto 7 1700000000 [1, 2])
     (\<lambda>bytes. decode_time_announce demo_crypto bytes 7 [1, 2]) = Ok 1700000000"
  using time_announce_exact [OF demo_crypto_ct_eq] by blast

end
