(* ===== verification/Catp_Text.thy ===== *)
theory Catp_Text
  imports Catp_Prelude Catp_Codec
begin

text \<open>
  The string operations of the Rust standard library that the provisioning format uses. A \<open>&str\<close> is
  the list of its Unicode scalar values, so that white space and digits are those of Rust; \<open>lit\<close>
  writes a literal.
\<close>

section \<open>Text\<close>

type_synonym ustr = "nat list"

definition lit :: "string \<Rightarrow> ustr" where
  "lit s = map (\<lambda>c. of_char c) s"

text \<open>\<open>str::as_bytes\<close>: the UTF-8 encoding.\<close>

definition byte :: "nat \<Rightarrow> u8" where
  "byte n = of_nat n"

lemma unat_byte [simp]: "n < 256 \<Longrightarrow> unat (byte n) = n"
  by (simp add: byte_def unat_of_nat)

definition utf8 :: "nat \<Rightarrow> bytes" where
  "utf8 c =
     (if c < 0x80 then [byte c]
      else if c < 0x800 then [byte (0xC0 + c div 64), byte (0x80 + c mod 64)]
      else if c < 0x10000
      then [byte (0xE0 + c div 4096), byte (0x80 + c div 64 mod 64), byte (0x80 + c mod 64)]
      else [byte (0xF0 + c div 262144), byte (0x80 + c div 4096 mod 64),
            byte (0x80 + c div 64 mod 64), byte (0x80 + c mod 64)])"

definition as_bytes :: "ustr \<Rightarrow> bytes" where
  "as_bytes s = concat (map utf8 s)"

text \<open>\<open>char::is_whitespace\<close>: the Unicode property \<open>White_Space\<close>.\<close>

definition is_ws :: "nat \<Rightarrow> bool" where
  "is_ws c \<longleftrightarrow> (9 \<le> c \<and> c \<le> 13) \<or> c = 32 \<or> c = 0x85 \<or> c = 0xA0 \<or> c = 0x1680
     \<or> (0x2000 \<le> c \<and> c \<le> 0x200A) \<or> c = 0x2028 \<or> c = 0x2029 \<or> c = 0x202F \<or> c = 0x205F
     \<or> c = 0x3000"

definition trim_start :: "ustr \<Rightarrow> ustr" where
  "trim_start s = dropWhile is_ws s"

definition trim :: "ustr \<Rightarrow> ustr" where
  "trim s = rev (trim_start (rev (trim_start s)))"

text \<open>\<open>str::lines\<close>: a line ends at a line feed, and then drops one carriage return.\<close>

definition strip_cr :: "ustr \<Rightarrow> ustr" where
  "strip_cr l = (if l \<noteq> [] \<and> last l = 13 then butlast l else l)"

function text_lines :: "ustr \<Rightarrow> ustr list" where
  "text_lines s =
     (if s = [] then []
      else case dropWhile (\<lambda>c. c \<noteq> 10) s of
        [] \<Rightarrow> [s]
      | _ # rest \<Rightarrow> strip_cr (takeWhile (\<lambda>c. c \<noteq> 10) s) # text_lines rest)"
  by pat_completeness auto
termination
proof (relation "measure length")
  fix s x :: ustr and c rest
  assume "dropWhile (\<lambda>c. c \<noteq> 10) s = c # rest"
  then have "length (c # rest) \<le> length s" by (metis length_dropWhile_le)
  then show "(rest, s) \<in> measure length" by simp
qed simp

declare text_lines.simps [simp del]

text \<open>\<open>splitn(2, char::is_whitespace)\<close>: the piece before the first white space, and the rest if any.\<close>

definition splitn_ws :: "ustr \<Rightarrow> ustr \<times> ustr option" where
  "splitn_ws s =
     (takeWhile (\<lambda>c. \<not> is_ws c) s,
      case dropWhile (\<lambda>c. \<not> is_ws c) s of [] \<Rightarrow> None | _ # rest \<Rightarrow> Some rest)"

function split_whitespace :: "ustr \<Rightarrow> ustr list" where
  "split_whitespace s =
     (case trim_start s of
        [] \<Rightarrow> []
      | c # cs \<Rightarrow> takeWhile (\<lambda>c. \<not> is_ws c) (c # cs)
                  # split_whitespace (dropWhile (\<lambda>c. \<not> is_ws c) (c # cs)))"
  by pat_completeness auto
termination
proof (relation "measure length")
  fix s c cs
  assume a: "trim_start s = c # cs"
  then have "\<not> is_ws c" unfolding trim_start_def by (metis hd_dropWhile list.distinct(1) list.sel(1))
  then have "length (dropWhile (\<lambda>c. \<not> is_ws c) (c # cs)) < length (c # cs)"
    by (simp add: le_imp_less_Suc length_dropWhile_le)
  also have "\<dots> \<le> length s" using a unfolding trim_start_def by (metis length_dropWhile_le)
  finally show "(dropWhile (\<lambda>c. \<not> is_ws c) (c # cs), s) \<in> measure length" by simp
qed simp

declare split_whitespace.simps [simp del]

text \<open>\<open>str::split\<close> and \<open>str::split_once\<close> at one character.\<close>

function split_char :: "nat \<Rightarrow> ustr \<Rightarrow> ustr list" where
  "split_char c s =
     (case dropWhile (\<lambda>x. x \<noteq> c) s of
        [] \<Rightarrow> [s]
      | _ # rest \<Rightarrow> takeWhile (\<lambda>x. x \<noteq> c) s # split_char c rest)"
  by pat_completeness auto
termination
proof (relation "measure (\<lambda>(c, s). length s)")
  fix c :: nat and s x rest
  assume "dropWhile (\<lambda>x. x \<noteq> c) s = x # rest"
  then have "length (x # rest) \<le> length s" by (metis length_dropWhile_le)
  then show "((c, rest), c, s) \<in> measure (\<lambda>(c, s). length s)" by simp
qed simp

declare split_char.simps [simp del]

definition split_once :: "nat \<Rightarrow> ustr \<Rightarrow> (ustr \<times> ustr) option" where
  "split_once c s =
     (case dropWhile (\<lambda>x. x \<noteq> c) s of
        [] \<Rightarrow> None
      | _ # rest \<Rightarrow> Some (takeWhile (\<lambda>x. x \<noteq> c) s, rest))"

section \<open>Numbers\<close>

definition hex_value :: "nat \<Rightarrow> nat option" where
  "hex_value c =
     (if 48 \<le> c \<and> c \<le> 57 then Some (c - 48)
      else if 97 \<le> c \<and> c \<le> 102 then Some (c - 97 + 10)
      else if 65 \<le> c \<and> c \<le> 70 then Some (c - 65 + 10)
      else None)"

text \<open>
  \<open>from_str_radix(s, radix)\<close> at an unsigned type of \<open>bits\<close> bits: an optional plus sign, then one or more
  digits whose value does not overflow. At radix 10 it is \<open>str::parse\<close>.
\<close>

definition to_digit :: "nat \<Rightarrow> nat \<Rightarrow> nat option" where
  "to_digit radix c =
     (case hex_value c of None \<Rightarrow> None | Some d \<Rightarrow> if d < radix then Some d else None)"

fun radix_loop :: "nat \<Rightarrow> nat \<Rightarrow> ustr \<Rightarrow> nat \<Rightarrow> nat option" where
  "radix_loop radix bound [] acc = Some acc"
| "radix_loop radix bound (c # cs) acc =
     (case to_digit radix c of
        None \<Rightarrow> None
      | Some d \<Rightarrow>
          if acc * radix + d < bound then radix_loop radix bound cs (acc * radix + d) else None)"

definition from_str_radix :: "nat \<Rightarrow> nat \<Rightarrow> ustr \<Rightarrow> nat option" where
  "from_str_radix radix bits s =
     (if s = [] \<or> s = [43] \<or> s = [45] then None
      else if hd s = 43 then radix_loop radix (2 ^ bits) (tl s) 0
      else radix_loop radix (2 ^ bits) s 0)"

text \<open>\<open>str::parse\<close> at a signed type of \<open>bits\<close> bits.\<close>

definition parse_signed :: "nat \<Rightarrow> ustr \<Rightarrow> int option" where
  "parse_signed bits s =
     (if s = [] \<or> s = [43] \<or> s = [45] then None
      else if hd s = 45 then map_option (\<lambda>n. - int n) (radix_loop 10 (2 ^ (bits - 1) + 1) (tl s) 0)
      else if hd s = 43 then map_option int (radix_loop 10 (2 ^ (bits - 1)) (tl s) 0)
      else map_option int (radix_loop 10 (2 ^ (bits - 1)) s 0))"

text \<open>The decimal digits of \<open>to_string\<close>.\<close>

function dec :: "nat \<Rightarrow> ustr" where
  "dec n = (if n < 10 then [48 + n] else dec (n div 10) @ [48 + n mod 10])"
  by pat_completeness auto
termination
  by (relation "measure id") auto

declare dec.simps [simp del]

definition dec_int :: "int \<Rightarrow> ustr" where
  "dec_int i = (if i < 0 then 45 # dec (nat (- i)) else dec (nat i))"

text \<open>\<open>{:02x}\<close> of a byte and \<open>{:08x}\<close> of a 32-bit word.\<close>

definition hex_digit :: "nat \<Rightarrow> nat" where
  "hex_digit d = (if d < 10 then 48 + d else 87 + d)"

definition hex2 :: "u8 \<Rightarrow> ustr" where
  "hex2 b = [hex_digit (unat b div 16), hex_digit (unat b mod 16)]"

definition hex8 :: "u32 \<Rightarrow> ustr" where
  "hex8 w = concat (map hex2 (be_bytes 4 w))"

section \<open>Facts\<close>

lemma hex_value_digit [simp]: "d < 16 \<Longrightarrow> hex_value (hex_digit d) = Some d"
  by (auto simp: hex_value_def hex_digit_def)

lemma to_digit_hex [simp]: "d < 16 \<Longrightarrow> to_digit 16 (hex_digit d) = Some d"
  by (simp add: to_digit_def)

lemma hex_digit_plain [simp]:
  "d < 16 \<Longrightarrow> \<not> is_ws (hex_digit d)" "d < 16 \<Longrightarrow> hex_digit d \<noteq> 10"
  "d < 16 \<Longrightarrow> hex_digit d \<noteq> 43" "d < 16 \<Longrightarrow> hex_digit d \<noteq> 45" "d < 16 \<Longrightarrow> hex_digit d \<noteq> 13"
  by (auto simp: is_ws_def hex_digit_def)

lemma nibbles [simp]: "unat (b :: u8) div 16 < 16" "unat (b :: u8) mod 16 < 16"
  using unat_u8_less [of b] by (simp_all add: less_mult_imp_div_less)

definition plain :: "ustr \<Rightarrow> bool" where
  "plain s \<longleftrightarrow> s \<noteq> [] \<and> (\<forall>c \<in> set s. \<not> is_ws c)"

lemma plain_hex2 [simp]: "plain (hex2 b)"
  by (simp add: plain_def hex2_def)

lemma length_hex2 [simp]: "length (hex2 b) = 2"
  by (simp add: hex2_def)

lemma plain_concat_hex2 [simp]: "bs \<noteq> [] \<Longrightarrow> plain (concat (map hex2 bs))"
  by (cases bs) (auto simp: plain_def hex2_def)

lemma plain_hex8 [simp]: "plain (hex8 w)"
  by (simp add: hex8_def)

text \<open>The value of a digit string, and reading back what was printed.\<close>

lemma radix_loop_bytes:
  assumes "acc * 256 ^ length bs + 256 ^ length bs \<le> bound"
  shows "radix_loop 16 bound (concat (map hex2 bs)) acc
       = Some (foldl (\<lambda>a b. a * 256 + unat b) acc bs)"
  using assms
proof (induction bs arbitrary: acc)
  case (Cons b bs)
  have b: "unat b < 256" by (rule unat_u8_less)
  have step: "(acc * 16 + unat b div 16) * 16 + unat b mod 16 = acc * 256 + unat b"
    using div_mult_mod_eq [of "unat b" 16] by simp
  have p: "(1 :: nat) \<le> 256 ^ length bs" by simp
  have "(acc * 256 + unat b + 1) * 256 ^ length bs \<le> (acc * 256 + 256) * 256 ^ length bs"
    using b by (intro mult_le_mono1) simp
  also have "\<dots> \<le> bound" using Cons.prems by (simp add: algebra_simps)
  finally have up: "(acc * 256 + unat b + 1) * 256 ^ length bs \<le> bound" .
  have lt: "acc * 256 + unat b < bound"
    using up mult_le_mono2 [OF p, of "acc * 256 + unat b + 1"] by simp
  then have "acc * 16 + unat b div 16 < bound"
    using step by simp
  with Cons.IH [of "acc * 256 + unat b"] up lt step show ?case
    by (simp add: hex2_def algebra_simps)
qed simp

lemma be_bytes_value:
  "foldl (\<lambda>a b. a * 256 + unat b) acc (be_bytes n w) = acc * 256 ^ n + unat w mod 256 ^ n"
proof (induction n arbitrary: acc)
  case (Suc n)
  have p: "(2 :: nat) ^ (8 * n) = 256 ^ n" by (simp add: power_mult)
  have "unat (ucast (drop_bit (8 * n) w) :: u8) = unat w div 256 ^ n mod 256"
  proof -
    have "unat (drop_bit (8 * n) w) = drop_bit (8 * n) (unat w)"
      by (rule bit_eqI) (auto simp: bit_simps dest: bit_imp_le_length)
    then have "unat (drop_bit (8 * n) w) = unat w div 256 ^ n"
      by (simp only: drop_bit_eq_div p)
    then show ?thesis by (simp only: unat_ucast_mod) simp
  qed
  moreover have "unat w mod 256 ^ Suc n = (unat w div 256 ^ n mod 256) * 256 ^ n + unat w mod 256 ^ n"
    using mod_mult2_eq [of "unat w" "256 ^ n" 256] by (simp add: mult.commute)
  ultimately have "acc * 256 ^ Suc n + unat w mod 256 ^ Suc n
      = (acc * 256 + unat (ucast (drop_bit (8 * n) w) :: u8)) * 256 ^ n + unat w mod 256 ^ n"
    by (simp add: algebra_simps)
  then show ?case by (simp add: Suc)
qed simp

lemma hex8_shape: "hex8 w = hex_digit (unat (be_bytes 4 w ! 0) div 16) # tl (hex8 w) \<and> tl (hex8 w) \<noteq> []"
  by (simp add: hex8_def hex2_def byte_simps)

lemma from_str_radix_hex8: "from_str_radix 16 32 (hex8 w) = Some (unat w)"
proof -
  have "radix_loop 16 (2 ^ 32) (hex8 w) 0 = Some (unat w)"
    unfolding hex8_def using unat_u32_less [of w]
    by (subst radix_loop_bytes) (simp_all add: be_bytes_value)
  moreover have "hd (hex8 w) \<noteq> 43" "hex8 w \<noteq> []" "hex8 w \<noteq> [43]" "hex8 w \<noteq> [45]"
    using hex8_shape [of w] by (metis hex_digit_plain(3) list.sel(1) nibbles(1), auto)
  ultimately show ?thesis by (simp add: from_str_radix_def)
qed

lemma from_str_radix_hex2: "from_str_radix 16 8 (hex2 b) = Some (unat b)"
proof -
  have "radix_loop 16 (2 ^ 8) (hex2 b) 0 = Some (unat b)"
    using radix_loop_bytes [of 0 "[b]" "2 ^ 8"] by simp
  then show ?thesis by (simp add: from_str_radix_def hex2_def)
qed

text \<open>Lines and fields that print and read back.\<close>

lemma text_lines_Nil [simp]: "text_lines [] = []"
  by (simp add: text_lines.simps)

lemma text_lines_line: "10 \<notin> set l \<Longrightarrow> text_lines (l @ 10 # r) = strip_cr l # text_lines r"
proof -
  assume "10 \<notin> set l"
  then have "takeWhile (\<lambda>c. c \<noteq> 10) (l @ 10 # r) = l \<and> dropWhile (\<lambda>c. c \<noteq> 10) (l @ 10 # r) = 10 # r"
    by (induction l) auto
  then show ?thesis by (subst text_lines.simps) simp
qed

text \<open>Decimal numbers read back.\<close>

lemma to_digit_dec [simp]: "d < 10 \<Longrightarrow> to_digit 10 (48 + d) = Some d"
  by (simp add: to_digit_def hex_value_def)

lemma radix_loop_dec:
  "n < bound \<Longrightarrow> radix_loop 10 bound (dec n @ s) 0 = radix_loop 10 bound s n"
proof (induction n arbitrary: s rule: dec.induct)
  case (1 n)
  show ?case
  proof (cases "n < 10")
    case True
    with "1.prems" show ?thesis by (subst dec.simps) simp
  next
    case False
    then have "n div 10 < n" by (simp add: div_less_dividend)
    with False "1.IH" [of "(48 + n mod 10) # s"] "1.prems" show ?thesis
      by (subst dec.simps) (simp add: mult.commute)
  qed
qed

lemma dec_digits: "c \<in> set (dec n) \<Longrightarrow> 48 \<le> c \<and> c \<le> 57"
proof (induction n rule: dec.induct)
  case (1 n)
  then show ?case by (subst (asm) (2) dec.simps) (auto split: if_splits)
qed

lemma dec_nonempty [simp]: "dec n \<noteq> []"
  by (subst dec.simps) simp

lemma dec_head: "48 \<le> hd (dec n) \<and> hd (dec n) \<le> 57"
  by (rule dec_digits [OF hd_in_set]) simp

lemma parse_dec: "n < 2 ^ bits \<Longrightarrow> from_str_radix 10 bits (dec n) = Some n"
  using radix_loop_dec [of n "2 ^ bits" "[]"] dec_head [of n] by (auto simp: from_str_radix_def)

lemma parse_dec_int:
  assumes "- (2 ^ (bits - 1)) \<le> i" and "i < 2 ^ (bits - 1)"
  shows "parse_signed bits (dec_int i) = Some i"
proof (cases "i < 0")
  case True
  then have "nat (- i) < 2 ^ (bits - 1) + 1" using assms(1) by (simp add: nat_less_iff)
  from radix_loop_dec [OF this, of "[]"] True show ?thesis
    by (simp add: parse_signed_def dec_int_def)
next
  case False
  then have "nat i < 2 ^ (bits - 1)" using assms(2) by (simp add: nat_less_iff)
  from radix_loop_dec [OF this, of "[]"] dec_head [of "nat i"] False show ?thesis
    by (auto simp: parse_signed_def dec_int_def)
qed

end
