(* ===== verification/Catp_Utf8.thy ===== *)
theory Catp_Utf8
  imports Catp_Text
begin

text \<open>
  UTF-8 as the Rust standard library reads it: \<open>String::from_utf8\<close> (inside \<open>fs::read_to_string\<close>),
  which refuses malformed bytes, and \<open>String::from_utf8_lossy\<close>, which replaces each maximal malformed
  part by U+FFFD. Both scan the same steps.
\<close>

section \<open>One step\<close>

datatype utf8_step = Scalar nat nat | Bad nat

definition is_cont :: "u8 \<Rightarrow> bool" where
  "is_cont b \<longleftrightarrow> 0x80 \<le> b \<and> b \<le> 0xBF"

definition second_of_3 :: "u8 \<Rightarrow> u8 \<Rightarrow> bool" where
  "second_of_3 a b \<longleftrightarrow>
     (if a = 0xE0 then 0xA0 \<le> b \<and> b \<le> 0xBF
      else if a = 0xED then 0x80 \<le> b \<and> b \<le> 0x9F else is_cont b)"

definition second_of_4 :: "u8 \<Rightarrow> u8 \<Rightarrow> bool" where
  "second_of_4 a b \<longleftrightarrow>
     (if a = 0xF0 then 0x90 \<le> b \<and> b \<le> 0xBF
      else if a = 0xF4 then 0x80 \<le> b \<and> b \<le> 0x8F else is_cont b)"

text \<open>A scalar value with its length, or the length of the malformed part.\<close>

definition utf8_tail :: "u8 \<Rightarrow> nat" where
  "utf8_tail b = unat b - 0x80"

definition utf8_next :: "bytes \<Rightarrow> utf8_step" where
  "utf8_next bs = (case bs of
     [] \<Rightarrow> Bad 0
   | a # r \<Rightarrow>
       if a < 0x80 then Scalar (unat a) 1
       else if 0xC2 \<le> a \<and> a \<le> 0xDF then
         (case r of [] \<Rightarrow> Bad 1
          | b # _ \<Rightarrow>
              if is_cont b then Scalar ((unat a - 0xC0) * 64 + utf8_tail b) 2 else Bad 1)
       else if 0xE0 \<le> a \<and> a \<le> 0xEF then
         (case r of [] \<Rightarrow> Bad 1
          | b # r \<Rightarrow>
              if \<not> second_of_3 a b then Bad 1
              else (case r of [] \<Rightarrow> Bad 2
                | c # _ \<Rightarrow>
                    if is_cont c
                    then Scalar ((unat a - 0xE0) * 4096 + utf8_tail b * 64 + utf8_tail c) 3
                    else Bad 2))
       else if 0xF0 \<le> a \<and> a \<le> 0xF4 then
         (case r of [] \<Rightarrow> Bad 1
          | b # r \<Rightarrow>
              if \<not> second_of_4 a b then Bad 1
              else (case r of [] \<Rightarrow> Bad 2
                | c # r \<Rightarrow>
                    if \<not> is_cont c then Bad 2
                    else (case r of [] \<Rightarrow> Bad 3
                      | d # _ \<Rightarrow>
                          if is_cont d
                          then Scalar ((unat a - 0xF0) * 262144 + utf8_tail b * 4096
                                 + utf8_tail c * 64 + utf8_tail d) 4
                          else Bad 3)))
       else Bad 1)"

lemmas utf8_next_defs = utf8_next_def is_cont_def second_of_3_def second_of_4_def utf8_tail_def

definition scalar :: "nat \<Rightarrow> bool" where
  "scalar c \<longleftrightarrow> c < 0xD800 \<or> 0xE000 \<le> c \<and> c \<le> 0x10FFFF"

section \<open>Scanning\<close>

lemma utf8_next_progress:
  "bs \<noteq> [] \<Longrightarrow> utf8_next bs = Scalar c n \<Longrightarrow> 0 < n"
  "bs \<noteq> [] \<Longrightarrow> utf8_next bs = Bad n \<Longrightarrow> 0 < n"
  by (auto simp: utf8_next_def split: list.splits if_splits)

function utf8_scan :: "bytes \<Rightarrow> nat option list" where
  "utf8_scan bs =
     (if bs = [] then []
      else case utf8_next bs of
        Scalar c n \<Rightarrow> Some c # utf8_scan (drop n bs)
      | Bad n \<Rightarrow> None # utf8_scan (drop n bs))"
  by pat_completeness auto
termination
  by (relation "measure length") (simp_all add: utf8_next_progress)

declare utf8_scan.simps [simp del]

text \<open>\<open>String::from_utf8\<close> and \<open>String::from_utf8_lossy\<close>.\<close>

definition from_utf8 :: "bytes \<Rightarrow> (ustr, unit) result" where
  "from_utf8 bs =
     (if None \<in> set (utf8_scan bs) then Err () else Ok (map the (utf8_scan bs)))"

definition from_utf8_lossy :: "bytes \<Rightarrow> ustr" where
  "from_utf8_lossy bs = map (\<lambda>c. case c of None \<Rightarrow> 0xFFFD | Some c \<Rightarrow> c) (utf8_scan bs)"

section \<open>Encoding and decoding\<close>

lemma byte_le_iff: "a \<le> (b :: u8) \<longleftrightarrow> unat a \<le> unat b" "a < (b :: u8) \<longleftrightarrow> unat a < unat b"
  "a = (b :: u8) \<longleftrightarrow> unat a = unat b"
  by (simp_all add: word_le_nat_alt word_less_nat_alt word_unat_eq_iff)

lemma utf8_next_1: "c < 128 \<Longrightarrow> utf8_next (byte c # r) = Scalar c 1"
  by (simp add: utf8_next_def byte_le_iff)

lemma utf8_next_2:
  "2 \<le> x \<Longrightarrow> x < 32 \<Longrightarrow> y < 64 \<Longrightarrow>
   utf8_next (byte (192 + x) # byte (128 + y) # r) = Scalar (x * 64 + y) 2"
  by (simp add: utf8_next_defs byte_le_iff)

lemma utf8_next_3:
  "x < 16 \<Longrightarrow> y < 64 \<Longrightarrow> z < 64 \<Longrightarrow> (x = 0 \<longrightarrow> 32 \<le> y) \<Longrightarrow> (x = 13 \<longrightarrow> y \<le> 31) \<Longrightarrow>
   utf8_next (byte (224 + x) # byte (128 + y) # byte (128 + z) # r) = Scalar (x * 4096 + y * 64 + z) 3"
  by (simp add: utf8_next_defs byte_le_iff)

lemma utf8_next_4:
  "x < 5 \<Longrightarrow> y < 64 \<Longrightarrow> z < 64 \<Longrightarrow> w < 64 \<Longrightarrow> (x = 0 \<longrightarrow> 16 \<le> y) \<Longrightarrow> (x = 4 \<longrightarrow> y \<le> 15) \<Longrightarrow>
   utf8_next (byte (240 + x) # byte (128 + y) # byte (128 + z) # byte (128 + w) # r)
   = Scalar (x * 262144 + y * 4096 + z * 64 + w) 4"
  by (simp add: utf8_next_defs byte_le_iff)

text \<open>The base-64 digits of a scalar value.\<close>

lemma base_64:
  fixes c :: nat
  shows "c div 64 * 64 + c mod 64 = c" "c div 4096 * 64 + c div 64 mod 64 = c div 64"
    "c div 262144 * 64 + c div 4096 mod 64 = c div 4096"
    "c mod 64 < 64" "c div 64 mod 64 < 64" "c div 4096 mod 64 < 64"
  using div_mult_mod_eq [of c 64] div_mult_mod_eq [of "c div 64" 64]
    div_mult_mod_eq [of "c div 4096" 64]
  by (simp_all add: div_mult2_eq [of c 64 64, simplified] div_mult2_eq [of c 4096 64, simplified])

lemma utf8_next_utf8:
  assumes "scalar c"
  shows "utf8_next (utf8 c @ r) = Scalar c (length (utf8 c))"
proof -
  note b = base_64 [of c]
  consider "c < 0x80" | "0x80 \<le> c" "c < 0x800" | "0x800 \<le> c" "c < 0x10000" | "0x10000 \<le> c" by linarith
  then show ?thesis
  proof cases
    case 1
    then show ?thesis by (simp add: utf8_def utf8_next_1)
  next
    case 2
    have "2 \<le> c div 64" "c div 64 < 32" using b(1,4) 2 by linarith+
    from utf8_next_2 [OF this b(4)] b(1) 2 show ?thesis by (simp add: utf8_def)
  next
    case 3
    have "c div 4096 < 16" "c div 4096 = 0 \<longrightarrow> 32 \<le> c div 64 mod 64" using b 3 by linarith+
    moreover have "c div 4096 = 13 \<longrightarrow> c div 64 mod 64 \<le> 31"
      using b 3 assms unfolding scalar_def by linarith
    moreover have "c div 4096 * 4096 + c div 64 mod 64 * 64 + c mod 64 = c" using b by linarith
    ultimately show ?thesis
      using utf8_next_3 [of "c div 4096" "c div 64 mod 64" "c mod 64" r] b(4,5) 3
      by (simp add: utf8_def)
  next
    case 4
    have "c div 262144 < 5" "c div 262144 = 4 \<longrightarrow> c div 4096 mod 64 \<le> 15"
      using b assms unfolding scalar_def by linarith+
    moreover have "c div 262144 = 0 \<longrightarrow> 16 \<le> c div 4096 mod 64" using b 4 by linarith
    moreover have "c div 262144 * 262144 + c div 4096 mod 64 * 4096 + c div 64 mod 64 * 64 + c mod 64 = c"
      using b by linarith
    ultimately show ?thesis
      using utf8_next_4 [of "c div 262144" "c div 4096 mod 64" "c div 64 mod 64" "c mod 64" r] b(4-6) 4
      by (simp add: utf8_def)
  qed
qed

lemma utf8_nonempty [simp]: "utf8 c \<noteq> []"
  by (simp add: utf8_def)

text \<open>Decoding reads back what \<open>as_bytes\<close> wrote.\<close>

definition utf8_dec :: "bytes \<Rightarrow> (nat \<times> nat, unit) result" where
  "utf8_dec bs = (case utf8_next bs of Scalar c n \<Rightarrow> Ok (c, n) | Bad n \<Rightarrow> Err ())"

interpretation utf8: stream_decoder scalar utf8 utf8_dec from_utf8
proof
  show "utf8_dec (utf8 c @ ys) = Ok (c, length (utf8 c))" if "scalar c" for c ys
    by (simp add: utf8_dec_def utf8_next_utf8 that)
  show "from_utf8 [] = Ok []" by (simp add: from_utf8_def utf8_scan.simps)
  fix bs :: bytes and c n
  assume "bs \<noteq> []" "utf8_dec bs = Ok (c, n)"
  then have "utf8_scan bs = Some c # utf8_scan (drop n bs)"
    by (subst utf8_scan.simps) (simp add: utf8_dec_def split: utf8_step.splits)
  then show "from_utf8 bs = rmap (\<lambda>cs. c # cs) (from_utf8 (drop n bs))"
    by (simp add: from_utf8_def)
qed simp

lemma from_utf8_as_bytes: "\<forall>c \<in> set s. scalar c \<Longrightarrow> from_utf8 (as_bytes s) = Ok s"
  unfolding as_bytes_def by (rule utf8.dec_all_enc)

lemma from_utf8_lossy_ok: "from_utf8 bs = Ok s \<Longrightarrow> from_utf8_lossy bs = s"
  by (auto simp: from_utf8_def from_utf8_lossy_def split: if_splits option.splits)

lemma from_utf8_lossy_as_bytes: "\<forall>c \<in> set s. scalar c \<Longrightarrow> from_utf8_lossy (as_bytes s) = s"
  by (rule from_utf8_lossy_ok) (rule from_utf8_as_bytes)

lemma from_utf8_not_Panic [simp]: "from_utf8 bs \<noteq> Panic"
  by (simp add: from_utf8_def)

text \<open>ASCII text is its own encoding.\<close>

lemma ascii_scalar: "c < 128 \<Longrightarrow> scalar c"
  by (simp add: scalar_def)

lemma hex_digit_ascii [simp]: "d < 16 \<Longrightarrow> hex_digit d < 128"
  by (simp add: hex_digit_def)

lemma lit_ascii_iff: "(\<forall>c \<in> set (lit s). c < 128) \<longleftrightarrow> list_all (\<lambda>c. of_char c < (128 :: nat)) s"
  by (simp add: lit_def list_all_iff)

lemma as_bytes_ascii: "\<forall>c \<in> set s. c < 128 \<Longrightarrow> as_bytes s = map byte s"
  by (induction s) (simp_all add: as_bytes_def utf8_def)

end
