(* ===== verification/Catp_Epoch.thy ===== *)
theory Catp_Epoch
  imports Catp_Types
begin

text \<open>
  The epoch arithmetic of \<open>src/lib.rs\<close>: \<open>epoch_id_at\<close>, \<open>epoch_offset_at\<close> and
  \<open>reconstruct_epoch\<close>, at the source's integer widths. The lemmas relate the two clock
  functions to one absolute tick count, and the 4-bit epoch field to the two-epoch window.
\<close>

section \<open>Definitions\<close>

definition epoch_id_at :: "u64 \<Rightarrow> u32" where
  "epoch_id_at unix_secs = ucast (unix_secs div EPOCH_SECS)"

definition epoch_offset_at :: "u64 \<Rightarrow> u32 \<Rightarrow> u32" where
  "epoch_offset_at unix_secs nanos =
     (let into_epoch = unix_secs mod EPOCH_SECS;
          ticks = into_epoch * TICKS_PER_SEC + (ucast nanos * TICKS_PER_SEC) div 1000000000
      in ucast (ticks mod ucast TICKS_PER_EPOCH))"

definition reconstruct_epoch :: "u32 \<Rightarrow> u8 \<Rightarrow> u32 option" where
  "reconstruct_epoch local_epoch epoch_low =
     (let low = epoch_low AND 0x0F in
      if (ucast (local_epoch AND 0x0F) :: u8) = low then Some local_epoch
      else if 0 < local_epoch \<and> (ucast ((local_epoch - 1) AND 0x0F) :: u8) = low
      then Some (local_epoch - 1)
      else None)"

section \<open>Clock to epoch and offset\<close>

text \<open>The absolute tick an \<open>(epoch, offset)\<close> pair names.\<close>

definition abs_tick :: "u32 \<Rightarrow> u32 \<Rightarrow> nat" where
  "abs_tick epoch off = unat epoch * 524288 + unat off"


lemma unat_epoch_id_at: "unat (epoch_id_at s) = (unat s div 128) mod 2 ^ 32"
  by (simp add: epoch_id_at_def unat_div unat_ucast_mod)

lemma unat_epoch_offset_at:
  "unat (epoch_offset_at s n)
   = ((unat s mod 128) * 4096 + unat n * 4096 div 1000000000) mod 524288"
proof -
  have n: "unat n < 4294967296" by (rule unat_u32_less)
  have into: "unat (s mod 128 * 4096) = unat s mod 128 * 4096"
    by (simp add: unat_word_ariths unat_mod)
  have sub: "unat ((ucast n :: u64) * 4096) = unat n * 4096"
    using n by (simp add: unat_word_ariths unat_ucast_mod)
  have "unat (s mod 128 * 4096 + (ucast n :: u64) * 4096 div 1000000000)
      = unat s mod 128 * 4096 + unat n * 4096 div 1000000000"
    using n by (simp add: unat_word_ariths(1) into sub unat_div)
  then show ?thesis
    by (simp add: epoch_offset_at_def Let_def unat_ucast_mod unat_mod)
qed

lemma epoch_offset_bound: "unat (epoch_offset_at s n) < 524288"
  by (simp add: unat_epoch_offset_at)

text \<open>
  The two functions applied to one clock reading give the absolute tick of that reading, for
  every clock value whose epoch fits 32 bits.
\<close>

definition clock_tick :: "u64 \<Rightarrow> u32 \<Rightarrow> nat" where
  "clock_tick s n = (unat s * 1000000000 + unat n) * 4096 div 1000000000"

lemma abs_tick_at:
  assumes "unat s < 2 ^ 39" and "unat n < 1000000000"
  shows "abs_tick (epoch_id_at s) (epoch_offset_at s n) = clock_tick s n"
proof -
  have frac: "unat n * 4096 div 1000000000 < 4096" using assms(2) by simp
  have total: "clock_tick s n = unat s * 4096 + unat n * 4096 div 1000000000"
  proof -
    have "(unat s * 1000000000 + unat n) * 4096
        = 1000000000 * (unat s * 4096) + unat n * 4096" by simp
    then show ?thesis
      unfolding clock_tick_def by (metis div_mult_self4 zero_neq_numeral)
  qed
  have "unat s mod 128 * 4096 + unat n * 4096 div 1000000000 < 524288"
    using frac mod_less_divisor [of 128 "unat s"] by linarith
  then have off: "unat (epoch_offset_at s n)
      = unat s mod 128 * 4096 + unat n * 4096 div 1000000000"
    by (simp only: unat_epoch_offset_at mod_less)
  have ep: "unat (epoch_id_at s) = unat s div 128"
    using assms(1) by (simp add: unat_epoch_id_at)
  have "unat s div 128 * 524288 + unat s mod 128 * 4096 = unat s * 4096"
    using div_mult_mod_eq [of "unat s" 128] by linarith
  then show ?thesis
    by (simp only: abs_tick_def off ep total)
qed

lemma abs_tick_inj:
  assumes "unat off < 524288" and "unat off' < 524288"
  shows "abs_tick e off = abs_tick e' off' \<longleftrightarrow> e = e' \<and> off = off'"
proof
  assume eq: "abs_tick e off = abs_tick e' off'"
  have "unat e = abs_tick e off div 524288" "unat e' = abs_tick e' off' div 524288"
    using assms by (simp_all add: abs_tick_def)
  with eq have "e = e'" by (simp add: word_unat_eq_iff)
  moreover from this eq have "unat off = unat off'" by (simp add: abs_tick_def)
  ultimately show "e = e' \<and> off = off'" by (simp add: word_unat_eq_iff)
qed simp

section \<open>The two-epoch acceptance window\<close>

definition in_epoch_window :: "u32 \<Rightarrow> u32 \<Rightarrow> bool" where
  "in_epoch_window local e \<longleftrightarrow> e = local \<or> (0 < local \<and> e = local - 1)"

lemma low_nibble_eq:
  "((ucast (e AND 15) :: u8) = b AND 15) \<longleftrightarrow> unat (e :: u32) mod 16 = unat b mod 16"
proof -
  have "unat e mod 16 < 256" by (rule less_trans [of _ 16]) simp_all
  then show ?thesis
    by (simp only: mask_simps word_unat_eq_iff unat_ucast_mod unat_take_bit_mod) simp
qed

lemma reconstruct_epoch_Some:
  "reconstruct_epoch local low = Some e
   \<longleftrightarrow> in_epoch_window local e \<and> unat e mod 16 = unat low mod 16"
proof -
  have neq: "unat local mod 16 \<noteq> (unat local - 1) mod 16" if "0 < local"
  proof -
    have "unat local \<noteq> 0" using that by (simp add: word_less_nat_alt)
    then obtain m where "unat local = Suc m" using not0_implies_Suc by blast
    then show ?thesis by (simp add: mod_Suc)
  qed
  show ?thesis
  proof (cases "unat local mod 16 = unat low mod 16")
    case True
    then have "reconstruct_epoch local low = Some local"
      by (simp add: reconstruct_epoch_def low_nibble_eq)
    with True neq show ?thesis
      by (auto simp: in_epoch_window_def unat_pred)
  next
    case False
    then show ?thesis
      by (auto simp: reconstruct_epoch_def low_nibble_eq in_epoch_window_def unat_pred)
  qed
qed

lemma in_epoch_window_iff:
  "in_epoch_window local e \<longleftrightarrow> unat e = unat local \<or> Suc (unat e) = unat local"
  by (cases "0 < local")
    (auto simp: in_epoch_window_def word_unat_eq_iff unat_pred word_less_nat_alt)

section \<open>Properties\<close>

text \<open>For every clock reading whose epoch fits 32 bits, the epoch id and the epoch offset derived
  from it name the same absolute 1/4096-second tick as the clock itself, whatever the widths of the
  intermediate words.\<close>

lemma clock_to_epoch_and_offset:
  assumes "unat s < 2 ^ 39" and "unat n < 1000000000"
  shows "abs_tick (epoch_id_at s) (epoch_offset_at s n) = clock_tick s n"
  using assms by (rule abs_tick_at)

text \<open>Epoch reconstruction returns an epoch exactly when it is the local epoch or its predecessor
  and agrees with the four received bits; the two candidates never agree with the same bits, so the
  answer is unique.\<close>

lemma reconstruct_epoch_exact:
  "reconstruct_epoch local low = Some e
   \<longleftrightarrow> (unat e = unat local \<or> Suc (unat e) = unat local) \<and> unat e mod 16 = unat low mod 16"
  by (simp add: reconstruct_epoch_Some in_epoch_window_iff)

end
