(* ===== verification/Catp_Filter.thy ===== *)
theory Catp_Filter
  imports Catp_Prelude
begin

text \<open>
  Interfaces several components implement: a filter that admits each key at most once
  (the replay window, one peer, the whole collector), and the stronger filter that admits only
  keys above its floor (offset pacing, epoch announcements). A filter is a step on its state and
  one input which yields the admitted key, if any; \<open>allowed\<close> is what the caller has to respect.
\<close>

primrec run_keys :: "('s \<Rightarrow> 'i \<Rightarrow> 's \<times> 'k option) \<Rightarrow> 's \<Rightarrow> 'i list \<Rightarrow> 'k list" where
  "run_keys step s [] = []"
| "run_keys step s (i # is) =
     (case step s i of
        (s', None) \<Rightarrow> run_keys step s' is
      | (s', Some k) \<Rightarrow> k # run_keys step s' is)"

primrec run_state :: "('s \<Rightarrow> 'i \<Rightarrow> 's \<times> 'k option) \<Rightarrow> 's \<Rightarrow> 'i list \<Rightarrow> 's" where
  "run_state step s [] = s"
| "run_state step s (i # is) = run_state step (fst (step s i)) is"

primrec run_allowed ::
  "('s \<Rightarrow> 'i \<Rightarrow> 's \<times> 'k option) \<Rightarrow> ('s \<Rightarrow> 'i \<Rightarrow> bool) \<Rightarrow> 's \<Rightarrow> 'i list \<Rightarrow> bool" where
  "run_allowed step allowed s [] = True"
| "run_allowed step allowed s (i # is) =
     (allowed s i \<and> run_allowed step allowed (fst (step s i)) is)"

section \<open>At most once\<close>

text \<open>\<open>rep s S\<close>: in state \<open>s\<close> the keys admitted so far are \<open>S\<close>.\<close>

locale once_filter =
  fixes step :: "'s \<Rightarrow> 'i \<Rightarrow> 's \<times> 'k option"
    and allowed :: "'s \<Rightarrow> 'i \<Rightarrow> bool"
    and rep :: "'s \<Rightarrow> 'k set \<Rightarrow> bool"
  assumes admit_fresh:
      "rep s S \<Longrightarrow> allowed s i \<Longrightarrow> step s i = (s', Some k) \<Longrightarrow> k \<notin> S \<and> rep s' (insert k S)"
    and refuse_keeps:
      "rep s S \<Longrightarrow> allowed s i \<Longrightarrow> step s i = (s', None) \<Longrightarrow> rep s' S"
begin

lemma run_rep:
  "rep s S \<Longrightarrow> run_allowed step allowed s is \<Longrightarrow>
   rep (run_state step s is) (S \<union> set (run_keys step s is))"
proof (induction "is" arbitrary: s S)
  case (Cons i "is")
  obtain s' r where st: "step s i = (s', r)" by (cases "step s i")
  show ?case
  proof (cases r)
    case None
    with st Cons.prems have "rep s' S" by (auto intro: refuse_keeps)
    with None st Cons show ?thesis by simp
  next
    case (Some k)
    with st Cons.prems have "rep s' (insert k S)" using admit_fresh by fastforce
    with Some st Cons.prems Cons.IH [of s' "insert k S"] show ?thesis by simp
  qed
qed simp

lemma run_once:
  "rep s S \<Longrightarrow> run_allowed step allowed s is \<Longrightarrow>
   distinct (run_keys step s is) \<and> set (run_keys step s is) \<inter> S = {}"
proof (induction "is" arbitrary: s S)
  case (Cons i "is")
  obtain s' r where st: "step s i = (s', r)" by (cases "step s i")
  show ?case
  proof (cases r)
    case None
    with st Cons.prems have "rep s' S" by (auto intro: refuse_keeps)
    with None st Cons show ?thesis by simp
  next
    case (Some k)
    with st Cons.prems have "k \<notin> S" and "rep s' (insert k S)"
      using admit_fresh by fastforce+
    with Some st Cons.prems Cons.IH [of s' "insert k S"] show ?thesis by auto
  qed
qed simp

end

section \<open>Strictly increasing\<close>

text \<open>\<open>floor s\<close> bounds the admitted keys from above; a refused input may raise it too.\<close>

locale monotone_filter =
  fixes step :: "'s \<Rightarrow> 'i \<Rightarrow> 's \<times> ('k :: linorder) option"
    and allowed :: "'s \<Rightarrow> 'i \<Rightarrow> bool"
    and floor :: "'s \<Rightarrow> 'k option"
  assumes admit_above:
      "allowed s i \<Longrightarrow> step s i = (s', Some k) \<Longrightarrow>
       floor s' = Some k \<and> (\<forall>f. floor s = Some f \<longrightarrow> f < k)"
    and refuse_floor:
      "allowed s i \<Longrightarrow> step s i = (s', None) \<Longrightarrow> floor s = Some f \<Longrightarrow> \<exists>f'. floor s' = Some f' \<and> f \<le> f'"
begin

lemma run_above_floor:
  "run_allowed step allowed s is \<Longrightarrow>
   sorted_wrt (<) (run_keys step s is)
   \<and> (\<forall>f k. floor s = Some f \<longrightarrow> k \<in> set (run_keys step s is) \<longrightarrow> f < k)"
proof (induction "is" arbitrary: s)
  case (Cons i "is")
  obtain s' r where st: "step s i = (s', r)" by (cases "step s i")
  show ?case
  proof (cases r)
    case None
    with st Cons.prems have "\<exists>f'. floor s' = Some f' \<and> f \<le> f'" if "floor s = Some f" for f
      using that by (auto intro: refuse_floor)
    with None st Cons.prems Cons.IH [of s'] show ?thesis by fastforce
  next
    case (Some k)
    with st Cons.prems have k: "floor s' = Some k" "\<forall>f. floor s = Some f \<longrightarrow> f < k"
      using admit_above by fastforce+
    with Some st Cons.prems Cons.IH [of s'] show ?thesis by fastforce
  qed
qed simp

end

text \<open>A filter that only admits above its floor admits each key at most once.\<close>

sublocale monotone_filter \<subseteq> once_filter step allowed "\<lambda>s S. \<forall>k \<in> S. \<exists>f. floor s = Some f \<and> k \<le> f"
proof
  fix s S i s' k
  assume S: "\<forall>k \<in> S. \<exists>f. floor s = Some f \<and> k \<le> f" and a: "allowed s i"
    and st: "step s i = (s', Some k)"
  from a st have k: "floor s' = Some k" "\<forall>f. floor s = Some f \<longrightarrow> f < k"
    using admit_above by blast+
  with S show "k \<notin> S \<and> (\<forall>k \<in> insert k S. \<exists>f. floor s' = Some f \<and> k \<le> f)"
    by force
next
  fix s S i s'
  assume "\<forall>k \<in> S. \<exists>f. floor s = Some f \<and> k \<le> f" "allowed s i" "step s i = (s', None)"
  then show "\<forall>k \<in> S. \<exists>f. floor s' = Some f \<and> k \<le> f"
    using refuse_floor by (meson order_trans)
qed

end
