(* ===== verification/Catp_Replay.thy ===== *)
theory Catp_Replay
  imports Catp_Types Catp_Filter
begin

text \<open>
  The sliding replay window of \<open>src/lib.rs\<close> (\<open>ReplayWindow\<close>): a bitmap of \<open>WORDS\<close> 64-bit words
  addressed by \<open>tick mod ENTRIES\<close> and the highest offset seen. The const parameter \<open>WORDS\<close> is the
  length of the word list, fixed by every operation; \<open>window_ok\<close> is what the compile-time assertion
  and the type give. A \<open>WORDS\<close> that is a multiple of \<open>2 ^ 26\<close>, for which the
  32-bit \<open>ENTRIES\<close> wraps to 0 and the remainder would panic, is outside the model.
  The abstract specification is the set of all offsets accepted so far.
\<close>

section \<open>The window\<close>

definition DEFAULT_WINDOW_WORDS :: nat where "DEFAULT_WINDOW_WORDS = 64"

record replay_window =
  rw_high :: "u32 option"
  rw_bits :: "u64 list"

definition window_entries :: "u64 list \<Rightarrow> u32" where
  "window_entries bits = of_nat (length bits * 64)"

definition window_new :: "nat \<Rightarrow> replay_window" where
  "window_new words = \<lparr>rw_high = None, rw_bits = replicate words 0\<rparr>"

definition one_second :: replay_window where
  "one_second = window_new DEFAULT_WINDOW_WORDS"

definition tick_index :: "u64 list \<Rightarrow> u32 \<Rightarrow> nat" where
  "tick_index bits off = unat (off mod window_entries bits)"

definition mark :: "u32 \<Rightarrow> u64 list \<Rightarrow> u64 list" where
  "mark off bits =
     (let i = tick_index bits off
      in bits[i div 64 := (bits ! (i div 64)) OR push_bit (i mod 64) 1])"

definition unmark :: "u32 \<Rightarrow> u64 list \<Rightarrow> u64 list" where
  "unmark off bits =
     (let i = tick_index bits off
      in bits[i div 64 := (bits ! (i div 64)) AND NOT (push_bit (i mod 64) 1)])"

definition seen :: "u64 list \<Rightarrow> u32 \<Rightarrow> bool" where
  "seen bits off =
     (let i = tick_index bits off
      in (bits ! (i div 64)) AND push_bit (i mod 64) 1 \<noteq> 0)"

text \<open>The loop \<open>for i in 1..=advance\<close> that clears the span slid past.\<close>

definition clear_span :: "u32 \<Rightarrow> u32 \<Rightarrow> u64 list \<Rightarrow> u64 list" where
  "clear_span hi advance bits =
     fold (\<lambda>i. unmark (hi + of_nat i)) [1..<Suc (unat advance)] bits"

definition check_and_set :: "replay_window \<Rightarrow> u32 \<Rightarrow> (unit, error) result \<times> replay_window" where
  "check_and_set w off =
     (case rw_high w of
        None \<Rightarrow> (Ok (), w\<lparr>rw_high := Some off, rw_bits := mark off (rw_bits w)\<rparr>)
      | Some hi \<Rightarrow>
          if hi < off then
            (let advance = min (off - hi) (window_entries (rw_bits w));
                 bits = clear_span hi advance (rw_bits w)
             in (Ok (), w\<lparr>rw_high := Some off, rw_bits := mark off bits\<rparr>))
          else if window_entries (rw_bits w) \<le> hi - off then (Err Replay, w)
          else if seen (rw_bits w) off then (Err Replay, w)
          else (Ok (), w\<lparr>rw_bits := mark off (rw_bits w)\<rparr>))"

section \<open>The bitmap as a set of indices\<close>

definition bits_ok :: "u64 list \<Rightarrow> bool" where
  "bits_ok bits \<longleftrightarrow> 0 < length bits \<and> length bits * 64 < 2 ^ 32"

definition window_ok :: "replay_window \<Rightarrow> bool" where
  "window_ok w \<longleftrightarrow> bits_ok (rw_bits w)"

definition bit_at :: "u64 list \<Rightarrow> nat \<Rightarrow> bool" where
  "bit_at bits i = bit (bits ! (i div 64)) (i mod 64)"

lemma length_mark [simp]: "length (mark off bits) = length bits"
  by (simp add: mark_def Let_def)

lemma length_unmark [simp]: "length (unmark off bits) = length bits"
  by (simp add: unmark_def Let_def)

lemma length_fold_unmark [simp]: "length (fold (\<lambda>i. unmark (f i)) is bits) = length bits"
  by (induction "is" arbitrary: bits) simp_all

lemma length_clear_span [simp]: "length (clear_span hi adv bits) = length bits"
  by (simp add: clear_span_def)

lemma unat_window_entries: "bits_ok bits \<Longrightarrow> unat (window_entries bits) = length bits * 64"
  unfolding window_entries_def bits_ok_def by (simp only: unat_of_nat) simp

lemma tick_index_eq:
  "bits_ok bits \<Longrightarrow> tick_index bits off = unat off mod (length bits * 64)"
  by (simp add: tick_index_def unat_mod unat_window_entries)

lemma tick_index_less: "bits_ok bits \<Longrightarrow> tick_index bits off < length bits * 64"
  by (simp add: tick_index_eq bits_ok_def)

text \<open>The word index is always in range: none of the array accesses can panic.\<close>

lemma tick_word_in_range: "bits_ok bits \<Longrightarrow> tick_index bits off div 64 < length bits"
  using tick_index_less [of bits off] by (simp add: div_less_iff_less_mult)

lemma same_slot: "i = j \<longleftrightarrow> i div 64 = j div (64 :: nat) \<and> i mod 64 = j mod 64"
  by (metis div_mult_mod_eq)

lemma bit_at_mark:
  assumes "bits_ok bits" and "j < length bits * 64"
  shows "bit_at (mark off bits) j \<longleftrightarrow> j = tick_index bits off \<or> bit_at bits j"
  using assms tick_word_in_range [OF assms(1), of off]
  by (auto simp: bit_at_def mark_def Let_def nth_list_update bit_simps
      same_slot [of j "tick_index bits off"] div_less_iff_less_mult)

lemma bit_at_unmark:
  assumes "bits_ok bits" and "j < length bits * 64"
  shows "bit_at (unmark off bits) j \<longleftrightarrow> j \<noteq> tick_index bits off \<and> bit_at bits j"
  using assms tick_word_in_range [OF assms(1), of off]
  by (auto simp: bit_at_def unmark_def Let_def nth_list_update bit_simps
      same_slot [of j "tick_index bits off"] div_less_iff_less_mult)

lemma seen_bit_at: "bits_ok bits \<Longrightarrow> seen bits off \<longleftrightarrow> bit_at bits (tick_index bits off)"
  by (simp add: seen_def bit_at_def Let_def and_exp_eq_0_iff_not_bit)

lemma bit_at_fold_unmark:
  assumes "bits_ok bits" and "j < length bits * 64"
  shows "bit_at (fold (\<lambda>i. unmark (f i)) is bits) j
     \<longleftrightarrow> bit_at bits j \<and> (\<forall>i \<in> set is. j \<noteq> tick_index bits (f i))"
  using assms
proof (induction "is" arbitrary: bits)
  case (Cons i "is")
  have ok: "bits_ok (unmark (f i) bits)" using Cons.prems by (simp add: bits_ok_def)
  have "tick_index (unmark (f i) bits) off = tick_index bits off" for off
    using Cons.prems ok by (simp add: tick_index_eq)
  with Cons ok show ?case by (auto simp: bit_at_unmark)
qed simp

section \<open>Refinement of the set of accepted offsets\<close>

text \<open>
  The specification: an offset is admissible when it was not accepted before and lies fewer than
  \<open>N\<close> ticks below every accepted offset (truncated subtraction: nothing is asked of a larger one).
\<close>

definition spec_admits :: "nat \<Rightarrow> u32 set \<Rightarrow> u32 \<Rightarrow> bool" where
  "spec_admits n S off \<longleftrightarrow> off \<notin> S \<and> (\<forall>hi \<in> S. unat hi - unat off < n)"

definition entries :: "replay_window \<Rightarrow> nat" where
  "entries w = length (rw_bits w) * 64"

definition window_rep :: "replay_window \<Rightarrow> u32 set \<Rightarrow> bool" where
  "window_rep w S \<longleftrightarrow> window_ok w \<and>
     (case rw_high w of
        None \<Rightarrow> S = {} \<and> (\<forall>j < entries w. \<not> bit_at (rw_bits w) j)
      | Some hi \<Rightarrow> hi \<in> S \<and> (\<forall>x \<in> S. x \<le> hi) \<and>
          (\<forall>x. x \<le> hi \<longrightarrow> unat hi - unat x < entries w \<longrightarrow> (seen (rw_bits w) x \<longleftrightarrow> x \<in> S)))"

lemma mod_collision: "a < b \<Longrightarrow> b - a < n \<Longrightarrow> a mod n \<noteq> b mod (n :: nat)"
  by (metis diff_is_0_eq' dvd_imp_le leD less_imp_le mod_eq_dvd_iff_nat zero_less_diff)

lemma tick_index_neq:
  "bits_ok bits \<Longrightarrow> x < y \<Longrightarrow> unat y - unat x < length bits * 64 \<Longrightarrow>
   tick_index bits x \<noteq> tick_index bits y"
  by (simp add: tick_index_eq mod_collision word_less_nat_alt)

lemma seen_mark:
  "bits_ok bits \<Longrightarrow>
   seen (mark off bits) x \<longleftrightarrow> tick_index bits x = tick_index bits off \<or> seen bits x"
  by (simp add: seen_bit_at bits_ok_def bit_at_mark tick_index_eq)

lemma unat_min_word: "unat (min a b) = min (unat a) (unat (b :: 'a::len word))"
  by (simp add: min_def word_le_nat_alt)

lemma unat_sub_le: "a \<le> b \<Longrightarrow> unat (b - a) = unat b - unat (a :: 'a::len word)"
  by (simp add: unat_sub)

lemma unat_span:
  fixes hi off :: u32
  assumes "hi < off" and "i \<le> unat (off - hi)"
  shows "unat (hi + of_nat i) = unat hi + i"
proof -
  have "unat hi + i \<le> unat off"
    using assms unat_sub_le [of hi off] by (simp add: word_less_nat_alt word_le_nat_alt)
  then have "unat hi + i < 2 ^ 32"
    using unat_u32_less [of off] by simp
  then show ?thesis
    by (simp add: unat_word_ariths(1) unsigned_of_nat take_bit_eq_mod)
qed

text \<open>After the slide, the ticks in \<open>(hi, off]\<close> that the window still covers are clear.\<close>

lemma seen_clear_span:
  assumes ok: "bits_ok bits" and lt: "hi < off"
    and x: "x < off" "unat off - unat x < length bits * 64"
  shows "seen (clear_span hi (min (off - hi) (window_entries bits)) bits) x
     \<longleftrightarrow> x \<le> hi \<and> seen bits x"
proof -
  let ?n = "length bits * 64" and ?adv = "min (off - hi) (window_entries bits)"
  have n: "0 < ?n" using ok by (simp add: bits_ok_def)
  have adv: "unat ?adv = min (unat off - unat hi) ?n"
    using ok lt by (simp add: unat_min_word unat_window_entries unat_sub_le)
  have span: "unat (hi + of_nat i) = unat hi + i" if "i \<le> unat ?adv" for i
    using unat_span [OF lt, of i] that lt by (simp add: adv unat_sub_le)
  have "seen (clear_span hi ?adv bits) x
     \<longleftrightarrow> seen bits x \<and> (\<forall>i \<in> {1..unat ?adv}. tick_index bits x \<noteq> tick_index bits (hi + of_nat i))"
  proof -
    have rng: "set [1..<Suc (unat ?adv)] = {1..unat ?adv}" by auto
    have ok': "bits_ok (clear_span hi ?adv bits)" using ok by (simp add: bits_ok_def)
    then have "seen (clear_span hi ?adv bits) x
       \<longleftrightarrow> bit_at (clear_span hi ?adv bits) (tick_index bits x)"
      using ok by (simp add: seen_bit_at tick_index_eq)
    then show ?thesis
      using bit_at_fold_unmark [OF ok tick_index_less [OF ok], of _ "[1..<Suc (unat ?adv)]"]
      by (simp only: rng clear_span_def seen_bit_at [OF ok])
  qed
  also have "(\<forall>i \<in> {1..unat ?adv}. tick_index bits x \<noteq> tick_index bits (hi + of_nat i)) \<longleftrightarrow> x \<le> hi"
  proof
    assume le: "x \<le> hi"
    show "\<forall>i \<in> {1..unat ?adv}. tick_index bits x \<noteq> tick_index bits (hi + of_nat i)"
    proof
      fix i assume i: "i \<in> {1..unat ?adv}"
      have "unat (hi + of_nat i) = unat hi + i" using i span by simp
      moreover have "unat hi + i \<le> unat off" using i adv lt by (auto simp: word_less_nat_alt)
      ultimately show "tick_index bits x \<noteq> tick_index bits (hi + of_nat i)"
        using le i x by (intro tick_index_neq [OF ok])
          (auto simp: word_less_nat_alt word_le_nat_alt)
    qed
  next
    assume all: "\<forall>i \<in> {1..unat ?adv}. tick_index bits x \<noteq> tick_index bits (hi + of_nat i)"
    show "x \<le> hi"
    proof (rule ccontr)
      assume "\<not> x \<le> hi"
      then have gt: "unat hi < unat x" by (simp add: word_le_nat_alt)
      define d where "d = unat x - unat hi - 1"
      define i where "i = Suc (d mod ?n)"
      have "Suc d \<le> unat off - unat hi" using gt x(1) by (simp add: d_def word_less_nat_alt)
      then have "Suc (d mod ?n) \<le> unat off - unat hi" by (rule le_trans [rotated]) simp
      moreover have "Suc (d mod ?n) \<le> ?n" using n by (simp add: Suc_leI)
      ultimately have i: "i \<in> {1..unat ?adv}" by (simp add: i_def adv)
      have "(unat hi + i) mod ?n = (unat hi + 1 + d) mod ?n"
        using mod_add_right_eq [of "Suc (unat hi)" d ?n] by (simp add: i_def)
      also have "unat hi + 1 + d = unat x" using gt by (simp add: d_def)
      finally have "tick_index bits (hi + of_nat i) = tick_index bits x"
        using ok i span by (simp add: tick_index_eq)
      with all i show False by metis
    qed
  qed
  finally show ?thesis by blast
qed

lemma window_rep_new:
  "0 < n \<Longrightarrow> n * 64 < 2 ^ 32 \<Longrightarrow> window_rep (window_new n) {}"
  by (auto simp: window_rep_def window_new_def window_ok_def bits_ok_def entries_def bit_at_def
      div_less_iff_less_mult)

lemma window_rep_slide:
  assumes rep: "window_rep w S" and hi: "rw_high w = Some hi" and lt: "hi < off"
  shows "window_rep
    (w\<lparr>rw_high := Some off,
       rw_bits := mark off (clear_span hi (min (off - hi) (window_entries (rw_bits w))) (rw_bits w))\<rparr>)
    (insert off S)"
proof -
  let ?bits = "rw_bits w"
  let ?clr = "clear_span hi (min (off - hi) (window_entries ?bits)) ?bits"
  have ok: "bits_ok ?bits" and max: "\<And>x. x \<in> S \<Longrightarrow> x \<le> hi"
    and iff: "\<And>x. x \<le> hi \<Longrightarrow> unat hi - unat x < entries w \<Longrightarrow> seen ?bits x \<longleftrightarrow> x \<in> S"
    using rep hi by (auto simp: window_rep_def window_ok_def)
  have ok': "bits_ok ?clr" using ok by (simp add: bits_ok_def)
  have "seen (mark off ?clr) x \<longleftrightarrow> x = off \<or> x \<in> S"
    if x: "x \<le> off" "unat off - unat x < entries w" for x
  proof (cases "x = off")
    case True
    then show ?thesis using ok' by (simp add: seen_mark)
  next
    case False
    with x have xlt: "x < off" by simp
    have "tick_index ?clr x \<noteq> tick_index ?clr off"
      using xlt x(2) by (intro tick_index_neq [OF ok']) (simp_all add: entries_def)
    then have "seen (mark off ?clr) x \<longleftrightarrow> x \<le> hi \<and> seen ?bits x"
      using seen_clear_span [OF ok lt xlt] x(2) ok' by (simp add: seen_mark entries_def)
    also have "\<dots> \<longleftrightarrow> x \<in> S"
    proof (cases "x \<le> hi")
      case True
      have "unat hi - unat x < entries w"
        using x(2) lt by (simp add: word_less_nat_alt)
      with iff [OF True] True show ?thesis by simp
    qed (use max in blast)
    finally show ?thesis using False by simp
  qed
  moreover have "\<forall>x \<in> insert off S. x \<le> off"
    using max lt by fastforce
  ultimately show ?thesis
    using ok by (simp add: window_rep_def window_ok_def bits_ok_def entries_def)
qed

lemma window_rep_mark_inside:
  assumes rep: "window_rep w S" and hi: "rw_high w = Some hi" and le: "off \<le> hi"
    and inside: "unat hi - unat off < entries w"
  shows "window_rep (w\<lparr>rw_bits := mark off (rw_bits w)\<rparr>) (insert off S)"
proof -
  let ?bits = "rw_bits w"
  have ok: "bits_ok ?bits" and mem: "hi \<in> S" and max: "\<And>x. x \<in> S \<Longrightarrow> x \<le> hi"
    and iff: "\<And>x. x \<le> hi \<Longrightarrow> unat hi - unat x < entries w \<Longrightarrow> seen ?bits x \<longleftrightarrow> x \<in> S"
    using rep hi by (auto simp: window_rep_def window_ok_def)
  have "seen (mark off ?bits) x \<longleftrightarrow> x = off \<or> x \<in> S"
    if x: "x \<le> hi" "unat hi - unat x < entries w" for x
  proof -
    have "tick_index ?bits x \<noteq> tick_index ?bits off" if "x \<noteq> off"
    proof (cases "x < off")
      case True
      have "unat off - unat x < entries w"
        using x(2) le diff_le_mono [of "unat off" "unat hi" "unat x"]
        by (simp add: word_le_nat_alt)
      with True show ?thesis using tick_index_neq [OF ok True] by (simp add: entries_def)
    next
      case False
      with that have lt: "off < x" by simp
      have "unat x - unat off < entries w"
        using inside x(1) diff_le_mono [of "unat x" "unat hi" "unat off"]
        by (simp add: word_le_nat_alt)
      then show ?thesis using tick_index_neq [OF ok lt] by (simp add: entries_def)
    qed
    then show ?thesis using iff [OF x] ok by (auto simp: seen_mark)
  qed
  then show ?thesis
    using ok mem max le hi by (auto simp: window_rep_def window_ok_def bits_ok_def entries_def)
qed

lemma window_rep_first:
  assumes "window_rep w S" and "rw_high w = None"
  shows "window_rep (w\<lparr>rw_high := Some off, rw_bits := mark off (rw_bits w)\<rparr>) {off}"
proof -
  have ok: "bits_ok (rw_bits w)" and clear: "\<And>j. j < entries w \<Longrightarrow> \<not> bit_at (rw_bits w) j"
    using assms by (auto simp: window_rep_def window_ok_def)
  have unseen: "\<not> seen (rw_bits w) x" for x
    using clear tick_index_less [OF ok, of x] ok by (simp add: seen_bit_at entries_def)
  have "seen (mark off (rw_bits w)) x \<longleftrightarrow> x = off"
    if "x \<le> off" "unat off - unat x < entries w" for x
    using that unseen [of x] tick_index_neq [OF ok, of x off] ok
    by (cases "x = off") (auto simp: seen_mark entries_def)
  then show ?thesis
    using ok by (simp add: window_rep_def window_ok_def bits_ok_def entries_def)
qed

text \<open>
  The refinement: the window accepts exactly what the specification admits, and its bitmap then
  stands for the accepted set with the new offset; a refused offset changes nothing.
\<close>

lemma check_and_set_refines:
  assumes rep: "window_rep w S"
  shows "if spec_admits (entries w) S off
    then \<exists>w'. check_and_set w off = (Ok (), w') \<and> window_rep w' (insert off S)
           \<and> entries w' = entries w
    else check_and_set w off = (Err Replay, w)"
proof (cases "rw_high w")
  case None
  with rep have "S = {}" by (simp add: window_rep_def)
  with None window_rep_first [OF rep None, of off] show ?thesis
    by (simp add: spec_admits_def check_and_set_def entries_def)
next
  case (Some hi)
  have ok: "bits_ok (rw_bits w)" and mem: "hi \<in> S" and max: "\<And>x. x \<in> S \<Longrightarrow> x \<le> hi"
    and iff: "off \<le> hi \<Longrightarrow> unat hi - unat off < entries w \<Longrightarrow> seen (rw_bits w) off \<longleftrightarrow> off \<in> S"
    using rep Some by (auto simp: window_rep_def window_ok_def)
  have spec: "spec_admits (entries w) S off \<longleftrightarrow> off \<notin> S \<and> unat hi - unat off < entries w"
  proof -
    have "unat x - unat off < entries w" if "x \<in> S" "unat hi - unat off < entries w" for x
      using max [OF that(1)] that(2) by (simp add: word_le_nat_alt)
    then show ?thesis using mem by (auto simp: spec_admits_def)
  qed
  show ?thesis
  proof (cases "hi < off")
    case True
    then have "off \<notin> S" using max by force
    moreover have "unat hi - unat off < entries w"
      using True ok by (simp add: entries_def bits_ok_def word_less_nat_alt)
    ultimately have "spec_admits (entries w) S off" by (simp add: spec)
    with True Some window_rep_slide [OF rep Some True] show ?thesis
      by (simp add: check_and_set_def Let_def entries_def)
  next
    case False
    then have le: "off \<le> hi" by simp
    have "window_entries (rw_bits w) \<le> hi - off \<longleftrightarrow> \<not> unat hi - unat off < entries w"
      using le ok by (simp add: word_le_nat_alt unat_window_entries unat_sub_le entries_def not_less)
    with False Some le spec iff [OF le] window_rep_mark_inside [OF rep Some le] show ?thesis
      by (auto simp: check_and_set_def entries_def)
  qed
qed

lemma check_and_set_cases:
  "fst (check_and_set w off) = Ok () \<or> check_and_set w off = (Err Replay, w)"
  by (auto simp: check_and_set_def Let_def split: option.splits)

text \<open>The window as a filter on offsets.\<close>

definition window_step :: "replay_window \<Rightarrow> u32 \<Rightarrow> replay_window \<times> u32 option" where
  "window_step w off =
     (case check_and_set w off of (r, w') \<Rightarrow> (w', if r = Ok () then Some off else None))"

interpretation window: once_filter window_step "\<lambda>_ _. True" window_rep
proof
  fix w S off w' k
  assume "window_rep w S" "window_step w off = (w', Some k)"
  then show "k \<notin> S \<and> window_rep w' (insert k S)"
    using check_and_set_refines [of w S off]
    by (auto simp: window_step_def spec_admits_def split: if_splits)
next
  fix w S off w'
  assume "window_rep w S" "window_step w off = (w', None)"
  then show "window_rep w' S"
    using check_and_set_refines [of w S off]
    by (auto simp: window_step_def split: if_splits prod.splits)
qed

lemma entries_one_second [simp]: "entries one_second = 4096"
  by (simp add: entries_def one_second_def window_new_def DEFAULT_WINDOW_WORDS_def)

section \<open>Properties\<close>

text \<open>C8: The replay bitmap refines the set of accepted offsets. In a window that stands for the
  accepted set \<open>S\<close>, an offset is accepted exactly when it is not in \<open>S\<close> and less than the window's
  length behind every accepted offset; the new window then stands for \<open>S\<close> with the offset, and a
  refused offset leaves the window as it was.\<close>

theorem replay_window_refines_set:
  assumes "window_rep w S"
  shows "if spec_admits (entries w) S off
    then \<exists>w'. check_and_set w off = (Ok (), w') \<and> window_rep w' (insert off S)
           \<and> entries w' = entries w
    else check_and_set w off = (Err Replay, w)"
  using assms by (rule check_and_set_refines)

theorem replay_window_refines_set_witness:
  "\<exists>w'. check_and_set one_second 7 = (Ok (), w') \<and> window_rep w' {7} \<and> entries w' = 4096"
  using replay_window_refines_set [of one_second "{}" 7] window_rep_new [of 64]
  by (simp add: one_second_def DEFAULT_WINDOW_WORDS_def spec_admits_def)
    (simp add: entries_def window_new_def)

text \<open>A one-second window never accepts an offset twice, in any sequence of offsets, however far the
  window slides in between.\<close>

lemma replay_window_at_most_once: "distinct (run_keys window_step one_second offs)"
proof -
  have "window_rep one_second {}"
    unfolding one_second_def DEFAULT_WINDOW_WORDS_def by (rule window_rep_new) simp_all
  moreover have "run_allowed window_step (\<lambda>_ _. True) w offs" for w
    by (induction offs arbitrary: w) simp_all
  ultimately show ?thesis using window.run_once by blast
qed

end
