(* ===== verification/Catp_Pacing.thy ===== *)
theory Catp_Pacing
  imports Catp_Epoch Catp_Filter "HOL-Library.Product_Lexorder"
begin

text \<open>
  The two time-driven budgets of \<open>src/lib.rs\<close>: the sender's offset allocation (\<open>Pacer\<close>) and the
  receiver's token bucket (\<open>RateLimit\<close>, \<open>InboundLimiter\<close>). Both read no clock: the instant is an
  argument.
\<close>

section \<open>Pacer\<close>

record pacer =
  pc_epoch :: "u32 option"
  pc_last_offset :: "u32 option"

definition pacer_new :: pacer where
  "pacer_new = \<lparr>pc_epoch = None, pc_last_offset = None\<rparr>"

definition claim :: "pacer \<Rightarrow> u64 \<Rightarrow> u32 \<Rightarrow> (u32 \<times> u32, error) result \<times> pacer" where
  "claim p unix_secs nanos =
     (let epoch = epoch_id_at unix_secs;
          offset = epoch_offset_at unix_secs nanos;
          p = (if pc_epoch p \<noteq> Some epoch
               then p\<lparr>pc_epoch := Some epoch, pc_last_offset := None\<rparr> else p)
      in case pc_last_offset p of
           Some prev \<Rightarrow>
             if offset \<le> prev then (Err (OffsetReuse offset), p)
             else (Ok (epoch, offset), p\<lparr>pc_last_offset := Some offset\<rparr>)
         | None \<Rightarrow> (Ok (epoch, offset), p\<lparr>pc_last_offset := Some offset\<rparr>))"

text \<open>
  The pacer as a filter: the key is the claimed \<open>(epoch, offset)\<close> in lexicographic order, and the
  caller's clock must not step back across an epoch boundary.
\<close>

definition pacer_step :: "pacer \<Rightarrow> u64 \<times> u32 \<Rightarrow> pacer \<times> (u32 \<times> u32) option" where
  "pacer_step p t =
     (case claim p (fst t) (snd t) of
        (Ok k, p') \<Rightarrow> (p', Some k) | (Err e, p') \<Rightarrow> (p', None) | (Panic, p') \<Rightarrow> (p', None))"

definition pacer_clock_ok :: "pacer \<Rightarrow> u64 \<times> u32 \<Rightarrow> bool" where
  "pacer_clock_ok p t = (case pc_epoch p of None \<Rightarrow> True | Some e \<Rightarrow> e \<le> epoch_id_at (fst t))"

definition pacer_floor :: "pacer \<Rightarrow> (u32 \<times> u32) option" where
  "pacer_floor p =
     (case (pc_epoch p, pc_last_offset p) of (Some e, Some x) \<Rightarrow> Some (e, x) | _ \<Rightarrow> None)"

interpretation pacer: monotone_filter pacer_step pacer_clock_ok pacer_floor
proof
  fix p t p' k
  assume "pacer_clock_ok p t" "pacer_step p t = (p', Some k)"
  then show "pacer_floor p' = Some k \<and> (\<forall>f. pacer_floor p = Some f \<longrightarrow> f < k)"
    by (auto simp: pacer_step_def claim_def pacer_clock_ok_def pacer_floor_def Let_def
        split: option.splits if_splits)
next
  fix p t p' f
  assume a: "pacer_clock_ok p t" "pacer_step p t = (p', None)" "pacer_floor p = Some f"
  from a(1,2) have "pacer_floor p' = pacer_floor p"
    by (auto simp: pacer_step_def claim_def Let_def split: option.splits if_splits)
  with a(3) show "\<exists>f'. pacer_floor p' = Some f' \<and> f \<le> f'" by simp
qed

lemma claim_Ok:
  "claim p s n = (Ok k, p') \<Longrightarrow>
   k = (epoch_id_at s, epoch_offset_at s n)
   \<and> p' = \<lparr>pc_epoch = Some (fst k), pc_last_offset = Some (snd k)\<rparr>"
  by (cases p) (auto simp: claim_def Let_def split: option.splits if_splits)

lemma claim_Err:
  "claim p s n = (Err e, p') \<Longrightarrow>
   p' = p \<and> pc_epoch p = Some (epoch_id_at s) \<and> e = OffsetReuse (epoch_offset_at s n)
   \<and> (\<exists>prev. pc_last_offset p = Some prev \<and> epoch_offset_at s n \<le> prev)"
  by (auto simp: claim_def Let_def split: option.splits if_splits)

lemma claim_not_Panic: "fst (claim p s n) \<noteq> Panic"
  by (auto simp: claim_def Let_def split: option.splits)

section \<open>InboundLimiter\<close>

record rate_limit =
  rl_per_sec :: u32
  rl_burst :: u32

definition RECOMMENDED_DEFAULT :: rate_limit where
  "RECOMMENDED_DEFAULT = \<lparr>rl_per_sec = 128, rl_burst = 128\<rparr>"

record inbound_limiter =
  il_per_sec :: u32
  il_capacity_micro :: u64
  il_tokens_micro :: u64
  il_last_ms :: u64

definition saturating_add_u64 :: "u64 \<Rightarrow> u64 \<Rightarrow> u64" where
  "saturating_add_u64 a b = (if unat a + unat b < 2 ^ 64 then a + b else - 1)"

definition saturating_mul_u64 :: "u64 \<Rightarrow> u64 \<Rightarrow> u64" where
  "saturating_mul_u64 a b = (if unat a * unat b < 2 ^ 64 then a * b else - 1)"

definition saturating_sub_u64 :: "u64 \<Rightarrow> u64 \<Rightarrow> u64" where
  "saturating_sub_u64 a b = (if a < b then 0 else a - b)"

definition limiter_new :: "rate_limit \<Rightarrow> inbound_limiter" where
  "limiter_new limit =
     (let capacity_micro = ucast (max (rl_burst limit) 1) * 1000000 in
      \<lparr>il_per_sec = rl_per_sec limit, il_capacity_micro = capacity_micro,
       il_tokens_micro = capacity_micro, il_last_ms = 0\<rparr>)"

definition try_acquire :: "inbound_limiter \<Rightarrow> u64 \<Rightarrow> bool \<times> inbound_limiter" where
  "try_acquire l now_ms =
     (let elapsed_ms = saturating_sub_u64 now_ms (il_last_ms l);
          refill = saturating_mul_u64
                     (saturating_mul_u64 (ucast (il_per_sec l)) 1000) elapsed_ms;
          tokens = min (saturating_add_u64 (il_tokens_micro l) refill) (il_capacity_micro l);
          l = l\<lparr>il_last_ms := now_ms, il_tokens_micro := tokens\<rparr>
      in if 1000000 \<le> tokens then (True, l\<lparr>il_tokens_micro := tokens - 1000000\<rparr>)
         else (False, l))"

section \<open>The bucket counts\<close>

lemma unat_max_u64: "unat (- 1 :: u64) = 2 ^ 64 - 1"
  by (simp add: unsigned_minus_1_eq_mask mask_eq_exp_minus_1)

lemma unat_u64_less: "unat (n :: u64) < 2 ^ 64"
  using unsigned_less [of n] by simp

lemma unat_saturating_add: "unat (saturating_add_u64 a b) = min (unat a + unat b) (2 ^ 64 - 1)"
  by (simp add: saturating_add_u64_def unat_word_ariths(1) unat_max_u64)

lemma unat_saturating_mul: "unat (saturating_mul_u64 a b) = min (unat a * unat b) (2 ^ 64 - 1)"
  by (simp add: saturating_mul_u64_def unat_word_ariths(2) unat_max_u64)

lemma unat_saturating_sub: "unat (saturating_sub_u64 a b) = unat a - unat b"
  by (auto simp: saturating_sub_u64_def unat_sub_if' word_less_nat_alt)

lemma unat_min: "unat (min a b) = min (unat a) (unat (b :: 'a::len word))"
  by (simp add: min_def word_le_nat_alt)

text \<open>Micro-tokens on hand at \<open>now\<close>: the refill without saturation, clamped to the capacity.\<close>

definition available :: "inbound_limiter \<Rightarrow> u64 \<Rightarrow> nat" where
  "available l now =
     min (unat (il_tokens_micro l)
          + unat (il_per_sec l) * 1000 * (unat now - unat (il_last_ms l)))
       (unat (il_capacity_micro l))"

lemma try_acquire_available:
  obtains l' where
    "try_acquire l now = (1000000 \<le> available l now, l')"
    "il_per_sec l' = il_per_sec l" "il_capacity_micro l' = il_capacity_micro l"
    "il_last_ms l' = now"
    "unat (il_tokens_micro l')
     = (if 1000000 \<le> available l now then available l now - 1000000 else available l now)"
proof -
  define rate :: u64 where "rate = saturating_mul_u64 (ucast (il_per_sec l)) 1000"
  have "unat (il_per_sec l) < 4294967296" by (rule unat_u32_less)
  then have rate: "unat rate = unat (il_per_sec l) * 1000"
    by (simp add: rate_def unat_saturating_mul unat_ucast_mod)
  define tokens where
    "tokens = min (saturating_add_u64 (il_tokens_micro l)
       (saturating_mul_u64 rate (saturating_sub_u64 now (il_last_ms l)))) (il_capacity_micro l)"
  have clamp: "min (min (t + min x m) m) c = min (t + x) c" if "c \<le> m" for t x m c :: nat
    using that by (auto simp: min_def)
  have "unat (il_capacity_micro l) \<le> 2 ^ 64 - 1"
    using unat_u64_less [of "il_capacity_micro l"] by simp
  then have "unat tokens = available l now"
    by (simp only: tokens_def available_def unat_min unat_saturating_add unat_saturating_mul
        unat_saturating_sub rate clamp)
  then have unat: "unat tokens = available l now"
    "1000000 \<le> tokens \<longleftrightarrow> 1000000 \<le> available l now"
    "1000000 \<le> tokens \<Longrightarrow> unat (tokens - 1000000) = available l now - 1000000"
    by (simp_all add: word_le_nat_alt unat_sub)
  have eq: "try_acquire l now =
      (1000000 \<le> tokens,
       l\<lparr>il_last_ms := now,
         il_tokens_micro := if 1000000 \<le> tokens then tokens - 1000000 else tokens\<rparr>)"
    by (simp add: try_acquire_def Let_def tokens_def rate_def)
  show ?thesis
    by (rule that [of "l\<lparr>il_last_ms := now,
        il_tokens_micro := if 1000000 \<le> tokens then tokens - 1000000 else tokens\<rparr>"])
      (use eq unat in simp_all)
qed

lemma available_le_capacity: "available l now \<le> unat (il_capacity_micro l)"
  by (simp add: available_def)

text \<open>Grants over a sequence of calls, and the bound: tokens on hand plus the refill.\<close>

primrec grants :: "inbound_limiter \<Rightarrow> u64 list \<Rightarrow> nat" where
  "grants l [] = 0"
| "grants l (t # ts) =
     (case try_acquire l t of (ok, l') \<Rightarrow> (if ok then 1 else 0) + grants l' ts)"

lemma grants_bound:
  "sorted (il_last_ms l # ts) \<Longrightarrow>
   grants l ts * 1000000
   \<le> unat (il_tokens_micro l)
     + unat (il_per_sec l) * 1000 * (unat (last (il_last_ms l # ts)) - unat (il_last_ms l))"
proof (induction ts arbitrary: l)
  case (Cons t ts)
  obtain l' where l': "try_acquire l t = (1000000 \<le> available l t, l')"
    "il_per_sec l' = il_per_sec l" "il_last_ms l' = t"
    "unat (il_tokens_micro l')
     = (if 1000000 \<le> available l t then available l t - 1000000 else available l t)"
    by (rule try_acquire_available)
  let ?rate = "unat (il_per_sec l) * 1000"
  let ?e = "unat (last (t # ts))"
  have srt: "il_last_ms l \<le> t" "sorted (t # ts)" using Cons.prems by auto
  then have "t \<le> last (t # ts)" by (cases ts) (auto dest: last_in_set)
  then have le: "unat (il_last_ms l) \<le> unat t" "unat t \<le> ?e"
    using srt by (simp_all add: word_le_nat_alt)
  have ih: "grants l' ts * 1000000 \<le> unat (il_tokens_micro l') + ?rate * (?e - unat t)"
    using Cons.IH [of l'] srt(2) l'(2,3) by simp
  have av: "available l t \<le> unat (il_tokens_micro l) + ?rate * (unat t - unat (il_last_ms l))"
    by (simp add: available_def)
  have split: "?rate * (?e - unat (il_last_ms l))
      = ?rate * (unat t - unat (il_last_ms l)) + ?rate * (?e - unat t)"
    using le by (simp flip: add_mult_distrib2)
  have "grants l (t # ts) * 1000000
      = (if 1000000 \<le> available l t then 1000000 else 0) + grants l' ts * 1000000"
    using l'(1) by simp
  also have "\<dots> \<le> available l t + ?rate * (?e - unat t)"
    using ih l'(4) by (simp split: if_splits)
  also have "\<dots> \<le> unat (il_tokens_micro l) + ?rate * (?e - unat (il_last_ms l))"
    using av split by simp
  finally show ?case by simp
qed simp

section \<open>Properties\<close>

text \<open>C28: While the sender's clock does not step back across an epoch boundary, the claimed
  (epoch, offset) pairs strictly increase, so no tuple is ever signed twice.\<close>

theorem pacer_claims_increase:
  assumes "run_allowed pacer_step pacer_clock_ok pacer_new ts"
  shows "sorted_wrt (<) (run_keys pacer_step pacer_new ts)"
  using pacer.run_above_floor [OF assms] by simp

theorem pacer_claims_increase_witness:
  "sorted_wrt (<) (run_keys pacer_step pacer_new [(1000, 0), (1000, 0), (1001, 500)])"
  by (rule pacer_claims_increase)
    (simp add: pacer_step_def pacer_clock_ok_def pacer_new_def claim_def epoch_id_at_def
      epoch_offset_at_def Let_def)

text \<open>The pacer remembers only the current epoch: when the clock steps back across an epoch boundary
  and forward again, it hands out a tuple it has already handed out.\<close>

lemma pacer_reuses_after_epoch_step_back:
  "run_keys pacer_step pacer_new [(128, 0), (127, 0), (128, 0)] = [(1, 0), (0, 520192), (1, 0)]"
  by (simp add: pacer_step_def pacer_new_def claim_def epoch_id_at_def epoch_offset_at_def Let_def)

text \<open>The token bucket admits a datagram exactly when a whole token is available once the elapsed time
  is credited, computed without any overflow, and takes exactly one token for it.\<close>

lemma limiter_admits_exactly:
  "(fst (try_acquire l now) \<longleftrightarrow> 1000000 \<le> available l now)
   \<and> unat (il_tokens_micro (snd (try_acquire l now)))
       = available l now - (if fst (try_acquire l now) then 1000000 else 0)"
proof -
  obtain l' where "try_acquire l now = (1000000 \<le> available l now, l')"
    "unat (il_tokens_micro l')
     = (if 1000000 \<le> available l now then available l now - 1000000 else available l now)"
    by (rule try_acquire_available)
  then show ?thesis by simp
qed

lemma limiter_new_grants: "fst (try_acquire (limiter_new limit) now)"
proof -
  let ?cap = "ucast (max (rl_burst limit) 1) * 1000000 :: u64"
  have "1 \<le> max (rl_burst limit) 1" by simp
  then have "1 \<le> unat (max (rl_burst limit) 1)" by (simp add: word_le_nat_alt)
  moreover have "unat (max (rl_burst limit) 1) < 4294967296" by (rule unat_u32_less)
  then have "unat ?cap = unat (max (rl_burst limit) 1) * 1000000"
    by (simp only: unat_word_ariths(2) unat_ucast_mod) simp
  ultimately have "1000000 \<le> available (limiter_new limit) now"
    by (simp add: available_def limiter_new_def Let_def)
  then show ?thesis using limiter_admits_exactly by blast
qed

text \<open>The state of a limiter after a run of calls, and what it never exceeds.\<close>

definition limiter_after :: "inbound_limiter \<Rightarrow> u64 list \<Rightarrow> inbound_limiter" where
  "limiter_after l ts = fold (\<lambda>t l. snd (try_acquire l t)) ts l"

lemma limiter_after_keeps:
  "il_per_sec (limiter_after l ts) = il_per_sec l" "il_capacity_micro (limiter_after l ts) = il_capacity_micro l"
proof -
  have step: "il_per_sec (snd (try_acquire l t)) = il_per_sec l"
    "il_capacity_micro (snd (try_acquire l t)) = il_capacity_micro l" for l t
    by (simp_all add: try_acquire_def Let_def)
  show "il_per_sec (limiter_after l ts) = il_per_sec l"
    "il_capacity_micro (limiter_after l ts) = il_capacity_micro l"
    unfolding limiter_after_def by (induction ts arbitrary: l) (simp_all add: step)
qed

text \<open>From any state on, whatever was saved up: at most the capacity and the refill since the first call.\<close>

lemma grants_from:
  assumes "sorted (t # ts)"
  shows "grants l (t # ts) * 1000000
    \<le> unat (il_capacity_micro l) + unat (il_per_sec l) * 1000 * (unat (last (t # ts)) - unat t)"
proof -
  obtain l' where l': "try_acquire l t = (1000000 \<le> available l t, l')"
    "il_per_sec l' = il_per_sec l" "il_last_ms l' = t"
    "unat (il_tokens_micro l')
     = (if 1000000 \<le> available l t then available l t - 1000000 else available l t)"
    by (rule try_acquire_available)
  have "grants l' ts * 1000000
      \<le> unat (il_tokens_micro l') + unat (il_per_sec l) * 1000 * (unat (last (t # ts)) - unat t)"
    using grants_bound [of l' ts] assms l'(2,3) by simp
  with l'(1,4) available_le_capacity [of l t] show ?thesis by (auto split: if_splits)
qed

text \<open>Calls at one instant draw on the tokens at hand alone.\<close>

lemma grants_instant:
  "il_last_ms l = t \<Longrightarrow> unat (il_tokens_micro l) \<le> unat (il_capacity_micro l) \<Longrightarrow>
   grants l (replicate n t) = min n (unat (il_tokens_micro l) div 1000000)"
proof (induction n arbitrary: l)
  case (Suc n)
  have av: "available l t = unat (il_tokens_micro l)" using Suc.prems by (simp add: available_def)
  obtain l' where l': "try_acquire l t = (1000000 \<le> available l t, l')"
    "il_capacity_micro l' = il_capacity_micro l" "il_last_ms l' = t"
    "unat (il_tokens_micro l')
     = (if 1000000 \<le> available l t then available l t - 1000000 else available l t)"
    by (rule try_acquire_available)
  have "grants l' (replicate n t) = min n (unat (il_tokens_micro l') div 1000000)"
    using Suc.prems l' av by (intro Suc.IH) auto
  with l'(1,4) av show ?case by (auto simp: le_div_geq)
qed simp

lemma limiter_new_capacity:
  "unat (il_capacity_micro (limiter_new limit)) = max (unat (rl_burst limit)) 1 * 1000000"
  "il_tokens_micro (limiter_new limit) = il_capacity_micro (limiter_new limit)"
  "il_per_sec (limiter_new limit) = rl_per_sec limit" "il_last_ms (limiter_new limit) = 0"
proof -
  have "unat (max (rl_burst limit) 1) < 4294967296" by (rule unat_u32_less)
  moreover have "unat (max (rl_burst limit) 1) = max (unat (rl_burst limit)) 1"
    by (simp add: max_def word_le_nat_alt)
  ultimately show "unat (il_capacity_micro (limiter_new limit)) = max (unat (rl_burst limit)) 1 * 1000000"
    by (simp add: limiter_new_def Let_def unat_word_ariths(2) unat_ucast_mod)
qed (simp_all add: limiter_new_def Let_def)

text \<open>C29: The rate limit holds over every stretch of a limiter's life: after any calls at any instants, the
  calls at the instants \<open>t\<close> to \<open>last (t # ts)\<close> are granted at most the burst plus the refill of the time
  between the first and the last of them, \<open>grants \<le> burst + per_sec * elapsed_ms / 1000\<close>, so an idle
  time saves up no more than one burst. The burst is there from the start: of \<open>n\<close> calls at one instant a
  fresh limiter grants exactly the first \<open>max burst 1\<close>.\<close>

theorem limiter_rate_bound:
  "(sorted (t # ts) \<longrightarrow> grants (limiter_after (limiter_new limit) earlier) (t # ts) * 1000000
      \<le> max (unat (rl_burst limit)) 1 * 1000000
        + unat (rl_per_sec limit) * 1000 * (unat (last (t # ts)) - unat t))
   \<and> grants (limiter_new limit) (replicate n t) = min n (max (unat (rl_burst limit)) 1)"
proof
  show "sorted (t # ts) \<longrightarrow> grants (limiter_after (limiter_new limit) earlier) (t # ts) * 1000000
      \<le> max (unat (rl_burst limit)) 1 * 1000000
        + unat (rl_per_sec limit) * 1000 * (unat (last (t # ts)) - unat t)"
    using grants_from [of t ts "limiter_after (limiter_new limit) earlier"]
    by (simp only: limiter_after_keeps limiter_new_capacity) simp
  let ?cap = "max (unat (rl_burst limit)) 1"
  let ?l = "limiter_new limit"
  show "grants ?l (replicate n t) = min n ?cap"
  proof (cases n)
    case (Suc m)
    have av: "available ?l t = ?cap * 1000000"
      by (simp add: available_def limiter_new_capacity)
    obtain l' where l': "try_acquire ?l t = (1000000 \<le> available ?l t, l')"
      "il_capacity_micro l' = il_capacity_micro ?l" "il_last_ms l' = t"
      "unat (il_tokens_micro l')
       = (if 1000000 \<le> available ?l t then available ?l t - 1000000 else available ?l t)"
      by (rule try_acquire_available)
    have t': "unat (il_tokens_micro l') = (?cap - 1) * 1000000"
      by (simp add: l'(4) av diff_mult_distrib)
    have "grants l' (replicate m t) = min m (unat (il_tokens_micro l') div 1000000)"
      by (intro grants_instant l'(3)) (simp add: t' l'(2) limiter_new_capacity(1))
    then show ?thesis using l'(1) by (simp add: Suc av t')
  qed simp
qed

theorem limiter_rate_bound_witness:
  "grants (limiter_after (limiter_new RECOMMENDED_DEFAULT) [0, 7]) [5000, 5005, 6000] * 1000000 \<le> 256000000"
  using limiter_rate_bound [of 5000 "[5005, 6000]" RECOMMENDED_DEFAULT "[0, 7]"]
  by (simp add: RECOMMENDED_DEFAULT_def)

end
