(* ===== verification/Catp_Decode.thy ===== *)
theory Catp_Decode
  imports Catp_Datagram Catp_Epoch Catp_Replay Catp_Pacing
begin

text \<open>
  The receive path of \<open>src/wire.rs\<close>: \<open>decode\<close>, the ten verification steps against one peer.
  Steps 1 to 7 (\<open>decode_auth\<close>) read no state; step 8 is the only one that changes the replay
  window; steps 9 and 10 (\<open>decode_frame\<close>, \<open>split_layouts\<close>) work on the authentic payload.
\<close>

section \<open>Configuration and result\<close>

record peer_config =
  p_sender_id :: u32
  p_secret :: device_secret
  p_cipher :: cipher_id
  p_layouts :: "(u8 \<times> u8) list" \<comment> \<open>\<open>(format, schema_version)\<close> pairs this receiver can interpret\<close>
  p_inbound_rate_limit :: "rate_limit option"

record accepted =
  a_datagram :: datagram
  a_epoch_id :: u32
  a_datagram_offset :: u32
  a_skipped :: "catp_record list"

section \<open>The steps\<close>

definition decode_auth ::
  "crypto \<Rightarrow> bytes \<Rightarrow> peer_config \<Rightarrow> u32 \<Rightarrow> direction
   \<Rightarrow> (datagram \<times> msg_type \<times> u32 \<times> bytes, error) result" where
  "decode_auth C buf peer local_epoch dir =
     (if length buf < HEADER_LEN then Err TooShort
      else rbind (parse_header buf) (\<lambda>out.
        if d_version out \<noteq> VERSION then Err (UnsupportedVersion (d_version out))
        else rbind (ok_or (msg_type_from_u8 (d_msg_type out)) (BadMsgType (d_msg_type out))) (\<lambda>mt.
          if mt = TimeAnnounce \<or> mt = TimeRequest then Err (BadMsgType (d_msg_type out))
          else if d_sender_id out \<noteq> p_sender_id peer then Err (UnknownSender (d_sender_id out))
          else if d_cipher_id out \<noteq> cipher_u8 (p_cipher peer)
          then Err (CipherMismatch (d_cipher_id out) (cipher_u8 (p_cipher peer)))
          else rbind (ok_or (cipher_from_u8 (d_cipher_id out))
                        (CipherUnimplemented (d_cipher_id out))) (\<lambda>cipher.
            if length buf < HEADER_LEN + tag_len cipher then Err TooShort
            else rbind (ok_or (reconstruct_epoch local_epoch (d_epoch_low out)) EpochOutOfWindow)
              (\<lambda>epoch_id.
                rbind (subslice buf HEADER_LEN (length buf - tag_len cipher)) (\<lambda>payload.
                rbind (subslice buf (length buf - tag_len cipher) (length buf)) (\<lambda>tag.
                  let key = epoch_key C (p_secret peer) (d_sender_id out) epoch_id dir;
                      signed = auth_header out epoch_id @ payload in
                  rbind (mac C cipher key signed (d_offset out)) (\<lambda>expected.
                    if \<not> ct_eq C expected tag then Err AuthFailed
                    else Ok (out, mt, epoch_id, payload)))))))))"

definition decode_frame :: "msg_type \<Rightarrow> bytes \<Rightarrow> datagram \<Rightarrow> (datagram, error) result" where
  "decode_frame mt payload out =
     (if is_record_framed mt then
        if length payload < RECORD_HEADER_LEN
        then Err (Framing ''payload shorter than one record header'')
        else rbind (decode_records payload 0 []) (\<lambda>recs.
          if (mt = Event \<or> mt = Alarm) \<and> 1 < length recs
          then Err (Framing ''EVENT and ALARM carry exactly one record'')
          else Ok (out\<lparr>d_records := recs\<rparr>))
      else if mt = Number
      then rbind (validate_number payload) (\<lambda>_. Ok (out\<lparr>d_raw := payload\<rparr>))
      else if mt = Series
      then rbind (validate_series payload (d_offset out)) (\<lambda>_. Ok (out\<lparr>d_raw := payload\<rparr>))
      else Ok (out\<lparr>d_raw := payload\<rparr>))"

definition knows_layout :: "peer_config \<Rightarrow> catp_record \<Rightarrow> bool" where
  "knows_layout peer r \<longleftrightarrow> (r_format r, r_schema_version r) \<in> set (p_layouts peer)"

definition split_layouts :: "peer_config \<Rightarrow> datagram \<Rightarrow> datagram \<times> catp_record list" where
  "split_layouts peer out =
     (if d_records out \<noteq> [] then
        (case partition (knows_layout peer) (d_records out) of
           (keep, skip) \<Rightarrow> (out\<lparr>d_records := keep\<rparr>, skip))
      else (out, []))"

definition decode ::
  "crypto \<Rightarrow> bytes \<Rightarrow> peer_config \<Rightarrow> u32 \<Rightarrow> direction \<Rightarrow> replay_window
   \<Rightarrow> (accepted, error) result \<times> replay_window" where
  "decode C buf peer local_epoch dir window =
     (case decode_auth C buf peer local_epoch dir of
        Err e \<Rightarrow> (Err e, window)
      | Panic \<Rightarrow> (Panic, window)
      | Ok (out, mt, epoch_id, payload) \<Rightarrow>
          (case check_and_set window (d_offset out) of
             (Err e, window) \<Rightarrow> (Err e, window)
           | (Panic, window) \<Rightarrow> (Panic, window)
           | (Ok u, window) \<Rightarrow>
               (rbind (decode_frame mt payload out) (\<lambda>out.
                  case split_layouts peer out of (out, skipped) \<Rightarrow>
                    Ok \<lparr>a_datagram = out, a_epoch_id = epoch_id,
                        a_datagram_offset = d_offset out, a_skipped = skipped\<rparr>),
                window)))"

section \<open>Authentication\<close>

text \<open>What steps 1 to 7 establish: the bytes are the header, the payload and its tag.\<close>

definition authentic ::
  "crypto \<Rightarrow> peer_config \<Rightarrow> u32 \<Rightarrow> direction \<Rightarrow> bytes \<Rightarrow> datagram \<Rightarrow> msg_type \<Rightarrow> u32 \<Rightarrow> bytes \<Rightarrow> bool"
where
  "authentic C peer local_epoch dir buf out mt epoch_id payload \<longleftrightarrow>
     hdr_wf out \<and> d_records out = [] \<and> d_raw out = [] \<and> d_version out = VERSION
     \<and> d_msg_type out = msg_type_u8 mt \<and> mt \<noteq> TimeAnnounce \<and> mt \<noteq> TimeRequest
     \<and> d_sender_id out = p_sender_id peer \<and> d_cipher_id out = cipher_u8 (p_cipher peer)
     \<and> reconstruct_epoch local_epoch (d_epoch_low out) = Some epoch_id
     \<and> mac_fits (p_cipher peer) (13 + length payload)
     \<and> buf = header_bytes out @ payload
         @ tag_of C (p_cipher peer) (epoch_key C (p_secret peer) (p_sender_id peer) epoch_id dir)
             (auth_header out epoch_id @ payload) (d_offset out)"

lemma append3_split:
  assumes "9 + n \<le> length buf"
  shows "buf = take 9 buf @ take (length buf - n - 9) (drop 9 buf) @ drop (length buf - n) buf"
proof -
  let ?k = "length buf - n - 9"
  have "drop 9 buf = take ?k (drop 9 buf) @ drop ?k (drop 9 buf)"
    by (rule append_take_drop_id [symmetric])
  moreover have "drop ?k (drop 9 buf) = drop (length buf - n) buf"
    using assms by (simp only: drop_drop) (simp add: algebra_simps)
  ultimately show ?thesis by (metis append_take_drop_id)
qed

lemma decode_auth_sound:
  assumes "ct_eq_decides C" and "decode_auth C buf peer local dir = Ok (out, mt, e, payload)"
  shows "authentic C peer local dir buf out mt e payload"
proof -
  have len: "9 \<le> length buf"
    using assms(2) by (auto simp: decode_auth_def split: if_splits)
  obtain h where h: "parse_header buf = Ok h"
    using assms(2) by (auto simp: decode_auth_def split: if_splits)
  have wf: "hdr_wf h" "header_bytes h = take 9 buf" "d_records h = []" "d_raw h = []"
    using parse_header_wf [OF h len] by auto
  let ?c = "p_cipher peer"
  let ?n = "tag_len ?c"
  let ?key = "epoch_key C (p_secret peer) (p_sender_id peer) e dir"
  have sub: "9 + ?n \<le> length buf \<Longrightarrow>
      subslice buf 9 (length buf - ?n) = (Ok payload :: (bytes, error) result)
      \<longleftrightarrow> payload = take (length buf - ?n - 9) (drop 9 buf)"
    by (auto simp: subslice_def)
  have a: "out = h" "d_version h = VERSION" "msg_type_from_u8 (d_msg_type h) = Some mt"
    "mt \<noteq> TimeAnnounce" "mt \<noteq> TimeRequest" "d_sender_id h = p_sender_id peer"
    "d_cipher_id h = cipher_u8 ?c" "9 + ?n \<le> length buf"
    "reconstruct_epoch local (d_epoch_low h) = Some e"
    "payload = take (length buf - ?n - 9) (drop 9 buf)"
    "mac C ?c ?key (auth_header h e @ payload) (d_offset h) = Ok (drop (length buf - ?n) buf)"
    using assms(2) len
    by (simp_all add: decode_auth_def h Let_def ct_eq_iff [OF assms(1)] not_less)
      (elim conjE exE, simp add: sub)+
  have m: "mac_fits ?c (13 + length payload)"
    "drop (length buf - ?n) buf = tag_of C ?c ?key (auth_header h e @ payload) (d_offset h)"
    using a(11) by (simp_all add: mac_eq_Ok)
  have "buf = take 9 buf @ payload @ drop (length buf - ?n) buf"
    using a(8) by (simp only: a(10)) (rule append3_split)
  then have "buf = header_bytes h @ payload
      @ tag_of C ?c ?key (auth_header h e @ payload) (d_offset h)"
    by (simp only: m(2) wf(2))
  with a(1-7,9) wf(1,3,4) m(1) show ?thesis
    unfolding authentic_def by (simp add: msg_type_from_u8_Some)
qed

lemma decode_auth_complete:
  assumes "ct_eq_decides C" and "authentic C peer local dir buf out mt e payload"
  shows "decode_auth C buf peer local dir = Ok (out, mt, e, payload)"
proof -
  let ?c = "p_cipher peer"
  let ?key = "epoch_key C (p_secret peer) (p_sender_id peer) e dir"
  let ?tag = "tag_of C ?c ?key (auth_header out e @ payload) (d_offset out)"
  have buf: "buf = header_bytes out @ payload @ ?tag" and wf: "hdr_wf out"
    and nil: "d_records out = []" "d_raw out = []"
    and fit: "mac_fits ?c (length (auth_header out e @ payload))"
    using assms(2) by (auto simp: authentic_def)
  have "masked_header out = out" using masked_header_wf [OF wf] nil by (cases out) simp
  then have p: "parse_header buf = Ok out"
    using parse_header_bytes [of out "payload @ ?tag"] by (simp add: buf)
  have len: "length buf = 9 + length payload + tag_len ?c" by (simp add: buf)
  have sl: "subslice buf 9 (length buf - tag_len ?c) = Ok payload"
    "subslice buf (length buf - tag_len ?c) (length buf) = Ok ?tag"
    by (simp_all add: len subslice_def) (simp_all add: buf)
  have f: "d_version out = VERSION" "d_msg_type out = msg_type_u8 mt" "mt \<noteq> TimeAnnounce"
    "mt \<noteq> TimeRequest" "d_sender_id out = p_sender_id peer" "d_cipher_id out = cipher_u8 ?c"
    "reconstruct_epoch local (d_epoch_low out) = Some e"
    using assms(2) by (auto simp: authentic_def)
  have "\<not> length buf < 9" "\<not> length buf < 9 + tag_len ?c" by (simp_all add: len)
  then show ?thesis
    unfolding decode_auth_def
    by (simp add: p f sl mac_ok [OF fit] ct_eq_iff [OF assms(1)] Let_def del: rbind_eq_Ok)
qed

lemma decode_auth_iff:
  "ct_eq_decides C \<Longrightarrow>
   decode_auth C buf peer local dir = Ok (out, mt, e, payload)
   \<longleftrightarrow> authentic C peer local dir buf out mt e payload"
  using decode_auth_sound decode_auth_complete by blast

lemma decode_auth_not_Panic [simp, panic_free]: "decode_auth C buf peer local dir \<noteq> Panic"
proof (cases "length buf < 9")
  case False
  then have "parse_header buf \<noteq> Panic" by (simp add: parse_header_not_Panic)
  with False show ?thesis
    by (auto simp: decode_auth_def rbind_eq_Panic Let_def subslice_def split: if_splits)
qed (simp add: decode_auth_def)

section \<open>Framing\<close>

text \<open>The datagrams that can travel: legal header fields and a payload legal for the type.\<close>

definition frame_wf :: "msg_type \<Rightarrow> datagram \<Rightarrow> bool" where
  "frame_wf mt d \<longleftrightarrow>
     (if is_record_framed mt
      then d_raw d = [] \<and> d_records d \<noteq> [] \<and> (\<forall>r \<in> set (d_records d). record_ok r)
         \<and> (mt = Event \<or> mt = Alarm \<longrightarrow> length (d_records d) = 1)
      else d_records d = []
         \<and> (mt = Number \<longrightarrow> is_ok (validate_number (d_raw d)))
         \<and> (mt = Series \<longrightarrow> is_ok (validate_series (d_raw d) (d_offset d))))"

definition datagram_wf :: "msg_type \<Rightarrow> datagram \<Rightarrow> bool" where
  "datagram_wf mt d \<longleftrightarrow>
     hdr_wf d \<and> d_version d = VERSION \<and> d_msg_type d = msg_type_u8 mt
     \<and> mt \<noteq> TimeAnnounce \<and> mt \<noteq> TimeRequest \<and> frame_wf mt d"

definition bare :: "datagram \<Rightarrow> datagram" where
  "bare d = d\<lparr>d_records := [], d_raw := []\<rparr>"

lemma bare_simps [simp]:
  "d_version (bare d) = d_version d" "d_msg_type (bare d) = d_msg_type d"
  "d_cipher_id (bare d) = d_cipher_id d" "d_reserved (bare d) = d_reserved d"
  "d_epoch_low (bare d) = d_epoch_low d" "d_offset (bare d) = d_offset d"
  "d_sender_id (bare d) = d_sender_id d" "d_records (bare d) = []" "d_raw (bare d) = []"
  "hdr_wf (bare d) = hdr_wf d" "header_bytes (bare d) = header_bytes d"
  "auth_header (bare d) e = auth_header d e"
  by (simp_all add: bare_def hdr_wf_def header_bytes_def auth_header_def Let_def)

lemma bare_eq: "d_records d = [] \<Longrightarrow> d_raw d = [] \<Longrightarrow> bare d = d"
  by (cases d) (simp add: bare_def)

lemma records_len: "(\<forall>r \<in> set rs. record_ok r) \<Longrightarrow> rs \<noteq> [] \<Longrightarrow> 3 \<le> length (concat (map record_bytes rs))"
  by (cases rs) (simp_all add: wire_len_def)

lemma decode_frame_wf:
  assumes "frame_wf mt d"
  shows "decode_frame mt (payload_bytes d) (bare d) = Ok d"
proof (cases "is_record_framed mt")
  case True
  with assms have rs: "d_raw d = []" "d_records d \<noteq> []" "\<forall>r \<in> set (d_records d). record_ok r"
    "\<not> ((mt = Event \<or> mt = Alarm) \<and> 1 < length (d_records d))"
    by (auto simp: frame_wf_def)
  then have p: "payload_bytes d = concat (map record_bytes (d_records d))"
    by (simp add: payload_bytes_def)
  have "records_of (payload_bytes d) = Ok (d_records d)"
    using rs(3) by (simp add: p records.dec_all_enc)
  moreover have "3 \<le> length (payload_bytes d)"
    using records_len [OF rs(3,2)] by (simp only: p)
  ultimately show ?thesis
    using True rs
    by (cases d) (simp add: decode_frame_def records_of_def bare_def
        del: length_payload_bytes de_Morgan_conj)
next
  case False
  with assms show ?thesis
    by (cases d) (auto simp: decode_frame_def frame_wf_def payload_bytes_def is_ok_iff bare_def)
qed

lemma decode_frame_Ok:
  assumes "decode_frame mt payload out = Ok d" and "d_records out = []" "d_raw out = []"
  shows "frame_wf mt d \<and> payload_bytes d = payload \<and> bare d = out"
proof (cases "is_record_framed mt")
  case True
  with assms(1) obtain recs where recs: "\<not> length payload < 3" "records_of payload = Ok recs"
    "mt = Event \<or> mt = Alarm \<longrightarrow> \<not> 1 < length recs" "d = out\<lparr>d_records := recs\<rparr>"
    by (auto simp: decode_frame_def records_of_def)
  have ok: "\<forall>r \<in> set recs. record_ok r" "concat (map record_bytes recs) = payload"
    using records.dec_all_Ok [OF recs(2)] by auto
  have ne: "recs \<noteq> []" using ok(2) recs(1) by auto
  have one: "mt = Event \<or> mt = Alarm \<longrightarrow> length recs = 1"
    using recs(3) ne by (cases recs) auto
  show ?thesis
    using True ok ne one recs(4) assms(2,3)
    by (cases out) (simp add: frame_wf_def payload_bytes_def bare_def)
next
  case False
  with assms show ?thesis
    by (cases out) (auto simp: decode_frame_def frame_wf_def payload_bytes_def is_ok_iff bare_def
        split: if_splits)
qed

lemma decode_frame_not_Panic [simp, panic_free]: "decode_frame mt payload out \<noteq> Panic"
  by (auto simp: decode_frame_def rbind_eq_Panic)

lemma decode_frame_keeps: "decode_frame mt payload out = Ok d \<Longrightarrow> d_offset d = d_offset out"
  by (auto simp: decode_frame_def split: if_splits)

section \<open>The whole decoder\<close>

text \<open>What a receiver with these layouts makes of an authentic datagram.\<close>

definition accepted_of :: "peer_config \<Rightarrow> u32 \<Rightarrow> datagram \<Rightarrow> accepted" where
  "accepted_of peer e d =
     \<lparr>a_datagram = d\<lparr>d_records := filter (knows_layout peer) (d_records d)\<rparr>, a_epoch_id = e,
      a_datagram_offset = d_offset d,
      a_skipped = filter (\<lambda>r. \<not> knows_layout peer r) (d_records d)\<rparr>"

lemma split_layouts_eq:
  "split_layouts peer d =
     (d\<lparr>d_records := filter (knows_layout peer) (d_records d)\<rparr>,
      filter (\<lambda>r. \<not> knows_layout peer r) (d_records d))"
  by (cases d) (simp add: split_layouts_def comp_def)

text \<open>The bytes that are the authentic encoding of \<open>d\<close> for this peer and local epoch.\<close>

definition genuine ::
  "crypto \<Rightarrow> peer_config \<Rightarrow> u32 \<Rightarrow> direction \<Rightarrow> bytes \<Rightarrow> u32 \<Rightarrow> datagram \<Rightarrow> bool" where
  "genuine C peer local_epoch dir buf e d \<longleftrightarrow>
     d_sender_id d = p_sender_id peer \<and> d_cipher_id d = cipher_u8 (p_cipher peer)
     \<and> reconstruct_epoch local_epoch (d_epoch_low d) = Some e
     \<and> mac_fits (p_cipher peer) (13 + payload_len d)
     \<and> buf = wire_image C (p_cipher peer) d (p_secret peer) e dir"

lemma authentic_genuine:
  "datagram_wf mt d \<Longrightarrow> genuine C peer local dir buf e d \<Longrightarrow>
   authentic C peer local dir buf (bare d) mt e (payload_bytes d)"
  by (simp add: authentic_def genuine_def datagram_wf_def wire_image_def datagram_tag_def
      signed_message_def)

lemma genuine_authentic:
  assumes "authentic C peer local dir buf out mt e payload" and "decode_frame mt payload out = Ok d"
  shows "datagram_wf mt d \<and> genuine C peer local dir buf e d"
proof -
  have nil: "d_records out = []" "d_raw out = []" using assms(1) by (simp_all add: authentic_def)
  from decode_frame_Ok [OF assms(2) nil]
  have d: "frame_wf mt d" "payload = payload_bytes d" "out = bare d" by simp_all
  show ?thesis
    using assms(1) d(1) unfolding d(2,3)
    by (simp add: authentic_def genuine_def datagram_wf_def wire_image_def datagram_tag_def
        signed_message_def)
qed

lemma decode_Ok_iff:
  assumes "ct_eq_decides C"
  shows "decode C buf peer local dir w = (Ok a, w') \<longleftrightarrow>
    (\<exists>mt e d. datagram_wf mt d \<and> genuine C peer local dir buf e d
       \<and> check_and_set w (d_offset d) = (Ok (), w') \<and> a = accepted_of peer e d)"
    (is "?lhs \<longleftrightarrow> ?rhs")
proof
  assume ?lhs
  then obtain out mt e payload d where
    au: "decode_auth C buf peer local dir = Ok (out, mt, e, payload)" and
    w: "check_and_set w (d_offset out) = (Ok (), w')" and
    fr: "decode_frame mt payload out = Ok d" and a: "a = accepted_of peer e d"
    by (auto simp: decode_def split_layouts_eq accepted_of_def split: result.splits prod.splits)
  from decode_auth_sound [OF assms au] fr
  have "datagram_wf mt d \<and> genuine C peer local dir buf e d" by (rule genuine_authentic)
  moreover have "check_and_set w (d_offset d) = (Ok (), w')"
    using w decode_frame_keeps [OF fr] by simp
  ultimately show ?rhs using a by blast
next
  assume ?rhs
  then obtain mt e d where d: "datagram_wf mt d" "genuine C peer local dir buf e d"
    "check_and_set w (d_offset d) = (Ok (), w')" "a = accepted_of peer e d" by blast
  have au: "decode_auth C buf peer local dir = Ok (bare d, mt, e, payload_bytes d)"
    using authentic_genuine [OF d(1,2)] by (rule decode_auth_complete [OF assms])
  have "decode_frame mt (payload_bytes d) (bare d) = Ok d"
    using d(1) by (intro decode_frame_wf) (simp add: datagram_wf_def)
  with au d(3,4) show ?lhs
    by (simp add: decode_def split_layouts_eq accepted_of_def)
qed

lemma decode_not_Panic [panic_free]: "fst (decode C buf peer local dir w) \<noteq> Panic"
proof -
  have "check_and_set w off \<noteq> (Panic, w')" for off w'
    using check_and_set_cases [of w off] by auto
  then show ?thesis
    by (auto simp: decode_def rbind_eq_Panic split_layouts_eq split: result.splits prod.splits)
qed

text \<open>The window moves only for an authentic datagram, and then exactly by \<open>check_and_set\<close>.\<close>

lemma decode_window:
  "snd (decode C buf peer local dir w) =
     (case decode_auth C buf peer local dir of
        Ok (out, mt, e, payload) \<Rightarrow> snd (check_and_set w (d_offset out)) | _ \<Rightarrow> w)"
  by (auto simp: decode_def split: result.splits prod.splits)

text \<open>
  For the state kept around the decoder: it leaves the window alone, or records one offset; an
  accepted datagram is the recorded one, at the epoch its header reconstructs to, from the sender
  its header names.
\<close>

lemma decode_auth_header:
  assumes "decode_auth C buf peer local dir = Ok (out, mt, e, payload)"
  shows "9 \<le> length buf" and "parse_header buf = Ok out"
    and "reconstruct_epoch local (d_epoch_low out) = Some e"
  using assms by (auto simp: decode_auth_def Let_def not_less)

lemma parse_header_nth:
  assumes "parse_header buf = Ok out" and "9 \<le> length buf"
  shows "d_epoch_low out = buf ! 1 AND 0x0F"
    and "d_sender_id out = from_be [buf ! 5, buf ! 6, buf ! 7, buf ! 8]"
proof -
  obtain b0 b1 b2 b3 b4 b5 b6 b7 b8 rest
    where b: "buf = b0 # b1 # b2 # b3 # b4 # b5 # b6 # b7 # b8 # rest"
    by (rule length_9_cases [OF assms(2)])
  show "d_epoch_low out = buf ! 1 AND 0x0F"
    and "d_sender_id out = from_be [buf ! 5, buf ! 6, buf ! 7, buf ! 8]"
    using assms(1) by (auto simp: b parse_header_Cons)
qed

lemma decode_frame_header: "decode_frame mt payload out = Ok d \<Longrightarrow> d_sender_id d = d_sender_id out"
  by (auto simp: decode_frame_def split: if_splits)

lemma decode_effect:
  assumes "decode C buf peer local dir w = (r, w')"
  shows "w' = w \<and> \<not> is_ok r \<or> (\<exists>off. check_and_set w off = (Ok (), w'))"
proof (cases "decode_auth C buf peer local dir")
  case (Ok x)
  obtain out mt e payload where x: "x = (out, mt, e, payload)" by (cases x)
  consider w1 where "check_and_set w (d_offset out) = (Ok (), w1)"
    | "check_and_set w (d_offset out) = (Err Replay, w)"
    using check_and_set_cases [of w "d_offset out"] by (metis prod.collapse)
  then show ?thesis
    by cases (use assms Ok x in \<open>auto simp: decode_def\<close>)
qed (use assms in \<open>auto simp: decode_def\<close>)

lemma decode_Ok_effect:
  assumes "decode C buf peer local dir w = (Ok a, w')"
  shows "check_and_set w (a_datagram_offset a) = (Ok (), w')"
    and "9 \<le> length buf"
    and "reconstruct_epoch local (buf ! 1 AND 0x0F) = Some (a_epoch_id a)"
    and "d_sender_id (a_datagram a) = from_be [buf ! 5, buf ! 6, buf ! 7, buf ! 8]"
proof -
  obtain out mt e payload d where
    au: "decode_auth C buf peer local dir = Ok (out, mt, e, payload)" and
    w: "check_and_set w (d_offset out) = (Ok (), w')" and
    fr: "decode_frame mt payload out = Ok d" and a: "a = accepted_of peer e d"
    using assms
    by (auto simp: decode_def split_layouts_eq accepted_of_def split: result.splits prod.splits)
  note h = decode_auth_header [OF au]
  note n = parse_header_nth [OF h(2,1)]
  show "check_and_set w (a_datagram_offset a) = (Ok (), w')"
    using w decode_frame_keeps [OF fr] by (simp add: a accepted_of_def)
  show "9 \<le> length buf" by (rule h(1))
  show "reconstruct_epoch local (buf ! 1 AND 0x0F) = Some (a_epoch_id a)"
    using h(3) n(1) by (simp add: a accepted_of_def)
  show "d_sender_id (a_datagram a) = from_be [buf ! 5, buf ! 6, buf ! 7, buf ! 8]"
    using decode_frame_header [OF fr] n(2) by (simp add: a accepted_of_def)
qed

text \<open>What encodes decodes to what was encoded.\<close>

lemma unat_epoch_low: "unat (ucast ((e :: u32) AND 0x0F) :: u8) = unat e mod 16"
  using mod_less_divisor [of 16 "unat e"]
  unfolding mask_simps unat_ucast_mod unat_take_bit_mod by simp

lemma decode_encoded:
  assumes "ct_eq_decides C" and "datagram_wf mt d"
    and "encode C d (p_secret peer) e dir max_size = Ok buf"
    and "d_sender_id d = p_sender_id peer" and "d_cipher_id d = cipher_u8 (p_cipher peer)"
    and "in_epoch_window local e" and "d_epoch_low d = ucast (e AND 0x0F)"
    and "check_and_set w (d_offset d) = (Ok (), w')"
  shows "decode C buf peer local dir w = (Ok (accepted_of peer e d), w')"
proof -
  have "reconstruct_epoch local (d_epoch_low d) = Some e"
    using assms(6,7) by (simp add: reconstruct_epoch_Some unat_epoch_low)
  moreover have "mac_fits (p_cipher peer) (13 + payload_len d)"
    "buf = wire_image C (p_cipher peer) d (p_secret peer) e dir"
    using assms(3,5) by (auto simp: encode_Ok)
  ultimately have "genuine C peer local dir buf e d"
    using assms(4,5) by (simp add: genuine_def)
  with assms(2,8) show ?thesis by (auto simp: decode_Ok_iff [OF assms(1)])
qed

text \<open>A fresh window admits every offset.\<close>

lemma fresh_window_admits: "\<exists>w. check_and_set one_second off = (Ok (), w)"
  by (simp add: check_and_set_def one_second_def window_new_def)

section \<open>What the builders build\<close>

text \<open>
  The datagrams of the public builders of \<open>src/wire.rs\<close>, with records as \<open>Record::new\<close> makes them. Not
  every one of them that encodes is accepted: \<open>Record::new\<close> takes a schema version of 0, and
  \<open>Datagram::control\<close> takes the two types of time recovery.
\<close>

inductive builder_made :: "cipher_id \<Rightarrow> u32 \<Rightarrow> u32 \<Rightarrow> datagram \<Rightarrow> bool" for c s e where
  data:
    "data_datagram mt c s e off (map (\<lambda>(fmt, v, body). record_new fmt v body) rs) = Ok d \<Longrightarrow> builder_made c s e d"
| number: "number_datagram c s e off scale mantissa = Ok d \<Longrightarrow> builder_made c s e d"
| series: "series_datagram c s e scale readings = Ok d \<Longrightarrow> builder_made c s e d"
| control: "control_datagram mt c s e off body = Ok d \<Longrightarrow> builder_made c s e d"

text \<open>The verdict of the receiver on such a datagram.\<close>

definition is_time :: "datagram \<Rightarrow> bool" where
  "is_time d \<longleftrightarrow> d_msg_type d = msg_type_u8 TimeAnnounce \<or> d_msg_type d = msg_type_u8 TimeRequest"

definition built_verdict :: "peer_config \<Rightarrow> u32 \<Rightarrow> datagram \<Rightarrow> (accepted, error) result" where
  "built_verdict peer e d =
     (if is_time d then Err (BadMsgType (d_msg_type d))
      else if \<exists>r \<in> set (d_records d). r_schema_version r = 0
      then Err (Framing ''schema_version 0x00 is invalid'')
      else Ok (accepted_of peer e d))"

definition built_form :: "msg_type \<Rightarrow> datagram \<Rightarrow> bool" where
  "built_form mt d \<longleftrightarrow> hdr_wf d \<and> d_version d = VERSION \<and> d_msg_type d = msg_type_u8 mt
     \<and> (if is_record_framed mt
        then d_raw d = [] \<and> d_records d \<noteq> []
          \<and> (\<forall>r \<in> set (d_records d). r_format r \<noteq> 0 \<and> r_format r AND 0x0F = r_format r)
          \<and> (mt = Event \<or> mt = Alarm \<longrightarrow> length (d_records d) = 1)
        else d_records d = []
          \<and> (mt = Number \<longrightarrow> is_ok (validate_number (d_raw d)))
          \<and> (mt = Series \<longrightarrow> is_ok (validate_series (d_raw d) (d_offset d))))"

lemma format_u8_ok: "format_u8 f \<noteq> 0 \<and> format_u8 f AND 0x0F = format_u8 f"
  by (cases f) simp_all

lemma built_has_form:
  assumes "builder_made c s e d"
  shows "\<exists>mt. built_form mt d" and "d_sender_id d = s" and "d_cipher_id d = cipher_u8 c"
    and "d_epoch_low d = ucast (e AND 0x0F)"
proof -
  have "(\<exists>mt. built_form mt d) \<and> d_sender_id d = s \<and> d_cipher_id d = cipher_u8 c
      \<and> d_epoch_low d = ucast (e AND 0x0F)"
    using assms
  proof cases
    case (data mt off rs)
    then have m: "is_record_framed mt" "off < TICKS_PER_EPOCH" "rs \<noteq> []"
      "mt = Event \<or> mt = Alarm \<longrightarrow> length rs = 1"
      and d: "d = (base mt c s e off)\<lparr>d_records := map (\<lambda>(fmt, v, body). record_new fmt v body) rs\<rparr>"
      by (cases rs; cases "tl rs"; auto simp: data_datagram_def split: if_splits)+
    have "\<forall>r \<in> set (d_records d). r_format r \<noteq> 0 \<and> r_format r AND 0x0F = r_format r"
      using format_u8_ok by (auto simp: d record_new_def)
    with m base_wf [OF m(2)] show ?thesis
      by (intro conjI exI [of _ mt]) (auto simp: built_form_def d)
  next
    case (number off scale mantissa)
    then have off: "off < TICKS_PER_EPOCH" and sc: "scale_is_valid scale"
      and d: "d = (base Number c s e off)\<lparr>d_raw := [scale] @ be_bytes 2 mantissa\<rparr>"
      by (auto simp: number_datagram_def split: if_splits)
    have "validate_number ([scale] @ be_bytes 2 mantissa) = Ok (scale, mantissa)"
      using sc by (simp add: validate_number_Ok)
    with base_wf [OF off] show ?thesis
      by (intro conjI exI [of _ Number]) (auto simp: built_form_def d is_record_framed_def is_ok_iff)
  next
    case (series scale readings)
    then have d: "d = (base Series c s e (fst (hd readings)))\<lparr>d_raw := batch_bytes scale readings\<rparr>"
      "series_values d = Some (scale, readings)" unfolding series_builder_roundtrip by blast+
    then have v: "is_ok (validate_series (d_raw d) (d_offset d))"
      by (auto simp: series_values_def is_ok_iff split: result.splits if_splits)
    have "fst (hd readings) < TICKS_PER_EPOCH"
      using series by (cases readings) (auto simp: series_datagram_def split: if_splits)
    from base_wf [OF this] d(1) v show ?thesis
      by (intro conjI exI [of _ Series]) (auto simp: built_form_def is_record_framed_def)
  next
    case (control mt off body)
    then have off: "off < TICKS_PER_EPOCH" and mt: "is_control (msg_type_u8 mt)"
      and d: "d = (base mt c s e off)\<lparr>d_raw := body\<rparr>"
      by (auto simp: control_datagram_def split: if_splits)
    from mt have "\<not> is_record_framed mt" "mt \<noteq> Number" "mt \<noteq> Series"
      by (auto simp: is_control_def is_record_framed_def)
    with base_wf [OF off] show ?thesis
      by (intro conjI exI [of _ mt]) (auto simp: built_form_def d)
  qed
  then show "\<exists>mt. built_form mt d" "d_sender_id d = s" "d_cipher_id d = cipher_u8 c"
    "d_epoch_low d = ucast (e AND 0x0F)" by blast+
qed

text \<open>What a built datagram decodes to, once it encodes: the window moves unless the type is refused.\<close>

lemma is_time_iff: "d_msg_type d = msg_type_u8 mt \<Longrightarrow> is_time d \<longleftrightarrow> mt = TimeAnnounce \<or> mt = TimeRequest"
  by (cases mt) (simp_all add: is_time_def)

lemma decode_time_refused:
  assumes "hdr_wf d" and "d_version d = VERSION" and "d_msg_type d = msg_type_u8 mt" and "is_time d"
  shows "decode_auth C (header_bytes d @ rest) peer local dir = Err (BadMsgType (d_msg_type d))"
proof -
  have "parse_header (header_bytes d @ rest) = Ok (bare d)"
    using masked_header_wf [OF assms(1)] by (simp add: parse_header_bytes bare_def)
  with assms is_time_iff [OF assms(3)] show ?thesis
    by (simp add: decode_auth_def msg_type_from_u8_u8)
qed

lemma decode_frame_schema_0:
  assumes "built_form mt d" and "\<forall>r \<in> set (d_records d). body_ok r"
    and "\<exists>r \<in> set (d_records d). r_schema_version r = 0"
  shows "decode_frame mt (payload_bytes d) out = Err (Framing ''schema_version 0x00 is invalid'')"
proof -
  have mt: "is_record_framed mt" and ne: "d_records d \<noteq> []"
    using assms(1,3) by (auto simp: built_form_def split: if_splits)
  then have w: "\<forall>r \<in> set (d_records d). writable r"
    using assms(1,2) by (simp add: built_form_def writable_def)
  have p: "payload_bytes d = concat (map record_bytes (d_records d))" using ne by (simp add: payload_bytes_def)
  have "3 \<le> length (payload_bytes d)" using ne by (cases "d_records d") (simp_all add: p wire_len_def)
  moreover have "decode_records (payload_bytes d) 0 [] = Err (Framing ''schema_version 0x00 is invalid'')"
    using records_of_schema_0 [OF w assms(3)] by (simp add: p records_of_def)
  ultimately show ?thesis using mt by (simp add: decode_frame_def del: length_payload_bytes)
qed

lemma built_form_wf:
  assumes "built_form mt d" and "\<forall>r \<in> set (d_records d). body_ok r" and "\<not> is_time d"
    and "\<forall>r \<in> set (d_records d). r_schema_version r \<noteq> 0"
  shows "datagram_wf mt d"
  using assms
  by (auto simp: built_form_def is_time_iff datagram_wf_def frame_wf_def record_ok_writable writable_def
      split: if_splits)

lemma decode_built:
  assumes "ct_eq_decides C" and "builder_made (p_cipher peer) (p_sender_id peer) e d"
    and "encode C d (p_secret peer) e dir max_size = Ok buf"
    and "in_epoch_window local e" and "check_and_set w (d_offset d) = (Ok (), w')"
  shows "decode C buf peer local dir w = (built_verdict peer e d, if is_time d then w else w')"
proof -
  obtain mt where f: "built_form mt d" using built_has_form(1) [OF assms(2)] by blast
  then have mt: "hdr_wf d" "d_version d = VERSION" "d_msg_type d = msg_type_u8 mt"
    by (simp_all add: built_form_def)
  note h = built_has_form(2-4) [OF assms(2)]
  let ?c = "p_cipher peer"
  have enc: "\<forall>r \<in> set (d_records d). body_ok r" "mac_fits ?c (13 + payload_len d)"
    "buf = wire_image C ?c d (p_secret peer) e dir"
    using assms(3) h(2) by (auto simp: encode_Ok)
  consider "is_time d" | "\<not> is_time d" "\<exists>r \<in> set (d_records d). r_schema_version r = 0"
    | "\<not> is_time d" "\<forall>r \<in> set (d_records d). r_schema_version r \<noteq> 0" by blast
  then show ?thesis
  proof cases
    case 1
    then show ?thesis
      by (simp add: decode_def enc(3) wire_image_def decode_time_refused [OF mt] built_verdict_def)
  next
    case 2
    have "reconstruct_epoch local (d_epoch_low d) = Some e"
      using assms(4) h(3) by (simp add: reconstruct_epoch_Some unat_epoch_low)
    with 2(1) mt h(1,2) enc(2) have "authentic C peer local dir buf (bare d) mt e (payload_bytes d)"
      by (simp add: is_time_iff authentic_def enc(3) wire_image_def datagram_tag_def signed_message_def)
    from decode_auth_complete [OF assms(1) this] decode_frame_schema_0 [OF f enc(1) 2(2)] 2 assms(5)
    show ?thesis by (simp add: decode_def built_verdict_def)
  next
    case 3
    from decode_encoded [OF assms(1) built_form_wf [OF f enc(1) 3] assms(3) h(1,2) assms(4) h(3) assms(5)] 3
    show ?thesis by (auto simp: built_verdict_def)
  qed
qed

lemma accepted_unchanged:
  "\<forall>r \<in> set (d_records d). knows_layout peer r \<Longrightarrow>
   accepted_of peer e d = \<lparr>a_datagram = d, a_epoch_id = e, a_datagram_offset = d_offset d, a_skipped = []\<rparr>"
  by (cases d) (simp add: accepted_of_def filter_id_conv filter_empty_conv)

section \<open>Properties\<close>

text \<open>C1: The decoder accepts exactly the authentic encodings: with a comparison that decides equality, a
  datagram is accepted precisely when its bytes are the wire image of a well-formed datagram of
  this peer, under the peer's cipher and the key of the reconstructed epoch and direction, and the
  replay window admits its offset; the result is that datagram, its records split by layout.\<close>

theorem decode_accepts_exactly:
  assumes "ct_eq_decides C"
  shows "decode C buf peer local dir w = (Ok a, w') \<longleftrightarrow>
    (\<exists>mt e d. datagram_wf mt d \<and> genuine C peer local dir buf e d
       \<and> check_and_set w (d_offset d) = (Ok (), w') \<and> a = accepted_of peer e d)"
  using assms by (rule decode_Ok_iff)

definition demo_peer :: peer_config where
  "demo_peer = \<lparr>p_sender_id = 7, p_secret = replicate 32 9, p_cipher = HmacSha256T64,
     p_layouts = [], p_inbound_rate_limit = None\<rparr>"

definition demo_datagram :: datagram where
  "demo_datagram = (base Number HmacSha256T64 7 3 9)\<lparr>d_raw := [1, 0, 5]\<rparr>"

lemma demo_datagram_wf: "datagram_wf Number demo_datagram"
proof -
  have "validate_number [1, 0, 5] = Ok (1, 5)"
    by (simp add: validate_number_Ok scale_is_valid_def byte_simps)
  moreover have "hdr_wf (base Number HmacSha256T64 7 3 9)" by (rule base_wf) simp
  ultimately show ?thesis
    by (simp add: demo_datagram_def datagram_wf_def frame_wf_def is_record_framed_def is_ok_iff)
qed

lemma demo_genuine:
  "genuine demo_crypto demo_peer 3 NodeToCollector
     (wire_image demo_crypto HmacSha256T64 demo_datagram (replicate 32 9) 3 NodeToCollector)
     3 demo_datagram"
  by (simp add: genuine_def demo_peer_def demo_datagram_def mac_fits_def reconstruct_epoch_def)

theorem decode_accepts_exactly_witness:
  "fst (decode demo_crypto
      (wire_image demo_crypto HmacSha256T64 demo_datagram (replicate 32 9) 3 NodeToCollector)
      demo_peer 3 NodeToCollector one_second) = Ok (accepted_of demo_peer 3 demo_datagram)"
proof -
  obtain w' where "check_and_set one_second (d_offset demo_datagram) = (Ok (), w')"
    by (simp add: check_and_set_def one_second_def window_new_def)
  with demo_datagram_wf demo_genuine decode_accepts_exactly [OF demo_crypto_ct_eq]
  show ?thesis by (metis fst_conv)
qed

text \<open>C2: What the builders build and \<open>encode\<close> encodes decodes to what was built, or to one of two
  refusals. For a peer with the sender id, suite and secret of the datagram, built and encoded for an
  epoch inside the receiver's two-epoch window, and an offset the replay window admits, the verdict is the one of
  \<open>built_verdict\<close>: the two types of time recovery are refused before the window is touched; a record
  with schema version 0, which \<open>Record::new\<close> and \<open>encode\<close> let pass, makes the framing fail after its
  offset is recorded; every other datagram is accepted, the records of layouts the peer does not know
  moved to \<open>skipped\<close>. With every layout known it comes back exactly as it was built.\<close>

theorem encode_decode_roundtrip:
  assumes "ct_eq_decides C" and "builder_made (p_cipher peer) (p_sender_id peer) e d"
    and "encode C d (p_secret peer) e dir max_size = Ok buf"
    and "in_epoch_window local e" and "check_and_set w (d_offset d) = (Ok (), w')"
  shows "decode C buf peer local dir w = (built_verdict peer e d, if is_time d then w else w')
    \<and> ((\<forall>r \<in> set (d_records d). knows_layout peer r) \<longrightarrow>
         accepted_of peer e d
         = \<lparr>a_datagram = d, a_epoch_id = e, a_datagram_offset = d_offset d, a_skipped = []\<rparr>)"
  using decode_built [OF assms] accepted_unchanged by blast

text \<open>A reading that is accepted, and a record of schema version 0 that encodes and is refused.\<close>

definition schema_0_datagram :: datagram where
  "schema_0_datagram = (base Event HmacSha256T64 7 3 9)\<lparr>d_records := [record_new Cbor 0 [1]]\<rparr>"

lemma demo_built:
  "builder_made HmacSha256T64 7 3 demo_datagram" "builder_made HmacSha256T64 7 3 schema_0_datagram"
proof -
  have "number_datagram HmacSha256T64 7 3 9 1 5 = Ok demo_datagram"
    by (simp add: number_datagram_def demo_datagram_def scale_is_valid_def byte_simps)
  then show "builder_made HmacSha256T64 7 3 demo_datagram" by (rule builder_made.number)
  have "data_datagram Event HmacSha256T64 7 3 9 (map (\<lambda>(fmt, v, body). record_new fmt v body) [(Cbor, 0, [1])])
      = Ok schema_0_datagram"
    by (simp add: data_datagram_def schema_0_datagram_def is_record_framed_def)
  then show "builder_made HmacSha256T64 7 3 schema_0_datagram" by (rule builder_made.data)
qed

lemma demo_verdicts:
  "built_verdict demo_peer 3 demo_datagram
   = Ok \<lparr>a_datagram = demo_datagram, a_epoch_id = 3, a_datagram_offset = 9, a_skipped = []\<rparr>"
  "built_verdict demo_peer 3 schema_0_datagram = Err (Framing ''schema_version 0x00 is invalid'')"
  by (simp_all add: built_verdict_def is_time_def accepted_of_def demo_datagram_def schema_0_datagram_def
      record_new_def)

lemma demo_encodes:
  "d = demo_datagram \<or> d = schema_0_datagram \<Longrightarrow>
   \<exists>buf. encode demo_crypto d (p_secret demo_peer) 3 CollectorToNode 512 = Ok buf"
  by (auto simp: encode_eq demo_datagram_def schema_0_datagram_def mac_fits_def payload_len_def
      cipher_from_u8_def record_new_def body_ok_def wire_len_def)

theorem encode_decode_roundtrip_witness:
  "(\<exists>buf w'. encode demo_crypto demo_datagram (p_secret demo_peer) 3 CollectorToNode 512 = Ok buf
     \<and> decode demo_crypto buf demo_peer 4 CollectorToNode one_second
       = (Ok \<lparr>a_datagram = demo_datagram, a_epoch_id = 3, a_datagram_offset = 9, a_skipped = []\<rparr>, w'))
   \<and> (\<exists>buf w'. encode demo_crypto schema_0_datagram (p_secret demo_peer) 3 CollectorToNode 512 = Ok buf
     \<and> decode demo_crypto buf demo_peer 4 CollectorToNode one_second
       = (Err (Framing ''schema_version 0x00 is invalid''), w'))"
proof -
  have trip: "\<exists>buf w'. encode demo_crypto d (p_secret demo_peer) 3 CollectorToNode 512 = Ok buf
     \<and> decode demo_crypto buf demo_peer 4 CollectorToNode one_second = (built_verdict demo_peer 3 d, w')"
    if d: "d = demo_datagram \<or> d = schema_0_datagram" for d
  proof -
    have b: "builder_made (p_cipher demo_peer) (p_sender_id demo_peer) 3 d"
      using d demo_built by (auto simp: demo_peer_def)
    have win: "in_epoch_window 4 3" by (simp add: in_epoch_window_def)
    obtain buf where buf: "encode demo_crypto d (p_secret demo_peer) 3 CollectorToNode 512 = Ok buf"
      using demo_encodes [OF d] by blast
    obtain w' where "check_and_set one_second (d_offset d) = (Ok (), w')" using fresh_window_admits by blast
    from encode_decode_roundtrip [OF demo_crypto_ct_eq b buf win this] buf show ?thesis by blast
  qed
  from trip [of demo_datagram] trip [of schema_0_datagram] show ?thesis by (simp add: demo_verdicts)
qed

text \<open>Re-encoding what was accepted reproduces the received bytes, when no record was skipped for its
  layout: the wire format has one encoding per datagram (the property the round-trip fuzz target
  tests).\<close>

lemma decode_reencode:
  assumes "ct_eq_decides C" and "decode C buf peer local dir w = (Ok a, w')" and "a_skipped a = []"
    and "length buf \<le> max_size"
  shows "encode C (a_datagram a) (p_secret peer) (a_epoch_id a) dir max_size = Ok buf"
proof -
  obtain mt e d where d: "datagram_wf mt d" "genuine C peer local dir buf e d"
    "a = accepted_of peer e d"
    using assms(2) by (auto simp: decode_Ok_iff [OF assms(1)])
  have "filter (knows_layout peer) (d_records d) = d_records d"
    using assms(3) d(3) by (simp add: accepted_of_def filter_id_conv filter_empty_conv)
  then have "a_datagram a = d" "a_epoch_id a = e" using d(3) by (simp_all add: accepted_of_def)
  moreover have "\<forall>r \<in> set (d_records d). body_ok r"
    using d(1) by (auto simp: datagram_wf_def frame_wf_def record_ok_def split: if_splits)
  ultimately show ?thesis
    using d(2) assms(4) by (auto simp: encode_Ok genuine_def length_wire_image)
qed

text \<open>C4: No input makes the decoder panic: every index and every slice it takes of an arbitrary buffer is
  in range, whatever the peer, the epoch, the primitives and the window (the property the decoding
  fuzz target tests).\<close>

theorem decode_never_panics: "fst (decode C buf peer local dir w) \<noteq> Panic"
  by (rule decode_not_Panic)

text \<open>C5: The replay window is touched only after authentication: unless steps 1 to 7 establish an authentic
  datagram, the window afterwards is the window before, and then it changes exactly as recording
  the authenticated offset changes it, whether or not the payload then frames correctly.\<close>

theorem decode_state_only_after_auth:
  assumes "ct_eq_decides C"
  shows "snd (decode C buf peer local dir w) = w
    \<or> (\<exists>out mt e payload. authentic C peer local dir buf out mt e payload
         \<and> snd (decode C buf peer local dir w) = snd (check_and_set w (d_offset out)))"
proof (cases "decode_auth C buf peer local dir")
  case (Ok x)
  then obtain out mt e payload where "x = (out, mt, e, payload)" by (cases x)
  with Ok decode_auth_sound [OF assms, of buf peer local dir out mt e payload] show ?thesis
    by (simp add: decode_window) blast
qed (simp_all add: decode_window)

theorem decode_state_only_after_auth_witness:
  "snd (decode demo_crypto [] demo_peer 3 NodeToCollector one_second) = one_second"
proof -
  have "decode_auth demo_crypto [] demo_peer 3 NodeToCollector = Err TooShort"
    by (simp add: decode_auth_def)
  moreover have "\<not> authentic demo_crypto demo_peer 3 NodeToCollector [] out mt e payload"
    for out mt e payload
    using decode_auth_complete [OF demo_crypto_ct_eq] calculation by fastforce
  ultimately show ?thesis
    using decode_state_only_after_auth [OF demo_crypto_ct_eq, of "[]" demo_peer 3 NodeToCollector
        one_second] by blast
qed

end
