(* ===== verification/Catp_Store.thy ===== *)
theory Catp_Store
  imports Catp_Epoch Catp_Replay
begin

text \<open>
  The interface between a peer and its store of replay windows, one per accepted epoch: visiting
  an epoch discards the windows outside the acceptance window, runs an operation on that epoch's
  window (a fresh one if there is none) and keeps the others. From it alone follows that no
  \<open>(epoch, offset)\<close> pair is recorded twice while the local epoch does not go back.
\<close>

text \<open>
  \<open>store_rep ok get s l T\<close>: in store \<open>s\<close>, last visited at local epoch \<open>l\<close> or before, the recorded pairs
  are \<open>T\<close>. A recorded epoch has its window, or is too old ever to be visited again.
\<close>

definition store_rep ::
  "('s \<Rightarrow> bool) \<Rightarrow> ('s \<Rightarrow> u32 \<Rightarrow> replay_window option) \<Rightarrow> 's \<Rightarrow> u32 \<Rightarrow> (u32 \<times> u32) set \<Rightarrow> bool" where
  "store_rep ok get s l T \<longleftrightarrow> ok s \<and>
     (\<forall>e. case get s e of
        Some w \<Rightarrow> e \<le> l \<and> window_rep w {x. (e, x) \<in> T}
      | None \<Rightarrow> (\<forall>x. (e, x) \<notin> T) \<or> Suc (unat e) < unat l)"

lemma store_rep_at:
  "store_rep ok get s l T \<Longrightarrow>
   (case get s e of
      Some w \<Rightarrow> e \<le> l \<and> window_rep w {x. (e, x) \<in> T}
    | None \<Rightarrow> (\<forall>x. (e, x) \<notin> T) \<or> Suc (unat e) < unat l)"
  unfolding store_rep_def by blast

lemma window_rep_one_second: "window_rep one_second {}"
  unfolding one_second_def DEFAULT_WINDOW_WORDS_def by (rule window_rep_new) simp_all

lemma store_rep_later:
  assumes "store_rep ok get s l T" and "l \<le> l'"
  shows "store_rep ok get s l' T"
proof -
  have "unat l \<le> unat l'" using assms(2) by (simp add: word_le_nat_alt)
  with assms show ?thesis
    unfolding store_rep_def by (fastforce split: option.splits intro: order_trans)
qed

text \<open>The window an operation on epoch \<open>e\<close> runs on.\<close>

definition window_at :: "('s \<Rightarrow> u32 \<Rightarrow> replay_window option) \<Rightarrow> 's \<Rightarrow> u32 \<Rightarrow> replay_window" where
  "window_at get s e = (case get s e of Some w \<Rightarrow> w | None \<Rightarrow> one_second)"

lemma store_rep_window_at:
  assumes "store_rep ok get s l T" and "l \<le> local" and "in_epoch_window local e"
  shows "window_rep (window_at get s e) {x. (e, x) \<in> T}"
proof (cases "get s e")
  case None
  have "unat l \<le> unat local" using assms(2) by (simp add: word_le_nat_alt)
  then have "\<not> Suc (unat e) < unat l" using assms(3) by (auto simp: in_epoch_window_iff)
  moreover have "(\<forall>x. (e, x) \<notin> T) \<or> Suc (unat e) < unat l"
    using store_rep_at [OF assms(1), of e] None by simp
  ultimately have "{x. (e, x) \<in> T} = {}" by auto
  then show ?thesis using None window_rep_one_second by (simp add: window_at_def)
next
  case (Some w)
  then show ?thesis
    using store_rep_at [OF assms(1), of e] by (simp add: window_at_def)
qed

locale epoch_store =
  fixes ok :: "'s \<Rightarrow> bool"
    and get :: "'s \<Rightarrow> u32 \<Rightarrow> replay_window option"
    and visit :: "u32 \<Rightarrow> u32 \<Rightarrow> (replay_window \<Rightarrow> 'r \<times> replay_window) \<Rightarrow> 's \<Rightarrow> 'r \<times> 's"
  assumes visit_result:
      "ok s \<Longrightarrow> in_epoch_window local e \<Longrightarrow> visit local e f s = (r, s') \<Longrightarrow>
       r = fst (f (window_at get s e))"
    and visit_ok:
      "ok s \<Longrightarrow> in_epoch_window local e \<Longrightarrow> visit local e f s = (r, s') \<Longrightarrow> ok s'"
    and visit_get:
      "ok s \<Longrightarrow> in_epoch_window local e \<Longrightarrow> visit local e f s = (r, s') \<Longrightarrow>
       get s' e' =
         (if e' = e then Some (snd (f (window_at get s e)))
          else if in_epoch_window local e' then get s e' else None)"
begin

lemma visit_rep:
  assumes rep: "store_rep ok get s l T" and le: "l \<le> local" and win: "in_epoch_window local e"
    and v: "visit local e f s = (r, s')"
    and w': "window_rep (snd (f (window_at get s e))) {x. (e, x) \<in> T'}"
    and other: "\<And>e' x. e' \<noteq> e \<Longrightarrow> (e', x) \<in> T' \<longleftrightarrow> (e', x) \<in> T"
  shows "store_rep ok get s' local T'"
proof -
  have ok: "ok s" using rep by (simp add: store_rep_def)
  have l: "unat l \<le> unat local" using le by (simp add: word_le_nat_alt)
  have "case get s' e' of
        Some w \<Rightarrow> e' \<le> local \<and> window_rep w {x. (e', x) \<in> T'}
      | None \<Rightarrow> (\<forall>x. (e', x) \<notin> T') \<or> Suc (unat e') < unat local" for e'
  proof (cases "e' = e")
    case True
    have "e \<le> local" using win by (auto simp: in_epoch_window_iff word_le_nat_alt)
    with True w' show ?thesis by (simp add: visit_get [OF ok win v])
  next
    case False
    have "case get s e' of
        Some w \<Rightarrow> e' \<le> l \<and> window_rep w {x. (e', x) \<in> T}
      | None \<Rightarrow> (\<forall>x. (e', x) \<notin> T) \<or> Suc (unat e') < unat l"
      using rep by (rule store_rep_at)
    then show ?thesis
      using False l other [OF False]
      by (cases "get s e'")
        (auto simp: visit_get [OF ok win v] in_epoch_window_iff word_le_nat_alt)
  qed
  with visit_ok [OF ok win v] show ?thesis by (simp add: store_rep_def)
qed

text \<open>
  What a client relies on: the operation ran on the epoch's window; if it left the window alone
  nothing is recorded, and if it recorded an offset then the pair is new.
\<close>

lemma visit_once:
  assumes rep: "store_rep ok get s l T" and le: "l \<le> local" and win: "in_epoch_window local e"
    and v: "visit local e f s = (r, s')"
  defines "w \<equiv> window_at get s e"
  shows "r = fst (f w)"
    and "snd (f w) = w \<Longrightarrow> store_rep ok get s' local T"
    and "check_and_set w off = (Ok (), snd (f w)) \<Longrightarrow>
      (e, off) \<notin> T \<and> store_rep ok get s' local (insert (e, off) T)"
proof -
  have ok: "ok s" using rep by (simp add: store_rep_def)
  have cur: "window_rep w {x. (e, x) \<in> T}"
    unfolding w_def using rep le win by (rule store_rep_window_at)
  show "r = fst (f w)" unfolding w_def by (rule visit_result [OF ok win v])
  show "store_rep ok get s' local T" if "snd (f w) = w"
    using cur that by (intro visit_rep [OF rep le win v]) (simp_all add: w_def)
  assume c: "check_and_set w off = (Ok (), snd (f w))"
  have "spec_admits (entries w) {x. (e, x) \<in> T} off"
    using check_and_set_refines [OF cur, of off] c by (auto split: if_splits)
  then have new: "(e, off) \<notin> T"
    and w': "window_rep (snd (f w)) (insert off {x. (e, x) \<in> T})"
    using check_and_set_refines [OF cur, of off] c by (auto simp: spec_admits_def)
  have "{x. (e, x) \<in> insert (e, off) T} = insert off {x. (e, x) \<in> T}" by auto
  with w' have "store_rep ok get s' local (insert (e, off) T)"
    by (intro visit_rep [OF rep le win v]) (simp_all add: w_def)
  with new show "(e, off) \<notin> T \<and> store_rep ok get s' local (insert (e, off) T)" by simp
qed

end

end
