(* ===== verification/Catp_Peer.thy ===== *)
theory Catp_Peer
  imports Catp_Decode Catp_Store
begin

text \<open>
  One sender's receiver state, from \<open>src/peer.rs\<close>: the discard counters (\<open>Stats\<close>), the two-slot
  store of replay windows, \<open>PeerState::accept\<close> and the announced-epoch mark. A counter is a 64-bit
  word; an addition past its end wraps, as in a release build. The slots are a list of length 2.
\<close>

section \<open>Counters\<close>

record stats =
  st_accepted :: u64
  st_too_short :: u64
  st_unsupported_version :: u64
  st_bad_msg_type :: u64
  st_unknown_sender :: u64
  st_cipher_mismatch :: u64
  st_epoch_out_of_window :: u64
  st_auth_failed :: u64
  st_replay :: u64
  st_framing :: u64
  st_rate_limited :: u64
  st_skipped_records :: u64

definition stats_default :: stats where
  "stats_default =
     \<lparr>st_accepted = 0, st_too_short = 0, st_unsupported_version = 0, st_bad_msg_type = 0,
      st_unknown_sender = 0, st_cipher_mismatch = 0, st_epoch_out_of_window = 0,
      st_auth_failed = 0, st_replay = 0, st_framing = 0, st_rate_limited = 0,
      st_skipped_records = 0\<rparr>"

definition record_error :: "error \<Rightarrow> stats \<Rightarrow> stats" where
  "record_error e st =
     (case e of
        TooShort \<Rightarrow> st\<lparr>st_too_short := st_too_short st + 1\<rparr>
      | UnsupportedVersion _ \<Rightarrow> st\<lparr>st_unsupported_version := st_unsupported_version st + 1\<rparr>
      | BadMsgType _ \<Rightarrow> st\<lparr>st_bad_msg_type := st_bad_msg_type st + 1\<rparr>
      | UnknownSender _ \<Rightarrow> st\<lparr>st_unknown_sender := st_unknown_sender st + 1\<rparr>
      | CipherMismatch _ _ \<Rightarrow> st\<lparr>st_cipher_mismatch := st_cipher_mismatch st + 1\<rparr>
      | EpochOutOfWindow \<Rightarrow> st\<lparr>st_epoch_out_of_window := st_epoch_out_of_window st + 1\<rparr>
      | AuthFailed \<Rightarrow> st\<lparr>st_auth_failed := st_auth_failed st + 1\<rparr>
      | Replay \<Rightarrow> st\<lparr>st_replay := st_replay st + 1\<rparr>
      | Framing _ \<Rightarrow> st\<lparr>st_framing := st_framing st + 1\<rparr>
      | BadNumber _ \<Rightarrow> st\<lparr>st_framing := st_framing st + 1\<rparr>
      | BadSeries _ \<Rightarrow> st\<lparr>st_framing := st_framing st + 1\<rparr>
      | BodyTooLarge _ \<Rightarrow> st\<lparr>st_framing := st_framing st + 1\<rparr>
      | RateLimited \<Rightarrow> st\<lparr>st_rate_limited := st_rate_limited st + 1\<rparr>
      | _ \<Rightarrow> st)"

definition record_result :: "(accepted, error) result \<Rightarrow> stats \<Rightarrow> stats" where
  "record_result r st =
     (case r of
        Ok acc \<Rightarrow> st\<lparr>st_accepted := st_accepted st + 1,
                     st_skipped_records := st_skipped_records st + of_nat (length (a_skipped acc))\<rparr>
      | Err e \<Rightarrow> record_error e st
      | Panic \<Rightarrow> st)"

definition stats_merge :: "stats \<Rightarrow> stats \<Rightarrow> stats" where
  "stats_merge a b =
     \<lparr>st_accepted = st_accepted a + st_accepted b,
      st_too_short = st_too_short a + st_too_short b,
      st_unsupported_version = st_unsupported_version a + st_unsupported_version b,
      st_bad_msg_type = st_bad_msg_type a + st_bad_msg_type b,
      st_unknown_sender = st_unknown_sender a + st_unknown_sender b,
      st_cipher_mismatch = st_cipher_mismatch a + st_cipher_mismatch b,
      st_epoch_out_of_window = st_epoch_out_of_window a + st_epoch_out_of_window b,
      st_auth_failed = st_auth_failed a + st_auth_failed b,
      st_replay = st_replay a + st_replay b,
      st_framing = st_framing a + st_framing b,
      st_rate_limited = st_rate_limited a + st_rate_limited b,
      st_skipped_records = st_skipped_records a + st_skipped_records b\<rparr>"

section \<open>The window slots\<close>

record epoch_window =
  ew_epoch :: u32
  ew_window :: replay_window

type_synonym slots = "epoch_window option list"

definition saturating_add_u32 :: "u32 \<Rightarrow> u32 \<Rightarrow> u32" where
  "saturating_add_u32 a b = (if unat a + unat b < 2 ^ 32 then a + b else - 1)"

definition prune :: "u32 \<Rightarrow> slots \<Rightarrow> slots" where
  "prune local_epoch windows =
     map (\<lambda>slot. case slot of
            Some ew \<Rightarrow>
              if \<not> (local_epoch \<le> saturating_add_u32 (ew_epoch ew) 1 \<and> ew_epoch ew \<le> local_epoch)
              then None else slot
          | None \<Rightarrow> None) windows"

text \<open>\<open>Iterator::position\<close>.\<close>

fun position :: "('a \<Rightarrow> bool) \<Rightarrow> 'a list \<Rightarrow> nat option" where
  "position P [] = None"
| "position P (x # xs) = (if P x then Some 0 else map_option Suc (position P xs))"

definition slot_is :: "u32 \<Rightarrow> epoch_window option \<Rightarrow> bool" where
  "slot_is epoch slot = (case slot of Some ew \<Rightarrow> ew_epoch ew = epoch | None \<Rightarrow> False)"

text \<open>The slots after the call and the index of the slot whose window is returned.\<close>

definition window_for :: "slots \<Rightarrow> u32 \<Rightarrow> slots \<times> nat" where
  "window_for windows epoch =
     (case position (slot_is epoch) windows of
        Some i \<Rightarrow> (windows, i)
      | None \<Rightarrow>
          (case position (\<lambda>s. s = None) windows of
             Some i \<Rightarrow> (windows[i := Some \<lparr>ew_epoch = epoch, ew_window = one_second\<rparr>], i)
           | None \<Rightarrow> (windows[0 := Some \<lparr>ew_epoch = epoch, ew_window = one_second\<rparr>], 0)))"

text \<open>
  Prune, fetch the epoch's window, run \<open>f\<close> on it, and store the window \<open>f\<close> leaves: the lifetime of
  the borrow that \<open>window_for\<close> hands to \<open>decode\<close>.
\<close>

definition with_window ::
  "u32 \<Rightarrow> u32 \<Rightarrow> (replay_window \<Rightarrow> ('a, error) result \<times> replay_window) \<Rightarrow> slots
   \<Rightarrow> ('a, error) result \<times> slots" where
  "with_window local_epoch epoch f windows =
     (case window_for (prune local_epoch windows) epoch of
        (windows, i) \<Rightarrow>
          (case windows ! i of
             None \<Rightarrow> (Panic, windows)
           | Some ew \<Rightarrow>
               (case f (ew_window ew) of
                  (r, w) \<Rightarrow> (r, windows[i := Some (ew\<lparr>ew_window := w\<rparr>)]))))"

section \<open>The peer\<close>

record peer_state =
  ps_config :: peer_config
  ps_windows :: slots
  ps_highest_epoch_announced :: "u32 option"
  ps_limiter :: "inbound_limiter option"
  ps_stats :: stats

definition peer_new :: "peer_config \<Rightarrow> (peer_state, error) result" where
  "peer_new config =
     (if requires_inbound_rate_limit (p_cipher config) \<and> p_inbound_rate_limit config = None
      then Err (CipherRequiresRateLimit (cipher_u8 (p_cipher config)))
      else Ok \<lparr>ps_config = config, ps_windows = [None, None], ps_highest_epoch_announced = None,
              ps_limiter = map_option limiter_new (p_inbound_rate_limit config),
              ps_stats = stats_default\<rparr>)"

definition accept_inner ::
  "crypto \<Rightarrow> bytes \<Rightarrow> u32 \<Rightarrow> direction \<Rightarrow> u64 \<Rightarrow> peer_state
   \<Rightarrow> (accepted, error) result \<times> peer_state" where
  "accept_inner C buf local_epoch dir now_ms s =
     (if length buf < HEADER_LEN then (Err TooShort, s)
      else case rbind (idx buf 1) (\<lambda>b1.
                  ok_or (reconstruct_epoch local_epoch (b1 AND 0x0F)) EpochOutOfWindow) of
        Err e \<Rightarrow> (Err e, s)
      | Panic \<Rightarrow> (Panic, s)
      | Ok epoch \<Rightarrow>
          (case with_window local_epoch epoch (decode C buf (ps_config s) local_epoch dir)
                  (ps_windows s) of
             (Err e, windows) \<Rightarrow> (Err e, s\<lparr>ps_windows := windows\<rparr>)
           | (Panic, windows) \<Rightarrow> (Panic, s\<lparr>ps_windows := windows\<rparr>)
           | (Ok acc, windows) \<Rightarrow>
               (case ps_limiter s of
                  None \<Rightarrow> (Ok acc, s\<lparr>ps_windows := windows\<rparr>)
                | Some limiter \<Rightarrow>
                    (case try_acquire limiter now_ms of
                       (granted, limiter) \<Rightarrow>
                         (if granted then Ok acc else Err RateLimited,
                          s\<lparr>ps_windows := windows, ps_limiter := Some limiter\<rparr>)))))"

definition peer_accept ::
  "crypto \<Rightarrow> bytes \<Rightarrow> u32 \<Rightarrow> direction \<Rightarrow> u64 \<Rightarrow> peer_state
   \<Rightarrow> (accepted, error) result \<times> peer_state" where
  "peer_accept C buf local_epoch dir now_ms s =
     (case accept_inner C buf local_epoch dir now_ms s of
        (r, s) \<Rightarrow> (r, s\<lparr>ps_stats := record_result r (ps_stats s)\<rparr>))"

definition rate_limited_count :: "peer_state \<Rightarrow> u64" where
  "rate_limited_count s = st_rate_limited (ps_stats s)"

definition accept_epoch_announce :: "u32 \<Rightarrow> peer_state \<Rightarrow> (unit, error) result \<times> peer_state" where
  "accept_epoch_announce target_epoch s =
     (case ps_highest_epoch_announced s of
        Some hi \<Rightarrow>
          if target_epoch \<le> hi then (Err (EpochRollback target_epoch hi), s)
          else (Ok (), s\<lparr>ps_highest_epoch_announced := Some target_epoch\<rparr>)
      | None \<Rightarrow> (Ok (), s\<lparr>ps_highest_epoch_announced := Some target_epoch\<rparr>))"

definition live_windows :: "peer_state \<Rightarrow> nat" where
  "live_windows s = length (filter (\<lambda>slot. slot \<noteq> None) (ps_windows s))"

section \<open>The two slots are a store of windows\<close>

definition slot_get :: "slots \<Rightarrow> u32 \<Rightarrow> replay_window option" where
  "slot_get windows e =
     (case find (slot_is e) windows of Some (Some ew) \<Rightarrow> Some (ew_window ew) | _ \<Rightarrow> None)"

fun slots_distinct :: "slots \<Rightarrow> bool" where
  "slots_distinct [Some a, Some b] = (ew_epoch a \<noteq> ew_epoch b)"
| "slots_distinct _ = True"

definition slots_ok :: "slots \<Rightarrow> bool" where
  "slots_ok windows \<longleftrightarrow> length windows = 2 \<and> slots_distinct windows"

definition slot_kept :: "u32 \<Rightarrow> epoch_window option \<Rightarrow> epoch_window option" where
  "slot_kept local slot =
     (case slot of
        Some ew \<Rightarrow> if in_epoch_window local (ew_epoch ew) then Some ew else None | None \<Rightarrow> None)"

lemma prune_keep_iff:
  "local \<le> saturating_add_u32 e 1 \<and> e \<le> local \<longleftrightarrow> in_epoch_window local e"
proof -
  have "unat (saturating_add_u32 e 1) = min (Suc (unat e)) (2 ^ 32 - 1)"
    by (simp add: saturating_add_u32_def unat_word_ariths(1) unsigned_minus_1_eq_mask
        mask_eq_exp_minus_1)
  then show ?thesis
    using unat_u32_less [of local] by (auto simp: in_epoch_window_iff word_le_nat_alt)
qed

lemma prune_eq: "prune local windows = map (slot_kept local) windows"
proof -
  have "(case slot of
            Some ew \<Rightarrow>
              if \<not> (local \<le> saturating_add_u32 (ew_epoch ew) 1 \<and> ew_epoch ew \<le> local)
              then None else slot
          | None \<Rightarrow> None) = slot_kept local slot" for slot
    by (cases slot) (simp_all add: slot_kept_def prune_keep_iff del: de_Morgan_conj)
  then show ?thesis by (simp add: prune_def)
qed

lemma slots_cases:
  assumes "slots_ok windows"
  obtains a b where "windows = [a, b]" "slots_distinct [a, b]"
  using assms by (auto simp: slots_ok_def numeral_2_eq_2 length_Suc_conv)

lemma slot_get_prune:
  "slots_ok windows \<Longrightarrow>
   slot_get (prune local windows) e = (if in_epoch_window local e then slot_get windows e else None)"
  by (elim slots_cases)
    (auto simp: slot_get_def prune_eq slot_kept_def slot_is_def split: option.splits)

text \<open>After pruning, an accepted epoch has its window or a free slot: nothing is evicted.\<close>

definition windows_within :: "u32 \<Rightarrow> slots \<Rightarrow> bool" where
  "windows_within local windows \<longleftrightarrow>
     list_all (\<lambda>slot. case slot of Some ew \<Rightarrow> in_epoch_window local (ew_epoch ew) | None \<Rightarrow> True) windows"

lemma prune_ok: "slots_ok windows \<Longrightarrow> slots_ok (prune local windows) \<and> windows_within local (prune local windows)"
  by (elim slots_cases)
    (auto simp: slots_ok_def windows_within_def prune_eq slot_kept_def split: option.splits)

lemma window_pair: "in_epoch_window l a \<Longrightarrow> in_epoch_window l b \<Longrightarrow> in_epoch_window l c \<Longrightarrow>
   a \<noteq> b \<Longrightarrow> c = a \<or> c = b"
  by (auto simp: in_epoch_window_def)

lemma window_for_spec:
  assumes "slots_ok windows" and "windows_within local windows" and "in_epoch_window local e"
    and "window_for windows e = (ws, i)"
  shows "i < 2 \<and> slots_ok ws \<and> windows_within local ws
    \<and> ws ! i = Some \<lparr>ew_epoch = e, ew_window = window_at slot_get windows e\<rparr>
    \<and> (\<forall>e'. e' \<noteq> e \<longrightarrow> slot_get ws e' = slot_get windows e')"
proof -
  obtain a b where ws: "windows = [a, b]" "slots_distinct [a, b]"
    using assms(1) by (rule slots_cases)
  show ?thesis
  proof (cases a)
    case None
    show ?thesis
      using assms(2-4) ws None
      by (cases b)
        (auto simp: window_for_def slot_is_def window_at_def slot_get_def slots_ok_def
          windows_within_def split: if_splits)
  next
    case (Some x)
    note a = this
    show ?thesis
    proof (cases b)
      case None
      show ?thesis
        using assms(2-4) ws None a
        by (cases x)
          (auto simp: window_for_def slot_is_def window_at_def slot_get_def slots_ok_def
            windows_within_def split: if_splits)
    next
      case (Some y)
      have "e = ew_epoch x \<or> e = ew_epoch y"
        using assms(2,3) ws a Some
        by (intro window_pair [of local]) (auto simp: windows_within_def)
      then show ?thesis
        using assms(2-4) ws a Some
        by (cases x; cases y)
          (auto simp: window_for_def slot_is_def window_at_def slot_get_def slots_ok_def
            windows_within_def split: if_splits)
    qed
  qed
qed

lemma slot_store:
  assumes "slots_ok ws" and "i < 2" and "ws ! i = Some \<lparr>ew_epoch = e, ew_window = w0\<rparr>"
    and "windows_within local ws"
  shows "slots_ok (ws[i := Some \<lparr>ew_epoch = e, ew_window = w\<rparr>])
    \<and> windows_within local (ws[i := Some \<lparr>ew_epoch = e, ew_window = w\<rparr>])
    \<and> slot_get (ws[i := Some \<lparr>ew_epoch = e, ew_window = w\<rparr>]) e'
       = (if e' = e then Some w else slot_get ws e')"
proof -
  obtain a b where ws: "ws = [a, b]" "slots_distinct [a, b]"
    using assms(1) by (rule slots_cases)
  have "i = 0 \<or> i = 1" using assms(2) by auto
  then show ?thesis
    using assms(3,4) ws
    by (cases a; cases b)
      (auto simp: slots_ok_def slot_get_def slot_is_def windows_within_def)
qed

lemma with_window_spec:
  assumes "slots_ok windows" and "in_epoch_window local e"
    and "with_window local e f windows = (r, ws)"
  shows "r = fst (f (window_at slot_get windows e)) \<and> slots_ok ws \<and> windows_within local ws
    \<and> slot_get ws e' =
         (if e' = e then Some (snd (f (window_at slot_get windows e)))
          else if in_epoch_window local e' then slot_get windows e' else None)"
proof -
  obtain ws1 i where wf: "window_for (prune local windows) e = (ws1, i)" by fastforce
  have at: "window_at slot_get (prune local windows) e = window_at slot_get windows e"
    by (simp add: window_at_def slot_get_prune [OF assms(1)] assms(2))
  have s: "i < 2" "slots_ok ws1" "windows_within local ws1"
    "ws1 ! i = Some \<lparr>ew_epoch = e, ew_window = window_at slot_get windows e\<rparr>"
    "\<And>e'. e' \<noteq> e \<Longrightarrow> slot_get ws1 e' = slot_get (prune local windows) e'"
    using window_for_spec [OF _ _ assms(2) wf] prune_ok [OF assms(1), of local] by (auto simp: at)
  obtain r' w' where f: "f (window_at slot_get windows e) = (r', w')" by fastforce
  have "r = r'" "ws = ws1[i := Some \<lparr>ew_epoch = e, ew_window = w'\<rparr>]"
    using assms(3) by (simp_all add: with_window_def wf s(4) f)
  with slot_store [OF s(2,1,4,3), of w' e'] s(5) [of e'] show ?thesis
    by (simp add: f slot_get_prune [OF assms(1)])
qed

interpretation slots: epoch_store slots_ok slot_get
  "with_window :: u32 \<Rightarrow> u32 \<Rightarrow> (replay_window \<Rightarrow> (accepted, error) result \<times> replay_window)
     \<Rightarrow> slots \<Rightarrow> (accepted, error) result \<times> slots"
  by unfold_locales (use with_window_spec in \<open>blast+\<close>)

section \<open>Replay protection across epochs\<close>

text \<open>What acceptance does to the windows, given the pairs \<open>T\<close> recorded so far.\<close>

lemma accept_inner_rep:
  assumes rep: "store_rep slots_ok slot_get (ps_windows s) l T" and le: "l \<le> local"
    and acc: "accept_inner C buf local dir now s = (r, s')"
  shows "\<exists>T'. T \<subseteq> T' \<and> store_rep slots_ok slot_get (ps_windows s') local T'
    \<and> (\<forall>a. r = Ok a \<longrightarrow> (a_epoch_id a, a_datagram_offset a) \<in> T' - T)"
proof (cases "length buf < 9 \<or> reconstruct_epoch local (buf ! 1 AND 0x0F) = None")
  case True
  then have "s' = s \<and> \<not> is_ok r"
    using acc by (auto simp: accept_inner_def idx_def split: if_splits)
  with store_rep_later [OF rep le] show ?thesis by (intro exI [of _ T]) auto
next
  case False
  then obtain e where e: "reconstruct_epoch local (buf ! 1 AND 0x0F) = Some e"
    and len: "\<not> length buf < 9" by auto
  have win: "in_epoch_window local e" using e by (simp add: reconstruct_epoch_Some)
  let ?f = "decode C buf (ps_config s) local dir"
  obtain r0 ws where v: "with_window local e ?f (ps_windows s) = (r0, ws)" by fastforce
  have ws: "ps_windows s' = ws" and r: "r = Ok a \<Longrightarrow> r0 = Ok a" for a
    using acc e len v
    by (auto simp: accept_inner_def split: result.splits option.splits prod.splits if_splits)
  let ?w = "window_at slot_get (ps_windows s) e"
  note once = slots.visit_once [OF rep le win v]
  have dec: "?f ?w = (r0, snd (?f ?w))" using once(1) by simp
  from decode_effect [OF dec]
  show ?thesis
  proof
    assume "snd (?f ?w) = ?w \<and> \<not> is_ok r0"
    with once(2) r ws show ?thesis by (intro exI [of _ T]) auto
  next
    assume "\<exists>off. check_and_set ?w off = (Ok (), snd (?f ?w))"
    then obtain off where off: "check_and_set ?w off = (Ok (), snd (?f ?w))" by blast
    show ?thesis
    proof (cases r0)
      case (Ok a)
      from dec Ok have d: "?f ?w = (Ok a, snd (?f ?w))" by simp
      have "a_epoch_id a = e" using decode_Ok_effect(3) [OF d] e by simp
      with once(3) [OF decode_Ok_effect(1) [OF d]] r Ok ws show ?thesis
        by (intro exI [of _ "insert (e, a_datagram_offset a) T"]) auto
    next
      case (Err x)
      with once(3) [OF off] r ws show ?thesis
        by (intro exI [of _ "insert (e, off) T"]) auto
    next
      case Panic
      with once(3) [OF off] r ws show ?thesis
        by (intro exI [of _ "insert (e, off) T"]) auto
    qed
  qed
qed

text \<open>
  A peer with the local epoch of its last call, as a filter on \<open>(epoch, offset)\<close>: the caller's
  local epoch must not go back.
\<close>

definition peer_step ::
  "crypto \<Rightarrow> peer_state \<times> u32 \<Rightarrow> bytes \<times> u32 \<times> direction \<times> u64
   \<Rightarrow> (peer_state \<times> u32) \<times> (u32 \<times> u32) option" where
  "peer_step C sl i =
     (case i of (buf, local_epoch, dir, now_ms) \<Rightarrow>
        (case peer_accept C buf local_epoch dir now_ms (fst sl) of
           (r, s) \<Rightarrow> ((s, local_epoch),
             case r of Ok a \<Rightarrow> Some (a_epoch_id a, a_datagram_offset a) | _ \<Rightarrow> None)))"

definition peer_clock_ok :: "peer_state \<times> u32 \<Rightarrow> bytes \<times> u32 \<times> direction \<times> u64 \<Rightarrow> bool" where
  "peer_clock_ok sl i \<longleftrightarrow> snd sl \<le> fst (snd i)"

definition peer_rep :: "peer_state \<times> u32 \<Rightarrow> (u32 \<times> u32) set \<Rightarrow> bool" where
  "peer_rep sl S \<longleftrightarrow>
     (\<exists>T. S \<subseteq> T \<and> store_rep slots_ok slot_get (ps_windows (fst sl)) (snd sl) T)"

lemma peer_accept_windows:
  "peer_accept C buf local dir now s = (r, s') \<Longrightarrow>
   \<exists>s1. accept_inner C buf local dir now s = (r, s1) \<and> ps_windows s' = ps_windows s1"
  by (auto simp: peer_accept_def split: prod.splits)

lemma peer_accept_rep:
  assumes "peer_rep (s, l) S" and "l \<le> local" and "peer_accept C buf local dir now s = (r, s')"
  shows "case r of
      Ok a \<Rightarrow> (a_epoch_id a, a_datagram_offset a) \<notin> S
        \<and> peer_rep (s', local) (insert (a_epoch_id a, a_datagram_offset a) S)
    | _ \<Rightarrow> peer_rep (s', local) S"
proof -
  obtain T where T: "S \<subseteq> T" "store_rep slots_ok slot_get (ps_windows s) l T"
    using assms(1) by (auto simp: peer_rep_def)
  obtain s1 where s1: "accept_inner C buf local dir now s = (r, s1)" "ps_windows s' = ps_windows s1"
    using peer_accept_windows [OF assms(3)] by blast
  obtain T' where T': "T \<subseteq> T'" "store_rep slots_ok slot_get (ps_windows s1) local T'"
    "\<forall>a. r = Ok a \<longrightarrow> (a_epoch_id a, a_datagram_offset a) \<in> T' - T"
    using accept_inner_rep [OF T(2) assms(2) s1(1)] by blast
  have "S \<subseteq> T'" using T(1) T'(1) by blast
  with T T' s1(2) show ?thesis
    by (cases r) (auto simp: peer_rep_def intro!: exI [of _ T'])
qed

interpretation peer: once_filter "peer_step C" peer_clock_ok peer_rep for C
proof
  fix sl S i sl' k
  assume a: "peer_rep sl S" "peer_clock_ok sl i" "peer_step C sl i = (sl', Some k)"
  obtain s l buf local dir now where eq: "sl = (s, l)" "i = (buf, local, dir, now)"
    by (cases sl, cases i) auto
  obtain r s' where acc: "peer_accept C buf local dir now s = (r, s')" by fastforce
  have le: "l \<le> local" using a(2) by (simp add: peer_clock_ok_def eq)
  from a(3) acc obtain x where "r = Ok x" "sl' = (s', local)"
    "k = (a_epoch_id x, a_datagram_offset x)"
    by (auto simp: peer_step_def eq split: result.splits)
  with peer_accept_rep [OF a(1) [unfolded eq] le acc]
  show "k \<notin> S \<and> peer_rep sl' (insert k S)" by simp
next
  fix sl S i sl'
  assume a: "peer_rep sl S" "peer_clock_ok sl i" "peer_step C sl i = (sl', None)"
  obtain s l buf local dir now where eq: "sl = (s, l)" "i = (buf, local, dir, now)"
    by (cases sl, cases i) auto
  obtain r s' where acc: "peer_accept C buf local dir now s = (r, s')" by fastforce
  have le: "l \<le> local" using a(2) by (simp add: peer_clock_ok_def eq)
  from a(3) acc have "\<not> is_ok r" "sl' = (s', local)"
    by (auto simp: peer_step_def eq split: result.splits)
  with peer_accept_rep [OF a(1) [unfolded eq] le acc]
  show "peer_rep sl' S" by (cases r) simp_all
qed

lemma peer_new_rep: "peer_new config = Ok s \<Longrightarrow> peer_rep (s, l) {}"
  by (auto simp: peer_new_def peer_rep_def store_rep_def slots_ok_def slot_get_def slot_is_def
      split: if_splits)

section \<open>The errors of the receive path\<close>

text \<open>The errors \<open>record_error\<close> counts.\<close>

fun counted :: "error \<Rightarrow> bool" where
  "counted TooShort = True"
| "counted (UnsupportedVersion _) = True"
| "counted (BadMsgType _) = True"
| "counted (UnknownSender _) = True"
| "counted (CipherMismatch _ _) = True"
| "counted EpochOutOfWindow = True"
| "counted AuthFailed = True"
| "counted Replay = True"
| "counted (Framing _) = True"
| "counted (BadNumber _) = True"
| "counted (BadSeries _) = True"
| "counted (BodyTooLarge _) = True"
| "counted RateLimited = True"
| "counted _ = False"

definition rx :: "('a, error) result \<Rightarrow> bool" where
  "rx m \<longleftrightarrow> (\<forall>e. m = Err e \<longrightarrow> counted e \<or> (\<exists>n. e = Oversize n))"

lemma rx_simps [simp]:
  "rx (Ok x)" "rx Panic" "rx (Err e) \<longleftrightarrow> counted e \<or> (\<exists>n. e = Oversize n)"
  by (auto simp: rx_def)

lemma rx_rbind: "rx m \<Longrightarrow> (\<And>x. m = Ok x \<Longrightarrow> rx (f x)) \<Longrightarrow> rx (rbind m f)"
  by (cases m) auto

lemma rx_basic [simp]:
  "rx (idx xs i)" "rx (subslice xs a b)" "counted e \<Longrightarrow> rx (ok_or x e)"
  "rx (rmap g m) \<longleftrightarrow> rx m"
  by (simp_all add: idx_def subslice_def ok_or_def split: option.split) (cases m; simp)

lemma rx_parse_header [simp]: "rx (parse_header buf)"
  unfolding parse_header_def by (intro rx_rbind) simp_all

lemma rx_mac [simp]: "rx (mac C c key msg off)"
proof (cases "mac_fits c (length msg)")
  case True
  then show ?thesis by (simp add: mac_ok)
next
  case False
  then obtain n where "mac C c key msg off = Err (Oversize n)"
    using mac_parts_oversize [of c "replicate (tag_len c) 0" "[msg]" C key off]
    by (auto simp: mac_def mac_into_def)
  then show ?thesis by simp
qed

lemma rx_decode_auth: "rx (decode_auth C buf peer local dir)"
proof -
  have "rx (ok_or (cipher_from_u8 v) (CipherUnimplemented v))" if "v = cipher_u8 c" for v c
    by (simp add: that)
  then show ?thesis
    unfolding decode_auth_def Let_def
    by (auto intro!: rx_rbind)
qed

lemma rx_series_entries [simp]: "rx (series_entries es cum acc)"
  by (induction es arbitrary: cum acc) (auto intro!: rx_rbind simp: Let_def split: option.splits)

lemma rx_decode_records [simp]: "rx (decode_records payload pos recs)"
proof -
  have d: "rx (record_decode bs)" for bs
    unfolding record_decode_def Let_def by (auto intro!: rx_rbind)
  show ?thesis
  proof (induction payload pos recs rule: decode_records.induct)
    case (1 payload pos recs)
    show ?case
      using 1 d [of "drop pos payload"]
      by (subst decode_records.simps) (auto split: result.splits)
  qed
qed

lemma rx_decode_frame: "rx (decode_frame mt payload out)"
  unfolding decode_frame_def validate_number_def validate_series_def Let_def
  by (auto intro!: rx_rbind)

lemma rx_decode: "rx (fst (decode C buf peer local dir w))"
proof (cases "decode_auth C buf peer local dir")
  case (Ok x)
  obtain out mt e payload where x: "x = (out, mt, e, payload)" by (cases x)
  consider w1 where "check_and_set w (d_offset out) = (Ok (), w1)"
    | "check_and_set w (d_offset out) = (Err Replay, w)"
    using check_and_set_cases [of w "d_offset out"] by (metis prod.collapse)
  then show ?thesis
    by cases (auto simp: decode_def Ok x split_layouts_eq intro!: rx_rbind rx_decode_frame)
next
  case (Err e)
  with rx_decode_auth [of C buf peer local dir] show ?thesis by (simp add: decode_def)
qed (simp add: decode_def)

section \<open>The verdict and the invariant\<close>

text \<open>The verdict of a peer, as a function of the epoch's window and the limiter.\<close>

definition peer_verdict ::
  "crypto \<Rightarrow> bytes \<Rightarrow> u32 \<Rightarrow> direction \<Rightarrow> u64 \<Rightarrow> peer_state \<Rightarrow> (accepted, error) result" where
  "peer_verdict C buf local dir now s =
     (if length buf < 9 then Err TooShort
      else case reconstruct_epoch local (buf ! 1 AND 0x0F) of
        None \<Rightarrow> Err EpochOutOfWindow
      | Some e \<Rightarrow>
          rbind (fst (decode C buf (ps_config s) local dir (window_at slot_get (ps_windows s) e)))
            (\<lambda>a. case ps_limiter s of
               None \<Rightarrow> Ok a
             | Some l \<Rightarrow> if fst (try_acquire l now) then Ok a else Err RateLimited))"

lemma accept_inner_spec:
  assumes "slots_ok (ps_windows s)" and "accept_inner C buf local dir now s = (r, s')"
  shows "r = peer_verdict C buf local dir now s \<and> slots_ok (ps_windows s')
    \<and> ps_config s' = ps_config s \<and> ps_stats s' = ps_stats s
    \<and> ps_highest_epoch_announced s' = ps_highest_epoch_announced s
    \<and> (windows_within local (ps_windows s') \<or> ps_windows s' = ps_windows s)
    \<and> (ps_limiter s' = ps_limiter s \<or> (\<exists>a. r = Ok a \<or> r = Err RateLimited))"
proof (cases "length buf < 9 \<or> reconstruct_epoch local (buf ! 1 AND 0x0F) = None")
  case True
  then show ?thesis
    using assms by (auto simp: accept_inner_def peer_verdict_def split: if_splits)
next
  case False
  then obtain e where e: "reconstruct_epoch local (buf ! 1 AND 0x0F) = Some e"
    and len: "\<not> length buf < 9" by auto
  have win: "in_epoch_window local e" using e by (simp add: reconstruct_epoch_Some)
  obtain r0 ws where v: "with_window local e (decode C buf (ps_config s) local dir) (ps_windows s) = (r0, ws)"
    by fastforce
  from with_window_spec [OF assms(1) win v]
  have w: "slots_ok ws" "windows_within local ws"
    "fst (decode C buf (ps_config s) local dir (window_at slot_get (ps_windows s) e)) = r0"
    by auto
  have pv: "peer_verdict C buf local dir now s = rbind r0 (\<lambda>a. case ps_limiter s of
      None \<Rightarrow> Ok a | Some l \<Rightarrow> if fst (try_acquire l now) then Ok a else Err RateLimited)"
    using e len w(3) by (simp add: peer_verdict_def)
  show ?thesis
    unfolding pv using assms(2) e len v w(1,2)
    by (cases r0) (auto simp: accept_inner_def split: option.splits prod.splits)
qed

lemma peer_accept_spec:
  assumes "slots_ok (ps_windows s)" and "peer_accept C buf local dir now s = (r, s')"
  shows "r = peer_verdict C buf local dir now s \<and> slots_ok (ps_windows s')
    \<and> ps_config s' = ps_config s \<and> ps_stats s' = record_result r (ps_stats s)
    \<and> ps_highest_epoch_announced s' = ps_highest_epoch_announced s
    \<and> (windows_within local (ps_windows s') \<or> ps_windows s' = ps_windows s)
    \<and> (ps_limiter s' = ps_limiter s \<or> (\<exists>a. r = Ok a \<or> r = Err RateLimited))"
proof -
  obtain s1 where "accept_inner C buf local dir now s = (r, s1)"
    "s' = s1\<lparr>ps_stats := record_result r (ps_stats s1)\<rparr>"
    using assms(2) by (auto simp: peer_accept_def split: prod.splits)
  with accept_inner_spec [OF assms(1)] show ?thesis by fastforce
qed

lemma peer_verdict_not_Panic [panic_free]: "peer_verdict C buf local dir now s \<noteq> Panic"
  using decode_not_Panic
  by (auto simp: peer_verdict_def rbind_eq_Panic split: option.splits if_splits)

lemma rx_peer_verdict: "rx (peer_verdict C buf local dir now s)"
  by (auto simp: peer_verdict_def rx_decode intro!: rx_rbind split: option.splits)

lemma live_windows_le: "slots_ok (ps_windows s) \<Longrightarrow> live_windows s \<le> 2"
  unfolding live_windows_def slots_ok_def by (metis length_filter_le)

text \<open>All discard and acceptance counters together (skipped records are not datagrams).\<close>

definition stats_total :: "stats \<Rightarrow> u64" where
  "stats_total st =
     st_accepted st + st_too_short st + st_unsupported_version st + st_bad_msg_type st
     + st_unknown_sender st + st_cipher_mismatch st + st_epoch_out_of_window st
     + st_auth_failed st + st_replay st + st_framing st + st_rate_limited st"

lemma record_error_total:
  "stats_total (record_error e st) = stats_total st + (if counted e then 1 else 0)"
  by (cases e) (simp_all add: record_error_def stats_total_def)

lemma record_result_total:
  assumes "rx r" and "r \<noteq> Panic"
  shows "stats_total (record_result r st)
       = stats_total st + (if \<exists>n. r = Err (Oversize n) then 0 else 1)"
proof (cases r)
  case (Ok a)
  then show ?thesis by (simp add: record_result_def stats_total_def)
next
  case (Err e)
  with assms(1) show ?thesis by (auto simp: record_result_def record_error_total)
qed (use assms(2) in simp)

section \<open>The abstract peer\<close>

text \<open>
  What a peer promises, without windows, slots or bitmaps: it keeps the set of offsets recorded so far
  for each epoch it may still accept. A datagram is recorded once its tag verifies, if its offset is new
  and less than 4096 ticks behind every recorded one of its epoch; the limiter is asked last.
\<close>

definition peer_spec ::
  "crypto \<Rightarrow> peer_config \<Rightarrow> bytes \<Rightarrow> u32 \<Rightarrow> direction \<Rightarrow> u64 \<Rightarrow> (u32 \<Rightarrow> u32 set)
   \<Rightarrow> inbound_limiter option \<Rightarrow> (accepted, error) result \<times> (u32 \<Rightarrow> u32 set) \<times> inbound_limiter option" where
  "peer_spec C cfg buf local dir now A lim =
     (if length buf < 9 then (Err TooShort, A, lim)
      else case reconstruct_epoch local (buf ! 1 AND 0x0F) of
        None \<Rightarrow> (Err EpochOutOfWindow, A, lim)
      | Some e \<Rightarrow>
          (let A = (\<lambda>e'. if in_epoch_window local e' then A e' else {}) in
           case decode_auth C buf cfg local dir of
             Err x \<Rightarrow> (Err x, A, lim)
           | Panic \<Rightarrow> (Panic, A, lim)
           | Ok (out, mt, epoch_id, payload) \<Rightarrow>
               if \<not> spec_admits 4096 (A e) (d_offset out) then (Err Replay, A, lim)
               else let A = A(e := insert (d_offset out) (A e)) in
                 (case decode_frame mt payload out of
                    Err x \<Rightarrow> (Err x, A, lim)
                  | Panic \<Rightarrow> (Panic, A, lim)
                  | Ok d \<Rightarrow>
                      (case lim of
                         None \<Rightarrow> (Ok (accepted_of cfg epoch_id d), A, None)
                       | Some l \<Rightarrow>
                           (if fst (try_acquire l now) then Ok (accepted_of cfg epoch_id d) else Err RateLimited,
                            A, Some (snd (try_acquire l now)))))))"

text \<open>The state of the code stands for these sets.\<close>

definition peer_abs :: "peer_state \<Rightarrow> (u32 \<Rightarrow> u32 set) \<Rightarrow> bool" where
  "peer_abs s A \<longleftrightarrow> slots_ok (ps_windows s)
     \<and> (\<forall>e. window_rep (window_at slot_get (ps_windows s) e) (A e)
          \<and> entries (window_at slot_get (ps_windows s) e) = 4096)"

lemma peer_new_abs: "peer_new config = Ok s \<Longrightarrow> peer_abs s (\<lambda>_. {})"
  by (auto simp: peer_new_def peer_abs_def slots_ok_def window_at_def slot_get_def slot_is_def
      window_rep_one_second split: if_splits)

lemma decode_abs:
  assumes "window_rep w S"
  shows "case decode_auth C buf peer local dir of
      Err x \<Rightarrow> decode C buf peer local dir w = (Err x, w)
    | Panic \<Rightarrow> decode C buf peer local dir w = (Panic, w)
    | Ok (out, mt, epoch_id, payload) \<Rightarrow>
        if spec_admits (entries w) S (d_offset out)
        then \<exists>w'. decode C buf peer local dir w
              = (rbind (decode_frame mt payload out) (\<lambda>d. Ok (accepted_of peer epoch_id d)), w')
            \<and> window_rep w' (insert (d_offset out) S) \<and> entries w' = entries w
        else decode C buf peer local dir w = (Err Replay, w)"
proof (cases "decode_auth C buf peer local dir")
  case (Ok x)
  obtain out mt epoch_id payload where x: "x = (out, mt, epoch_id, payload)" by (cases x)
  have split: "rbind (decode_frame mt payload out) (\<lambda>out. case split_layouts peer out of (out, skipped) \<Rightarrow>
      Ok \<lparr>a_datagram = out, a_epoch_id = epoch_id, a_datagram_offset = d_offset out, a_skipped = skipped\<rparr>)
    = rbind (decode_frame mt payload out) (\<lambda>d. Ok (accepted_of peer epoch_id d))"
    by (cases "decode_frame mt payload out") (simp_all add: split_layouts_eq accepted_of_def)
  from check_and_set_refines [OF assms, of "d_offset out"] show ?thesis
    by (auto simp: decode_def Ok x split simp del: split_paired_Ex split: if_splits)
qed (simp_all add: decode_def)

text \<open>Visiting an epoch's window, seen from the sets.\<close>

lemma with_window_abs:
  assumes "slots_ok windows" and "in_epoch_window local e"
    and A: "\<And>e. window_rep (window_at slot_get windows e) (A e) \<and> entries (window_at slot_get windows e) = 4096"
    and "f (window_at slot_get windows e) = (r, w')" and "window_rep w' S'" and "entries w' = 4096"
  obtains ws where "with_window local e f windows = (r, ws)" and "slots_ok ws" and "windows_within local ws"
    and "\<forall>e'. window_rep (window_at slot_get ws e')
          (((\<lambda>e'. if in_epoch_window local e' then A e' else {})(e := S')) e')
        \<and> entries (window_at slot_get ws e') = 4096"
proof -
  obtain r0 ws where v: "with_window local e f windows = (r0, ws)" by fastforce
  note spec = with_window_spec [OF assms(1,2) v]
  have r: "r0 = r" and ok: "slots_ok ws" "windows_within local ws" using spec assms(4) by simp_all
  have "window_rep (window_at slot_get ws e') (((\<lambda>e'. if in_epoch_window local e' then A e' else {})(e := S')) e')
      \<and> entries (window_at slot_get ws e') = 4096" for e'
  proof -
    consider "e' = e" | "e' \<noteq> e" "in_epoch_window local e'" | "e' \<noteq> e" "\<not> in_epoch_window local e'" by blast
    then show ?thesis
    proof cases
      case 1
      with spec [of e'] assms(4-6) show ?thesis by (simp add: window_at_def)
    next
      case 2
      with spec [of e'] have "window_at slot_get ws e' = window_at slot_get windows e'" by (simp add: window_at_def)
      with 2 A [of e'] show ?thesis by simp
    next
      case 3
      with spec [of e'] have "window_at slot_get ws e' = one_second" by (simp add: window_at_def)
      with 3 show ?thesis by (simp add: window_rep_one_second)
    qed
  qed
  with v ok r show thesis by (intro that [of ws]) simp_all
qed

lemma accept_inner_abs:
  assumes abs: "peer_abs s A" and acc: "accept_inner C buf local dir now s = (r, s')"
  shows "\<exists>A'. peer_spec C (ps_config s) buf local dir now A (ps_limiter s) = (r, A', ps_limiter s')
    \<and> peer_abs s' A'"
proof (cases "length buf < 9 \<or> reconstruct_epoch local (buf ! 1 AND 0x0F) = None")
  case True
  with acc abs show ?thesis
    by (intro exI [of _ A]) (auto simp: accept_inner_def peer_spec_def idx_def split: if_splits)
next
  case False
  then obtain e where e: "reconstruct_epoch local (buf ! 1 AND 0x0F) = Some e"
    and len: "\<not> length buf < 9" by auto
  have win: "in_epoch_window local e" using e by (simp add: reconstruct_epoch_Some)
  have ok: "slots_ok (ps_windows s)" and A: "\<And>e. window_rep (window_at slot_get (ps_windows s) e) (A e)
      \<and> entries (window_at slot_get (ps_windows s) e) = 4096"
    using abs by (simp_all add: peer_abs_def)
  let ?w = "window_at slot_get (ps_windows s) e" and ?dec = "decode C buf (ps_config s) local dir"
  let ?A = "\<lambda>e'. if in_epoch_window local e' then A e' else {}"
  have w: "window_rep ?w (A e)" "entries ?w = 4096" and Ae: "?A e = A e" using A [of e] win by simp_all
  have keep: "?A(e := A e) = ?A" using win by (simp add: fun_eq_iff)
  note dec = decode_abs [OF w(1), of C buf "ps_config s" local dir, unfolded w(2)]
  have refuse: ?thesis if r0: "?dec ?w = (r0, ?w)" "\<not> is_ok r0"
      "peer_spec C (ps_config s) buf local dir now A (ps_limiter s) = (r0, ?A, ps_limiter s)" for r0
  proof -
    obtain ws where ws: "with_window local e ?dec (ps_windows s) = (r0, ws)" "slots_ok ws" "windows_within local ws"
      "\<forall>e'. window_rep (window_at slot_get ws e') (?A e') \<and> entries (window_at slot_get ws e') = 4096"
      by (rule with_window_abs [where A = A and f = ?dec and e = e, OF ok win A r0(1) w, unfolded keep])
    with acc e len r0(2) have "r = r0" "s' = s\<lparr>ps_windows := ws\<rparr>"
      by (auto simp: accept_inner_def split: result.splits)
    with r0(3) ws show ?thesis by (intro exI [of _ ?A]) (simp add: peer_abs_def)
  qed
  show ?thesis
  proof (cases "decode_auth C buf (ps_config s) local dir")
    case (Err x)
    with dec e len show ?thesis by (intro refuse [of "Err x"]) (simp_all add: peer_spec_def Let_def)
  next
    case (Ok y)
    obtain out mt epoch_id payload where y: "y = (out, mt, epoch_id, payload)" by (cases y)
    show ?thesis
    proof (cases "spec_admits 4096 (A e) (d_offset out)")
      case False
      with dec e len Ok y Ae show ?thesis by (intro refuse [of "Err Replay"]) (simp_all add: peer_spec_def Let_def)
    next
      case True
      let ?r = "rbind (decode_frame mt payload out) (\<lambda>d. Ok (accepted_of (ps_config s) epoch_id d))"
      from dec True Ok y obtain w' where w': "?dec ?w = (?r, w')" "window_rep w' (insert (d_offset out) (A e))"
        "entries w' = 4096" by auto
      obtain ws where ws: "with_window local e ?dec (ps_windows s) = (?r, ws)" "slots_ok ws" "windows_within local ws"
        "\<forall>e'. window_rep (window_at slot_get ws e') ((?A(e := insert (d_offset out) (A e))) e')
          \<and> entries (window_at slot_get ws e') = 4096"
        by (rule with_window_abs [where A = A and f = ?dec and e = e, OF ok win A w'])
      let ?A' = "?A(e := insert (d_offset out) (A e))"
      have "ps_windows s' = ws"
        using acc e len ws(1) by (auto simp: accept_inner_def split: result.splits option.splits prod.splits)
      then have "peer_abs s' ?A'" using ws(2,4) unfolding peer_abs_def by simp
      moreover have "peer_spec C (ps_config s) buf local dir now A (ps_limiter s) = (r, ?A', ps_limiter s')"
        using acc e len ws(1) Ok y True win
        by (cases "decode_frame mt payload out")
          (auto simp: accept_inner_def peer_spec_def Let_def split: option.splits prod.splits)
      ultimately show ?thesis by blast
    qed
  qed simp
qed

section \<open>Epoch announcements\<close>

definition announce_step :: "peer_state \<Rightarrow> u32 \<Rightarrow> peer_state \<times> u32 option" where
  "announce_step s target_epoch =
     (case accept_epoch_announce target_epoch s of
        (r, s') \<Rightarrow> (s', if r = Ok () then Some target_epoch else None))"

interpretation announce: monotone_filter announce_step "\<lambda>_ _. True" ps_highest_epoch_announced
  by unfold_locales
    (auto simp: announce_step_def accept_epoch_announce_def split: option.splits if_splits)

section \<open>Properties\<close>

text \<open>A peer never accepts the same (epoch, offset) twice: over any sequence of received buffers,
  directions and times, as long as the caller's local epoch does not go back, the accepted pairs
  are distinct, across window slides, epoch changes, pruning and rate limiting.\<close>

lemma peer_accepts_once:
  assumes "peer_new config = Ok s" and "run_allowed (peer_step C) peer_clock_ok (s, l) inputs"
  shows "distinct (run_keys (peer_step C) (s, l) inputs)"
  using peer.run_once [OF peer_new_rep [OF assms(1)] assms(2)] by simp

definition demo_state :: peer_state where
  "demo_state = \<lparr>ps_config = demo_peer, ps_windows = [None, None],
     ps_highest_epoch_announced = None, ps_limiter = None, ps_stats = stats_default\<rparr>"

lemma demo_state_new: "peer_new demo_peer = Ok demo_state"
  by (simp add: peer_new_def demo_peer_def demo_state_def)

lemma demo_state_ok: "slots_ok (ps_windows demo_state)"
  by (simp add: demo_state_def slots_ok_def)

text \<open>C22: \<open>PeerState::accept\<close> refines the abstract peer: if the peer's windows stand for the sets \<open>A\<close> of
  offsets recorded per epoch, then its verdict and its limiter are those of \<open>peer_spec\<close> on \<open>A\<close>, and its
  new windows stand for the new sets. Besides, there are never more than two live windows, each of an
  epoch in the acceptance window of the last local epoch that reached it, the configuration and the
  announced epoch stay, and the verdict is counted.\<close>

theorem peer_accept_refines:
  assumes "peer_abs s A" and "peer_accept C buf local dir now s = (r, s')"
  shows "(\<exists>A'. peer_spec C (ps_config s) buf local dir now A (ps_limiter s) = (r, A', ps_limiter s')
      \<and> peer_abs s' A')
    \<and> live_windows s' \<le> 2
    \<and> (windows_within local (ps_windows s') \<or> ps_windows s' = ps_windows s)
    \<and> ps_config s' = ps_config s
    \<and> ps_highest_epoch_announced s' = ps_highest_epoch_announced s
    \<and> ps_stats s' = record_result r (ps_stats s)"
proof -
  have ok: "slots_ok (ps_windows s)" using assms(1) by (simp add: peer_abs_def)
  obtain s1 where s1: "accept_inner C buf local dir now s = (r, s1)"
    "s' = s1\<lparr>ps_stats := record_result r (ps_stats s1)\<rparr>"
    using assms(2) by (auto simp: peer_accept_def split: prod.splits)
  then have "peer_abs s' A' = peer_abs s1 A'" for A' by (simp add: peer_abs_def)
  with accept_inner_abs [OF assms(1) s1(1)] s1(2)
  have "\<exists>A'. peer_spec C (ps_config s) buf local dir now A (ps_limiter s) = (r, A', ps_limiter s')
      \<and> peer_abs s' A'" by simp
  with peer_accept_spec [OF ok assms(2)] live_windows_le show ?thesis by blast
qed

text \<open>A datagram that arrives twice is accepted once: the sets then hold its offset.\<close>

theorem peer_accept_refines_witness:
  "let buf = wire_image demo_crypto HmacSha256T64 demo_datagram (replicate 32 9) 3 NodeToCollector;
       (r1, s1) = peer_accept demo_crypto buf 3 NodeToCollector 0 demo_state;
       (r2, s2) = peer_accept demo_crypto buf 3 NodeToCollector 0 s1
   in r1 = Ok (accepted_of demo_peer 3 demo_datagram) \<and> peer_abs s1 ((\<lambda>_. {})(3 := {9})) \<and> r2 = Err Replay"
proof -
  let ?buf = "wire_image demo_crypto HmacSha256T64 demo_datagram (replicate 32 9) 3 NodeToCollector"
  let ?A = "(\<lambda>_. {})(3 := {9}) :: u32 \<Rightarrow> u32 set"
  obtain r1 s1 r2 s2 where a: "peer_accept demo_crypto ?buf 3 NodeToCollector 0 demo_state = (r1, s1)"
    "peer_accept demo_crypto ?buf 3 NodeToCollector 0 s1 = (r2, s2)" by (metis surj_pair)
  have auth: "decode_auth demo_crypto ?buf demo_peer 3 NodeToCollector
      = Ok (bare demo_datagram, Number, 3, payload_bytes demo_datagram)"
    using authentic_genuine [OF demo_datagram_wf demo_genuine]
    by (rule decode_auth_complete [OF demo_crypto_ct_eq])
  have frame: "decode_frame Number (payload_bytes demo_datagram) (bare demo_datagram) = Ok demo_datagram"
    using demo_datagram_wf by (intro decode_frame_wf) (simp add: datagram_wf_def)
  note h = decode_auth_header [OF auth]
  have e: "\<not> length ?buf < 9" "reconstruct_epoch 3 (?buf ! 1 AND 0x0F) = Some 3"
    using h parse_header_nth(1) [OF h(2,1)] by simp_all
  have off: "d_offset demo_datagram = 9" by (simp add: demo_datagram_def)
  have in3: "in_epoch_window 3 3" by (simp add: in_epoch_window_def)
  have spec1: "peer_spec demo_crypto demo_peer ?buf 3 NodeToCollector 0 (\<lambda>_. {}) None
      = (Ok (accepted_of demo_peer 3 demo_datagram), ?A, None)"
    by (simp add: peer_spec_def Let_def e(1) e(2) [unfolded One_nat_def] auth frame off in3 spec_admits_def fun_eq_iff)
  have spec2: "fst (peer_spec demo_crypto demo_peer ?buf 3 NodeToCollector 0 ?A None) = Err Replay"
    by (simp add: peer_spec_def Let_def e(1) e(2) [unfolded One_nat_def] auth frame off in3 spec_admits_def)
  have st: "ps_config demo_state = demo_peer" "ps_limiter demo_state = None" by (simp_all add: demo_state_def)
  have "peer_abs demo_state (\<lambda>_. {})" by (rule peer_new_abs [OF demo_state_new])
  from peer_accept_refines [OF this a(1)] spec1
  have 1: "r1 = Ok (accepted_of demo_peer 3 demo_datagram)" "peer_abs s1 ?A" "ps_limiter s1 = None"
    "ps_config s1 = demo_peer"
    by (auto simp: st)
  from peer_accept_refines [OF 1(2) a(2)] spec2 have "r2 = Err Replay" by (auto simp: 1(3,4))
  with 1 a show ?thesis by (simp add: Let_def)
qed

text \<open>While the two slots hold distinct epochs of the acceptance window, claiming the window of an
  accepted epoch evicts nothing: the fallback of \<open>window_for\<close> never fires, every other epoch keeps
  its window, and the epoch gets the window it had or a fresh one.\<close>

lemma window_for_never_evicts:
  assumes "slots_ok windows" and "windows_within local windows" and "in_epoch_window local e"
    and "window_for windows e = (ws, i)"
  shows "i < 2 \<and> slots_ok ws \<and> windows_within local ws
    \<and> ws ! i = Some \<lparr>ew_epoch = e, ew_window = window_at slot_get windows e\<rparr>
    \<and> (\<forall>e'. e' \<noteq> e \<longrightarrow> slot_get ws e' = slot_get windows e')"
  using assms by (rule window_for_spec)

text \<open>C30: Every call of \<open>PeerState::accept\<close> is counted exactly once, except that a datagram refused as
  \<open>Oversize\<close> is counted nowhere: the counters' total grows by one, or not at all in that case; and
  the call never panics.\<close>

theorem peer_accept_counted:
  assumes "slots_ok (ps_windows s)" and "peer_accept C buf local dir now s = (r, s')"
  shows "stats_total (ps_stats s')
      = stats_total (ps_stats s) + (if \<exists>n. r = Err (Oversize n) then 0 else 1)
    \<and> r \<noteq> Panic"
proof -
  have r: "r = peer_verdict C buf local dir now s" "ps_stats s' = record_result r (ps_stats s)"
    using peer_accept_spec [OF assms] by auto
  have np: "r \<noteq> Panic" using r(1) peer_verdict_not_Panic by simp
  have "rx r" using r(1) rx_peer_verdict by simp
  from record_result_total [OF this np] show ?thesis using np unfolding r(2) by simp
qed

theorem peer_accept_counted_witness:
  "stats_total (ps_stats (snd (peer_accept demo_crypto [] 3 NodeToCollector 0 demo_state))) = 1"
proof -
  obtain r s' where a: "peer_accept demo_crypto [] 3 NodeToCollector 0 demo_state = (r, s')"
    by fastforce
  moreover from a have "r = Err TooShort"
    by (auto simp: peer_accept_def accept_inner_def)
  ultimately show ?thesis
    using peer_accept_counted [OF demo_state_ok a]
    by (simp add: demo_state_def stats_default_def stats_total_def)
qed

text \<open>C31: Announced epochs only move forward: in any sequence of authenticated announcements the accepted
  targets strictly increase, so an old announcement replayed under an expired key never takes.\<close>

theorem epoch_announcements_increase:
  "sorted_wrt (<) (run_keys announce_step s targets)"
proof -
  have "run_allowed announce_step (\<lambda>_ _. True) s targets"
    by (induction targets arbitrary: s) simp_all
  from announce.run_above_floor [OF this] show ?thesis by simp
qed

end
