(* ===== verification/Catp_Provisioning.thy ===== *)
theory Catp_Provisioning
  imports Catp_Text Catp_Peer
begin

text \<open>
  Provisioning bundles of \<open>src/provisioning.rs\<close>: the text format (\<open>to_text\<close>, \<open>Bundle::parse\<close>), the hex
  field reader and \<open>into_peer_config\<close>. The operations on files are in \<open>Catp_Files\<close>.
\<close>

section \<open>Bundles\<close>

text \<open>\<open>io::Error\<close>: a code of the operating system, or malformed UTF-8 in a file read as text.\<close>

datatype io_error = OsError nat | InvalidData

datatype provision_error = PIo io_error | PFormat ustr

record prov_bundle =
  b_sender_id :: u32
  b_device_secret :: bytes \<comment> \<open>32 bytes\<close>
  b_cipher_id :: u8
  b_layouts :: "(u8 \<times> u8) list"

definition HEADER_COMMENT :: ustr where
  "HEADER_COMMENT = lit ''# CATP provisioning bundle v1''"

definition to_text :: "prov_bundle \<Rightarrow> ustr" where
  "to_text b =
     HEADER_COMMENT @ [10]
     @ lit ''sender_id     '' @ hex8 (b_sender_id b) @ [10]
     @ lit ''device_secret '' @ concat (map hex2 (b_device_secret b)) @ [10]
     @ lit ''cipher_id     '' @ hex2 (b_cipher_id b) @ [10]
     @ concat (map (\<lambda>(fmt, schema_version).
         lit ''layout        '' @ hex2 fmt @ [32] @ hex2 schema_version @ [10]) (b_layouts b))"

definition HEX_VALUE :: "u8 \<Rightarrow> u8 option" where
  "HEX_VALUE c =
     (if 48 \<le> c \<and> c \<le> 57 then Some (c - 48)
      else if 97 \<le> c \<and> c \<le> 102 then Some (c - 97 + 10)
      else if 65 \<le> c \<and> c \<le> 70 then Some (c - 65 + 10)
      else None)"

text \<open>The indexed loop over pairs of bytes; an odd length would make \<open>bytes[i + 1]\<close> panic.\<close>

fun hex_pairs :: "bytes \<Rightarrow> (bytes, unit) result" where
  "hex_pairs [] = Ok []"
| "hex_pairs [a] = Panic"
| "hex_pairs (a # b # rest) =
     (case (HEX_VALUE a, HEX_VALUE b) of
        (Some hi, Some lo) \<Rightarrow> rmap (\<lambda>bs. (push_bit 4 hi OR lo) # bs) (hex_pairs rest)
      | _ \<Rightarrow> Err ())"

definition parse_hex_bytes :: "ustr \<Rightarrow> (bytes, unit) result" where
  "parse_hex_bytes s = (if odd (length (as_bytes s)) then Err () else hex_pairs (as_bytes s))"

text \<open>The fields read so far.\<close>

record partial_bundle =
  pb_sender_id :: "u32 option"
  pb_device_secret :: "bytes option"
  pb_cipher_id :: "u8 option"
  pb_layouts :: "(u8 \<times> u8) list"

definition bad :: "string \<Rightarrow> ('a, provision_error) result" where
  "bad msg = Err (PFormat (lit msg))"

definition parse_layout :: "ustr \<Rightarrow> (u8 \<times> u8, provision_error) result" where
  "parse_layout rest =
     (case split_whitespace rest of
        [] \<Rightarrow> bad ''layout line needs a format byte''
      | [_] \<Rightarrow> bad ''layout line needs a schema_version byte''
      | [fmt, schema_version] \<Rightarrow>
          (case from_str_radix 16 8 fmt of
             None \<Rightarrow> bad ''layout format is not hex''
           | Some f \<Rightarrow>
               (case from_str_radix 16 8 schema_version of
                  None \<Rightarrow> bad ''layout schema_version is not hex''
                | Some v \<Rightarrow> Ok (of_nat f, of_nat v)))
      | _ \<Rightarrow> bad ''layout line has more than two fields'')"

definition parse_line :: "ustr \<Rightarrow> partial_bundle \<Rightarrow> (partial_bundle, provision_error) result" where
  "parse_line line pb =
     (let line = trim line in
      if line = [] \<or> hd line = of_char (CHR ''#'') then Ok pb
      else
        let (key, rest) = splitn_ws line;
            rest = trim (case rest of None \<Rightarrow> [] | Some r \<Rightarrow> r) in
        if key = lit ''sender_id'' then
          (case from_str_radix 16 32 rest of
             None \<Rightarrow> bad ''sender_id is not 8 hex digits''
           | Some v \<Rightarrow> Ok (pb\<lparr>pb_sender_id := Some (of_nat v)\<rparr>))
        else if key = lit ''device_secret'' then
          (case parse_hex_bytes rest of
             Ok bs \<Rightarrow>
               if length bs \<noteq> 32
               then bad ''device_secret must be exactly 32 bytes (64 hex digits)''
               else Ok (pb\<lparr>pb_device_secret := Some bs\<rparr>)
           | Err _ \<Rightarrow> bad ''device_secret is not valid hex''
           | Panic \<Rightarrow> Panic)
        else if key = lit ''cipher_id'' then
          (case from_str_radix 16 8 rest of
             None \<Rightarrow> bad ''cipher_id is not 2 hex digits''
           | Some v \<Rightarrow> Ok (pb\<lparr>pb_cipher_id := Some (of_nat v)\<rparr>))
        else if key = lit ''layout'' then
          rmap (\<lambda>l. pb\<lparr>pb_layouts := pb_layouts pb @ [l]\<rparr>) (parse_layout rest)
        else Err (PFormat (lit ''unrecognized field '' @ [39] @ key @ [39])))"

fun parse_lines :: "ustr list \<Rightarrow> partial_bundle \<Rightarrow> (partial_bundle, provision_error) result" where
  "parse_lines [] pb = Ok pb"
| "parse_lines (line # ls) pb = rbind (parse_line line pb) (parse_lines ls)"

definition bundle_parse :: "ustr \<Rightarrow> (prov_bundle, provision_error) result" where
  "bundle_parse s =
     rbind (parse_lines (text_lines s)
              \<lparr>pb_sender_id = None, pb_device_secret = None, pb_cipher_id = None, pb_layouts = []\<rparr>)
       (\<lambda>pb.
         rbind (ok_or (pb_sender_id pb) (PFormat (lit ''missing sender_id''))) (\<lambda>sender_id.
         rbind (ok_or (pb_device_secret pb) (PFormat (lit ''missing device_secret''))) (\<lambda>device_secret.
         rbind (ok_or (pb_cipher_id pb) (PFormat (lit ''missing cipher_id''))) (\<lambda>cipher_id.
           Ok \<lparr>b_sender_id = sender_id, b_device_secret = device_secret,
               b_cipher_id = cipher_id, b_layouts = pb_layouts pb\<rparr>))))"

definition into_peer_config ::
  "prov_bundle \<Rightarrow> rate_limit option \<Rightarrow> (peer_config, error) result" where
  "into_peer_config b inbound_rate_limit =
     rbind (ok_or (cipher_from_u8 (b_cipher_id b)) (CipherUnimplemented (b_cipher_id b)))
       (\<lambda>cipher.
         if requires_inbound_rate_limit cipher \<and> inbound_rate_limit = None
         then Err (CipherRequiresRateLimit (b_cipher_id b))
         else Ok \<lparr>p_sender_id = b_sender_id b, p_secret = b_device_secret b, p_cipher = cipher,
                 p_layouts = b_layouts b, p_inbound_rate_limit = inbound_rate_limit\<rparr>)"

section \<open>Hex fields\<close>

text \<open>One pair of digits, as a decoder of one byte.\<close>

definition hex_pair :: "bytes \<Rightarrow> (u8 \<times> nat, unit) result" where
  "hex_pair s = (case s of
     a # b # _ \<Rightarrow>
       (case (HEX_VALUE a, HEX_VALUE b) of
          (Some hi, Some lo) \<Rightarrow> Ok (push_bit 4 hi OR lo, 2)
        | _ \<Rightarrow> Err ())
   | _ \<Rightarrow> Panic)"

lemma hex_pair_byte: "push_bit 4 (of_nat (unat b div 16)) OR of_nat (unat b mod 16) = (b :: u8)"
proof -
  have "unat b div 16 mod 256 = unat b div 16"
    by (rule mod_less) (rule less_trans [OF nibbles(1)], simp)
  then have "(of_nat (unat b div 16) :: u8) = drop_bit 4 b"
    by (simp add: drop_bit_eq_div word_unat_eq_iff unat_div unat_of_nat)
  moreover have "(of_nat (unat b mod 16) :: u8) = take_bit 4 b"
    by (simp add: take_bit_eq_mod word_unat_eq_iff unat_mod unat_of_nat)
  ultimately show ?thesis
    by (simp only:) (rule bit_word_eqI, auto simp: bit_simps)
qed

lemma HEX_VALUE_digit [simp]:
  assumes "d < 16"
  shows "HEX_VALUE (byte (hex_digit d)) = Some (of_nat d)"
proof -
  have "d \<in> set [0..<16]" using assms by simp
  then show ?thesis by (simp add: upt_conv_Cons) (elim disjE; simp add: HEX_VALUE_def hex_digit_def byte_def)
qed

definition hex2_bytes :: "u8 \<Rightarrow> bytes" where
  "hex2_bytes b = map byte (hex2 b)"

lemma utf8_digit [simp]: "d < 16 \<Longrightarrow> utf8 (hex_digit d) = [byte (hex_digit d)]"
  by (simp add: utf8_def hex_digit_def)

lemma as_bytes_hex2 [simp]: "as_bytes (hex2 b @ r) = hex2_bytes b @ as_bytes r"
  by (simp add: as_bytes_def hex2_bytes_def hex2_def)

lemma as_bytes_hex: "as_bytes (concat (map hex2 bs)) = concat (map hex2_bytes bs)"
proof (induction bs)
  case Nil
  show ?case by (simp add: as_bytes_def)
qed simp

interpretation hex: stream_decoder "\<lambda>_. True" hex2_bytes hex_pair hex_pairs
proof
  show "hex_pair (hex2_bytes b @ ys) = Ok (b, length (hex2_bytes b))" for b ys
    by (simp add: hex_pair_def hex2_bytes_def hex2_def hex_pair_byte)
  show "hex2_bytes b \<noteq> []" for b by (simp add: hex2_bytes_def hex2_def)
  fix bs :: bytes and b n
  assume "bs \<noteq> []" "hex_pair bs = Ok (b, n)"
  then show "hex_pairs bs = rmap (\<lambda>xs. b # xs) (hex_pairs (drop n bs))"
    by (cases bs rule: hex_pairs.cases) (auto simp: hex_pair_def split: option.splits)
qed simp

lemma parse_hex_bytes_print: "parse_hex_bytes (concat (map hex2 bs)) = Ok bs"
proof -
  have "even (length (concat (map hex2_bytes bs)))"
    by (induction bs) (simp_all add: hex2_bytes_def)
  then show ?thesis
    using hex.dec_all_enc [of bs] by (simp add: parse_hex_bytes_def as_bytes_hex)
qed

lemma hex_pairs_not_Panic: "even (length s) \<Longrightarrow> hex_pairs s \<noteq> Panic"
  by (induction s rule: hex_pairs.induct) (auto split: option.splits)

lemma parse_hex_bytes_not_Panic [simp]: "parse_hex_bytes s \<noteq> Panic"
  by (simp add: parse_hex_bytes_def hex_pairs_not_Panic)

section \<open>Lines\<close>

text \<open>A value that neither starts nor ends with white space survives trimming.\<close>

definition tidy :: "ustr \<Rightarrow> bool" where
  "tidy v \<longleftrightarrow> v \<noteq> [] \<and> \<not> is_ws (hd v) \<and> \<not> is_ws (last v)"

lemma plain_tidy: "plain v \<Longrightarrow> tidy v"
  by (simp add: plain_def tidy_def)

lemma trim_start_tidy: "v \<noteq> [] \<Longrightarrow> \<not> is_ws (hd v) \<Longrightarrow> trim_start v = v"
  by (cases v) (simp_all add: trim_start_def)

lemma trim_tidy: "tidy v \<Longrightarrow> trim v = v"
  by (simp add: tidy_def trim_def trim_start_tidy hd_rev)

lemma trim_padded: "tidy v \<Longrightarrow> trim (replicate n 32 @ v) = v"
proof -
  assume v: "tidy v"
  have "trim_start (replicate n 32 @ v) = trim_start v"
    by (induction n) (simp_all add: trim_start_def is_ws_def)
  then show ?thesis using v by (simp add: trim_def trim_tidy [OF v, unfolded trim_def])
qed

lemma splitn_field:
  "plain key \<Longrightarrow> splitn_ws (key @ 32 # rest) = (key, Some rest)"
proof -
  assume "plain key"
  then have "takeWhile (\<lambda>c. \<not> is_ws c) (key @ 32 # rest) = key
      \<and> dropWhile (\<lambda>c. \<not> is_ws c) (key @ 32 # rest) = 32 # rest"
    by (simp add: plain_def) (induction key, auto simp: is_ws_def)
  then show ?thesis by (simp add: splitn_ws_def)
qed

lemma field_line:
  assumes "plain key" and "hd key \<noteq> 35" and "tidy v"
  shows "trim (key @ 32 # replicate n 32 @ v) = key @ 32 # replicate n 32 @ v"
    and "hd (key @ 32 # replicate n 32 @ v) \<noteq> 35"
  using assms by (auto intro!: trim_tidy simp: plain_def tidy_def)

lemma of_char_hash: "(of_char (CHR ''#'') :: nat) = 35"
  by simp

lemma parse_line_field:
  assumes "plain key" and "hd key \<noteq> 35" and "tidy v"
  shows "parse_line (key @ 32 # replicate n 32 @ v) pb =
    (if key = lit ''sender_id'' then
       (case from_str_radix 16 32 v of
          None \<Rightarrow> bad ''sender_id is not 8 hex digits''
        | Some v \<Rightarrow> Ok (pb\<lparr>pb_sender_id := Some (of_nat v)\<rparr>))
     else if key = lit ''device_secret'' then
       (case parse_hex_bytes v of
          Ok bs \<Rightarrow>
            if length bs \<noteq> 32
            then bad ''device_secret must be exactly 32 bytes (64 hex digits)''
            else Ok (pb\<lparr>pb_device_secret := Some bs\<rparr>)
        | Err _ \<Rightarrow> bad ''device_secret is not valid hex''
        | Panic \<Rightarrow> Panic)
     else if key = lit ''cipher_id'' then
       (case from_str_radix 16 8 v of
          None \<Rightarrow> bad ''cipher_id is not 2 hex digits''
        | Some v \<Rightarrow> Ok (pb\<lparr>pb_cipher_id := Some (of_nat v)\<rparr>))
     else if key = lit ''layout'' then
       rmap (\<lambda>l. pb\<lparr>pb_layouts := pb_layouts pb @ [l]\<rparr>) (parse_layout v)
     else Err (PFormat (lit ''unrecognized field '' @ [39] @ key @ [39])))"
  using field_line [OF assms, of n]
  by (simp only: parse_line_def Let_def of_char_hash splitn_field [OF assms(1)]
      trim_padded [OF assms(3)] option.case prod.case) simp

lemma parse_layout_print: "parse_layout (hex2 f @ [32] @ hex2 v) = Ok (f, v)"
proof -
  have tw: "takeWhile (\<lambda>c. \<not> is_ws c) (hex2 a @ r) = hex2 a @ takeWhile (\<lambda>c. \<not> is_ws c) r"
    "dropWhile (\<lambda>c. \<not> is_ws c) (hex2 a @ r) = dropWhile (\<lambda>c. \<not> is_ws c) r"
    "trim_start (hex2 a @ r) = hex2 a @ r" for a r
    by (simp_all add: hex2_def trim_start_def)
  have sp: "trim_start (32 # hex2 v) = hex2 v" "is_ws 32" "trim_start (hex2 v) = hex2 v"
    using tw(3) [of v "[]"] by (simp_all add: trim_start_def is_ws_def)
  have one: "split_whitespace (32 # hex2 v) = [hex2 v]"
    using tw [of v "[]"] sp
    by (subst split_whitespace.simps) (simp add: hex2_def split_whitespace.simps trim_start_def)
  have "split_whitespace (hex2 f @ [32] @ hex2 v) = hex2 f # split_whitespace (32 # hex2 v)"
    using tw(1,2) [of f "[32] @ hex2 v"] tw(3) [of f "[32] @ hex2 v"] sp(2)
    by (subst split_whitespace.simps) (simp add: hex2_def)
  then show ?thesis
    by (simp add: parse_layout_def one from_str_radix_hex2)
qed

text \<open>The lines of a printed bundle.\<close>

definition layout_line :: "u8 \<times> u8 \<Rightarrow> ustr" where
  "layout_line l = lit ''layout'' @ 32 # replicate 7 32 @ (hex2 (fst l) @ [32] @ hex2 (snd l))"

definition bundle_lines :: "prov_bundle \<Rightarrow> ustr list" where
  "bundle_lines b =
     [HEADER_COMMENT,
      lit ''sender_id'' @ 32 # replicate 4 32 @ hex8 (b_sender_id b),
      lit ''device_secret'' @ 32 # replicate 0 32 @ concat (map hex2 (b_device_secret b)),
      lit ''cipher_id'' @ 32 # replicate 4 32 @ hex2 (b_cipher_id b)]
     @ map layout_line (b_layouts b)"

lemma to_text_lines: "to_text b = concat (map (\<lambda>l. l @ [10]) (bundle_lines b))"
proof -
  have "concat (map (\<lambda>(fmt, schema_version).
         lit ''layout        '' @ hex2 fmt @ [32] @ hex2 schema_version @ [10]) ls)
      = concat (map ((\<lambda>l. l @ [10]) \<circ> layout_line) ls)" for ls
    by (induction ls) (auto simp: layout_line_def lit_def numeral_eq_Suc)
  then show ?thesis
    by (simp add: to_text_def bundle_lines_def) (simp add: lit_def numeral_eq_Suc)
qed

definition line_ok :: "ustr \<Rightarrow> bool" where
  "line_ok l \<longleftrightarrow> 10 \<notin> set l \<and> last l \<noteq> 13"

lemma text_lines_concat:
  "(\<And>l. l \<in> set ls \<Longrightarrow> line_ok l) \<Longrightarrow> text_lines (concat (map (\<lambda>l. l @ [10]) ls)) = ls"
  by (induction ls) (simp_all add: text_lines_line line_ok_def strip_cr_def)

lemma is_ws_line_ends: "is_ws 10" "is_ws 13"
  by (simp_all add: is_ws_def)

lemma plain_line_ok: "plain v \<Longrightarrow> 10 \<notin> set v \<and> last v \<noteq> 13"
proof
  assume v: "plain v"
  show "10 \<notin> set v" using v unfolding plain_def by (metis is_ws_line_ends(1))
  show "last v \<noteq> 13" using v unfolding plain_def by (metis is_ws_line_ends(2) last_in_set)
qed

lemma field_line_ok: "10 \<notin> set key \<Longrightarrow> plain v \<Longrightarrow> line_ok (key @ 32 # replicate n 32 @ v)"
  using plain_line_ok [of v] by (simp add: line_ok_def plain_def)

lemma layout_line_ok: "line_ok (layout_line l)"
  using field_line_ok [of "lit ''layout'' @ 32 # replicate 7 32 @ hex2 (fst l)" "hex2 (snd l)" 0]
    plain_line_ok [OF plain_hex2, of "fst l"]
  by (simp add: layout_line_def lit_def)

lemma bundle_lines_ok:
  assumes "b_device_secret b \<noteq> []" and "l \<in> set (bundle_lines b)"
  shows "line_ok l"
proof -
  have k: "10 \<notin> set (lit ''sender_id'')" "10 \<notin> set (lit ''device_secret'')"
    "10 \<notin> set (lit ''cipher_id'')"
    by (simp_all add: lit_def)
  have "line_ok HEADER_COMMENT" by (simp add: line_ok_def HEADER_COMMENT_def lit_def)
  moreover have "line_ok (lit ''sender_id'' @ 32 # replicate 4 32 @ hex8 (b_sender_id b))"
    by (rule field_line_ok [OF k(1) plain_hex8])
  moreover have "line_ok (lit ''device_secret'' @ 32 # replicate 0 32 @ concat (map hex2 (b_device_secret b)))"
    by (rule field_line_ok [OF k(2) plain_concat_hex2 [OF assms(1)]])
  moreover have "line_ok (lit ''cipher_id'' @ 32 # replicate 4 32 @ hex2 (b_cipher_id b))"
    by (rule field_line_ok [OF k(3) plain_hex2])
  ultimately show ?thesis
    using assms(2) layout_line_ok by (simp only: bundle_lines_def set_append list.set set_map) blast
qed

lemma parse_comment: "parse_line HEADER_COMMENT pb = Ok pb"
proof -
  have "tidy HEADER_COMMENT" by (simp add: tidy_def HEADER_COMMENT_def lit_def is_ws_def)
  then have "trim HEADER_COMMENT = HEADER_COMMENT" by (rule trim_tidy)
  then show ?thesis by (simp add: parse_line_def) (simp add: HEADER_COMMENT_def lit_def)
qed

lemma lit_keys [simp]:
  "plain (lit ''sender_id'')" "plain (lit ''device_secret'')" "plain (lit ''cipher_id'')"
  "plain (lit ''layout'')" "hd (lit ''sender_id'') \<noteq> 35" "hd (lit ''device_secret'') \<noteq> 35"
  "hd (lit ''cipher_id'') \<noteq> 35" "hd (lit ''layout'') \<noteq> 35"
  "lit ''device_secret'' \<noteq> lit ''sender_id''" "lit ''cipher_id'' \<noteq> lit ''sender_id''"
  "lit ''cipher_id'' \<noteq> lit ''device_secret''" "lit ''layout'' \<noteq> lit ''sender_id''"
  "lit ''layout'' \<noteq> lit ''device_secret''" "lit ''layout'' \<noteq> lit ''cipher_id''"
  by (simp_all add: plain_def lit_def is_ws_def)

lemma parse_layouts:
  "parse_lines (map layout_line ls) pb = Ok (pb\<lparr>pb_layouts := pb_layouts pb @ ls\<rparr>)"
proof (induction ls arbitrary: pb)
  case (Cons l ls)
  have "tidy (hex2 (fst l) @ [32] @ hex2 (snd l))"
    by (simp add: tidy_def hex2_def)
  then have "parse_line (layout_line l) pb = Ok (pb\<lparr>pb_layouts := pb_layouts pb @ [l]\<rparr>)"
    unfolding layout_line_def
    by (subst parse_line_field) (simp_all add: parse_layout_print [simplified])
  with Cons show ?case by simp
qed simp

lemma bundle_parse_print:
  assumes "length (b_device_secret b) = 32"
  shows "bundle_parse (to_text b) = Ok b"
proof -
  have ne: "b_device_secret b \<noteq> []" using assms by auto
  have ls: "text_lines (to_text b) = bundle_lines b"
    unfolding to_text_lines by (rule text_lines_concat) (rule bundle_lines_ok [OF ne])
  have s: "parse_line (lit ''sender_id'' @ 32 # replicate 4 32 @ hex8 (b_sender_id b)) pb
      = Ok (pb\<lparr>pb_sender_id := Some (b_sender_id b)\<rparr>)" for pb
    by (subst parse_line_field) (simp_all add: plain_tidy from_str_radix_hex8)
  have d: "parse_line (lit ''device_secret'' @ 32 # replicate 0 32 @ concat (map hex2 (b_device_secret b))) pb
      = Ok (pb\<lparr>pb_device_secret := Some (b_device_secret b)\<rparr>)" for pb
    by (subst parse_line_field) (simp_all add: plain_tidy ne parse_hex_bytes_print assms)
  have c: "parse_line (lit ''cipher_id'' @ 32 # replicate 4 32 @ hex2 (b_cipher_id b)) pb
      = Ok (pb\<lparr>pb_cipher_id := Some (b_cipher_id b)\<rparr>)" for pb
    by (subst parse_line_field) (simp_all add: plain_tidy from_str_radix_hex2)
  show ?thesis
    unfolding bundle_parse_def ls bundle_lines_def append_Cons append_Nil
    by (simp only: parse_lines.simps rbind.simps parse_comment s d c parse_layouts)
      (simp add: ok_or_def)
qed

section \<open>What parsing guarantees\<close>

lemma parse_layout_not_Panic [simp]: "parse_layout rest \<noteq> Panic"
  by (simp add: parse_layout_def bad_def split: list.splits option.splits)

lemma parse_line_not_Panic [simp]: "parse_line line pb \<noteq> Panic"
  by (simp add: parse_line_def Let_def bad_def split: prod.splits option.splits result.splits)

lemma parse_lines_not_Panic [simp]: "parse_lines ls pb \<noteq> Panic"
  by (induction ls arbitrary: pb) (simp_all add: rbind_not_Panic)

definition secret_32 :: "partial_bundle \<Rightarrow> bool" where
  "secret_32 pb \<longleftrightarrow> (\<forall>s. pb_device_secret pb = Some s \<longrightarrow> length s = 32)"

lemma parse_line_secret: "secret_32 pb \<Longrightarrow> parse_line line pb = Ok pb' \<Longrightarrow> secret_32 pb'"
  unfolding secret_32_def parse_line_def Let_def bad_def
  by (auto split: prod.splits option.splits result.splits if_splits)

lemma parse_lines_secret: "secret_32 pb \<Longrightarrow> parse_lines ls pb = Ok pb' \<Longrightarrow> secret_32 pb'"
  by (induction ls arbitrary: pb) (auto dest: parse_line_secret)

lemma bundle_parse_secret: "bundle_parse s = Ok b \<Longrightarrow> length (b_device_secret b) = 32"
  unfolding bundle_parse_def
  by (auto dest!: parse_lines_secret [rotated] simp: secret_32_def)

text \<open>The numeric fields take any number of digits and a leading plus sign.\<close>

lemma sender_id_of_any_width:
  "parse_line (lit ''sender_id +1'') pb = Ok (pb\<lparr>pb_sender_id := Some 1\<rparr>)"
proof -
  have "tidy (lit ''+1'')" by (simp add: tidy_def lit_def is_ws_def)
  moreover have "from_str_radix 16 32 (lit ''+1'') = Some 1"
    by (simp add: from_str_radix_def lit_def to_digit_def hex_value_def)
  ultimately have "parse_line (lit ''sender_id'' @ 32 # replicate 0 32 @ lit ''+1'') pb
      = Ok (pb\<lparr>pb_sender_id := Some 1\<rparr>)"
    by (subst parse_line_field) simp_all
  moreover have "lit ''sender_id +1'' = lit ''sender_id'' @ 32 # replicate 0 32 @ lit ''+1''"
    by (simp add: lit_def)
  ultimately show ?thesis by (simp only:)
qed

text \<open>C21: The text format loses nothing: \<open>Bundle::parse\<close> reads back exactly the bundle that \<open>to_text\<close>
  printed, for every bundle with a secret of 32 bytes, as its type requires.\<close>

theorem bundle_text_roundtrip:
  "bundle_parse (to_text b) = Ok b \<longleftrightarrow> length (b_device_secret b) = 32"
  using bundle_parse_print bundle_parse_secret by blast

text \<open>C38: Parsing never panics on any text, and a bundle it returns has a secret of exactly 32 bytes; loading
  it then fails only for an unregistered suite or a missing rate limit, and otherwise gives a
  configuration with which a peer can be created.\<close>

theorem parsed_bundle_loads:
  "bundle_parse s \<noteq> Panic \<and>
   (case bundle_parse s of
      Ok b \<Rightarrow> length (b_device_secret b) = 32 \<and>
        (case cipher_from_u8 (b_cipher_id b) of
           None \<Rightarrow> into_peer_config b limit = Err (CipherUnimplemented (b_cipher_id b))
         | Some cipher \<Rightarrow>
             if requires_inbound_rate_limit cipher \<and> limit = None
             then into_peer_config b limit = Err (CipherRequiresRateLimit (b_cipher_id b))
             else \<exists>config. into_peer_config b limit = Ok config \<and> is_ok (peer_new config)
               \<and> p_sender_id config = b_sender_id b \<and> p_secret config = b_device_secret b
               \<and> cipher_u8 (p_cipher config) = b_cipher_id b)
    | _ \<Rightarrow> True)"
proof -
  have "bundle_parse s \<noteq> Panic"
    by (simp add: bundle_parse_def rbind_not_Panic)
  then show ?thesis
    by (auto simp: bundle_parse_secret into_peer_config_def peer_new_def cipher_from_u8_def
        split: result.split option.split)
qed

end
