(* ===== verification/Catp_Files.thy ===== *)
theory Catp_Files
  imports Catp_Utf8 Catp_Provisioning "HOL-Library.AList" "HOL-Library.List_Lexorder"
    "HOL-Library.Multiset" "HOL-Library.Sublist"
begin

text \<open>
  Bundle files: \<open>write_file\<close>, \<open>read_file\<close> and \<open>load_bundles_dir\<close> of \<open>src/provisioning.rs\<close> on a file
  system that maps paths to permission bits and contents. Every call to the operating system may
  fail as its environment \<open>io_env\<close> says, a write also after a part of its data; since the results
  are stated for every environment they also hold for a crash between two calls. Paths are byte
  strings and name files without aliases (no links, no \<open>.\<close> or \<open>..\<close> components).
\<close>

section \<open>The file system\<close>

type_synonym path = bytes

record os_file =
  f_mode :: u32
  f_data :: bytes

type_synonym file_system = "(path \<times> os_file) list"

record io_env =
  io_umask :: u32
  io_open :: "io_error option"
  io_chmod :: "io_error option"
  io_write :: "(nat \<times> io_error) option" \<comment> \<open>bytes written before the failure\<close>
  io_read :: "path \<Rightarrow> io_error option"
  io_readdir :: "io_error option"
  io_mkdir :: "io_error option"
  io_entry :: "path \<Rightarrow> bool" \<comment> \<open>whether this directory entry could be read\<close>
  io_stat :: "path \<Rightarrow> io_error option" \<comment> \<open>reading the metadata of a path\<close>

text \<open>An operation on files, and \<open>?\<close>, which leaves the state as the failing call left it.\<close>

type_synonym 'a file_op = "file_system \<Rightarrow> ('a, provision_error) result \<times> file_system"

definition and_then :: "'a file_op \<Rightarrow> ('a \<Rightarrow> 'b file_op) \<Rightarrow> 'b file_op" where
  "and_then m f fs = (case m fs of
     (Ok x, fs) \<Rightarrow> f x fs
   | (Err e, fs) \<Rightarrow> (Err e, fs)
   | (Panic, fs) \<Rightarrow> (Panic, fs))"

text \<open>\<open>OpenOptions::new().write(true).create(true).truncate(true).mode(mode).open(path)\<close>\<close>

definition open_truncate :: "io_env \<Rightarrow> u32 \<Rightarrow> path \<Rightarrow> unit file_op" where
  "open_truncate env mode path fs = (case io_open env of
     Some e \<Rightarrow> (Err (PIo e), fs)
   | None \<Rightarrow>
       (Ok (), AList.update path
          (case map_of fs path of
             None \<Rightarrow> \<lparr>f_mode = mode AND NOT (io_umask env), f_data = []\<rparr>
           | Some f \<Rightarrow> f\<lparr>f_data := []\<rparr>) fs))"

definition set_permissions :: "io_env \<Rightarrow> u32 \<Rightarrow> path \<Rightarrow> unit file_op" where
  "set_permissions env mode path fs = (case io_chmod env of
     Some e \<Rightarrow> (Err (PIo e), fs)
   | None \<Rightarrow>
       (Ok (), case map_of fs path of
          None \<Rightarrow> fs | Some f \<Rightarrow> AList.update path (f\<lparr>f_mode := mode\<rparr>) fs))"

definition write_all :: "io_env \<Rightarrow> bytes \<Rightarrow> path \<Rightarrow> unit file_op" where
  "write_all env data path fs =
     (let put = (\<lambda>d. case map_of fs path of
        None \<Rightarrow> fs | Some f \<Rightarrow> AList.update path (f\<lparr>f_data := f_data f @ d\<rparr>) fs) in
      case io_write env of
        Some (n, e) \<Rightarrow> (Err (PIo e), put (take n data))
      | None \<Rightarrow> (Ok (), put data))"

definition ENOENT :: io_error where
  "ENOENT = OsError 2"

definition read_to_string :: "io_env \<Rightarrow> path \<Rightarrow> file_system \<Rightarrow> (ustr, provision_error) result" where
  "read_to_string env path fs = (case io_read env path of
     Some e \<Rightarrow> Err (PIo e)
   | None \<Rightarrow> (case map_of fs path of
       None \<Rightarrow> Err (PIo ENOENT)
     | Some f \<Rightarrow> (case from_utf8 (f_data f) of
         Ok s \<Rightarrow> Ok s
       | _ \<Rightarrow> Err (PIo InvalidData))))"

text \<open>\<open>Path::join\<close> with a relative name, and the entries of a directory.\<close>

definition path_join :: "path \<Rightarrow> bytes \<Rightarrow> path" where
  "path_join dir name = (if dir = [] \<or> last dir = 0x2F then dir @ name else dir @ [0x2F] @ name)"

definition in_dir :: "path \<Rightarrow> path \<Rightarrow> bool" where
  "in_dir dir p =
     (let pre = path_join dir []; name = drop (length pre) p in
      take (length pre) p = pre \<and> name \<noteq> [] \<and> 0x2F \<notin> set name)"

definition read_dir :: "io_env \<Rightarrow> path \<Rightarrow> file_system \<Rightarrow> (path option list, provision_error) result" where
  "read_dir env dir fs = (case io_readdir env of
     Some e \<Rightarrow> Err (PIo e)
   | None \<Rightarrow>
       Ok (map (\<lambda>p. if io_entry env p then Some p else None) (filter (in_dir dir) (map fst fs))))"

text \<open>\<open>Path::extension\<close>: what follows the last dot of the file name, unless the name starts there.\<close>

definition file_name :: "path \<Rightarrow> bytes" where
  "file_name p = rev (takeWhile (\<lambda>b. b \<noteq> 0x2F) (rev p))"

definition path_extension :: "path \<Rightarrow> bytes option" where
  "path_extension p =
     (let name = file_name p;
          after = rev (takeWhile (\<lambda>b. b \<noteq> 0x2E) (rev name));
          before = take (length name - length after - 1) name in
      if 0x2E \<notin> set name \<or> before = [] \<or> name = [0x2E, 0x2E] then None else Some after)"

section \<open>Bundles in files\<close>

text \<open>The octal mode \<open>0o600\<close>.\<close>

definition OWNER_RW :: u32 where
  "OWNER_RW = 0x180"

definition write_file :: "io_env \<Rightarrow> prov_bundle \<Rightarrow> path \<Rightarrow> unit file_op" where
  "write_file env b path =
     and_then (open_truncate env OWNER_RW path) (\<lambda>_.
     and_then (set_permissions env OWNER_RW path) (\<lambda>_.
     write_all env (as_bytes (to_text b)) path))"

definition read_file :: "io_env \<Rightarrow> path \<Rightarrow> file_system \<Rightarrow> (prov_bundle, provision_error) result" where
  "read_file env path fs = rbind (read_to_string env path fs) bundle_parse"

text \<open>Collecting results stops at the first failure.\<close>

fun read_files :: "io_env \<Rightarrow> path list \<Rightarrow> file_system \<Rightarrow> (prov_bundle list, provision_error) result" where
  "read_files env [] fs = Ok []"
| "read_files env (p # ps) fs =
     rbind (read_file env p fs) (\<lambda>b. rmap (\<lambda>bs. b # bs) (read_files env ps fs))"

definition ext_bundle :: bytes where
  "ext_bundle = as_bytes (lit ''bundle'')"

definition load_bundles_dir :: "io_env \<Rightarrow> path \<Rightarrow> file_system \<Rightarrow> (prov_bundle list, provision_error) result" where
  "load_bundles_dir env dir fs =
     rbind (read_dir env dir fs) (\<lambda>entries.
       let paths = filter (\<lambda>p. path_extension p = Some ext_bundle) (List.map_filter id entries) in
       read_files env (sort paths) fs)"

section \<open>Text of a bundle\<close>

lemma hex2_ascii: "c \<in> set (hex2 b) \<Longrightarrow> c < 128"
  by (auto simp: hex2_def)

lemma to_text_ascii: "c \<in> set (to_text b) \<Longrightarrow> c < 128"
proof -
  have "list_all (\<lambda>c. c < 128) (to_text b)"
    unfolding to_text_def HEADER_COMMENT_def hex8_def
    by (auto simp: list_all_iff lit_def hex2_def split_beta)
  then show "c \<in> set (to_text b) \<Longrightarrow> c < 128" by (simp add: list_all_iff)
qed

lemma from_utf8_to_text: "from_utf8 (as_bytes (to_text b)) = Ok (to_text b)"
  by (rule from_utf8_as_bytes) (simp add: to_text_ascii ascii_scalar)

section \<open>Writing\<close>

lemma map_of_put [simp]: "map_of (AList.update k v al) i = (if i = k then Some v else map_of al i)"
  by (simp add: update_conv')

text \<open>What a file may hold at any moment: nothing, or a part of the text that only its owner can read.\<close>

definition guarded :: "bytes \<Rightarrow> os_file \<Rightarrow> bool" where
  "guarded data f \<longleftrightarrow> f_data f = [] \<or> f_mode f = OWNER_RW \<and> prefix (f_data f) data"

lemma write_file_cases:
  assumes "write_file env b path fs = (r, fs')"
  shows "fs' = fs \<and> (\<exists>e. r = Err (PIo e)) \<or>
    (\<exists>f. map_of fs' path = Some f \<and> guarded (as_bytes (to_text b)) f
       \<and> (r = Ok () \<and> f = \<lparr>f_mode = OWNER_RW, f_data = as_bytes (to_text b)\<rparr> \<or> (\<exists>e. r = Err (PIo e))))"
  using assms
  by (auto simp: write_file_def and_then_def open_truncate_def set_permissions_def write_all_def
      guarded_def Let_def take_is_prefix split: option.splits prod.splits)

lemma write_file_other:
  "write_file env b path fs = (r, fs') \<Longrightarrow> q \<noteq> path \<Longrightarrow> map_of fs' q = map_of fs q"
  by (auto simp: write_file_def and_then_def open_truncate_def set_permissions_def write_all_def
      Let_def split: option.splits prod.splits)

lemma write_file_not_Panic: "write_file env b path fs = (r, fs') \<Longrightarrow> r \<noteq> Panic"
  using write_file_cases by fastforce

lemma write_file_Ok_iff:
  "fst (write_file env b path fs) = Ok () \<longleftrightarrow>
   io_open env = None \<and> io_chmod env = None \<and> io_write env = None"
  by (auto simp: write_file_def and_then_def open_truncate_def set_permissions_def write_all_def
      Let_def split: option.splits prod.splits)

lemma read_file_written:
  assumes "map_of fs path = Some \<lparr>f_mode = m, f_data = as_bytes (to_text b)\<rparr>"
    and "io_read env path = None" and "length (b_device_secret b) = 32"
  shows "read_file env path fs = Ok b"
  using assms by (simp add: read_file_def read_to_string_def from_utf8_to_text bundle_parse_print)

lemma read_file_cong: "map_of fs p = map_of fs' p \<Longrightarrow> read_file env p fs = read_file env p fs'"
  by (simp only: read_file_def read_to_string_def)

text \<open>C14: Whatever call fails, writing a bundle touches no other file, and leaves at the path either what was
  there before, an empty file, or a part of the text in a file of mode \<open>0600\<close>: at no moment can another
  user read any of the secret just written. It succeeds exactly when no call fails, and then the file
  holds the whole text.\<close>

theorem write_file_private:
  "case write_file env b path fs of (r, fs') \<Rightarrow>
     (\<forall>q. q = path \<or> map_of fs' q = map_of fs q) \<and>
     (map_of fs' path = map_of fs path \<or>
      (\<exists>f. map_of fs' path = Some f \<and> guarded (as_bytes (to_text b)) f)) \<and>
     (if io_open env = None \<and> io_chmod env = None \<and> io_write env = None
      then r = Ok () \<and>
        map_of fs' path = Some \<lparr>f_mode = OWNER_RW, f_data = as_bytes (to_text b)\<rparr>
      else \<exists>e. r = Err (PIo e))"
proof -
  obtain r fs' where w: "write_file env b path fs = (r, fs')" by fastforce
  with write_file_Ok_iff [of env b path fs] write_file_cases [OF w] write_file_other [OF w]
  show ?thesis by auto
qed

section \<open>Loading\<close>

text \<open>The bundle a readable file holds.\<close>

primrec the_ok :: "('a, 'e) result \<Rightarrow> 'a" where
  "the_ok (Ok x) = x"

lemma read_files_iff:
  "read_files env ps fs = Ok bs \<longleftrightarrow>
   (\<forall>p \<in> set ps. is_ok (read_file env p fs)) \<and> bs = map (\<lambda>p. the_ok (read_file env p fs)) ps"
  by (induction ps arbitrary: bs) (auto simp: is_ok_iff)

definition bundle_paths :: "path \<Rightarrow> file_system \<Rightarrow> path list" where
  "bundle_paths dir fs = filter (\<lambda>p. path_extension p = Some ext_bundle) (filter (in_dir dir) (map fst fs))"

lemma load_bundles_dir_iff:
  assumes "\<And>p. io_entry env p"
  shows "load_bundles_dir env dir fs = Ok bs \<longleftrightarrow>
    io_readdir env = None \<and> (\<forall>p \<in> set (bundle_paths dir fs). is_ok (read_file env p fs))
    \<and> bs = map (\<lambda>p. the_ok (read_file env p fs)) (sort (bundle_paths dir fs))"
proof -
  have "List.map_filter id (map Some ps) = ps" for ps :: "path list"
    by (induction ps) (simp_all add: map_filter_simps)
  then show ?thesis
    by (auto simp: load_bundles_dir_def read_dir_def assms read_files_iff bundle_paths_def Let_def
        split: option.split)
qed

lemma path_extension_dot:
  assumes "file_name p = a @ 0x2E # b" and "0x2E \<notin> set b" and "a \<noteq> []" and "b \<noteq> []"
  shows "path_extension p = Some b"
proof -
  have "takeWhile (\<lambda>x. x \<noteq> 0x2E) (rev b @ 0x2E # rev a) = rev b"
    using assms(2) by (subst takeWhile_append2) auto
  moreover have "a @ 0x2E # b \<noteq> [0x2E, 0x2E]"
    using assms(3,4) by (cases a; cases b) auto
  ultimately show ?thesis
    using assms by (simp add: path_extension_def Let_def)
qed

lemma file_name_join: "0x2F \<notin> set name \<Longrightarrow> file_name (path_join dir name) = name"
proof -
  assume n: "0x2F \<notin> set name"
  have "takeWhile (\<lambda>x. x \<noteq> 0x2F) (rev name @ r) = rev name" if "r = [] \<or> hd r = 0x2F" for r
    using n that by (subst takeWhile_append2) (auto simp: hd_conv_nth split: list.splits, (cases r; simp)+)
  from this [of "rev dir"] this [of "0x2F # rev dir"] show ?thesis
    by (auto simp: file_name_def path_join_def hd_rev)
qed

lemma in_dir_join: "0x2F \<notin> set name \<Longrightarrow> name \<noteq> [] \<Longrightarrow> in_dir dir (path_join dir name)"
  by (simp add: in_dir_def path_join_def Let_def)

lemma byte_eq_iff: "m < 256 \<Longrightarrow> n < 256 \<Longrightarrow> byte m = byte n \<longleftrightarrow> m = n"
  by (metis unat_byte)

end
