(* ===== verification/Catp_Provision_Tool.thy ===== *)
theory Catp_Provision_Tool
  imports Catp_Files
begin

text \<open>
  The tool \<open>catp-provision\<close> (\<open>tools/src/bin/provision.rs\<close>): generating, inspecting and reissuing bundle
  files. The values of the system's random generator are arguments, in the order drawn; a command
  that would draw more of them than given has the result \<open>None\<close>. Messages on standard error are not
  modelled, standard output and the exit status are.
\<close>

section \<open>Arguments\<close>

datatype exit_code = ExitSuccess | ExitFailure | ExitUsage \<comment> \<open>statuses 0, 1 and 2\<close>

definition parse_byte :: "ustr \<Rightarrow> (u8, exit_code) result" where
  "parse_byte s = rmap of_nat (ok_or (from_str_radix 16 8 s) ExitUsage)"

definition parse_pair :: "ustr \<Rightarrow> (u8 \<times> u8, exit_code) result" where
  "parse_pair pair =
     rbind (ok_or (split_once 58 pair) ExitUsage) (\<lambda>(f, s).
     rbind (parse_byte f) (\<lambda>f. rmap (\<lambda>s. (f, s)) (parse_byte s)))"

fun parse_pairs :: "ustr list \<Rightarrow> ((u8 \<times> u8) list, exit_code) result" where
  "parse_pairs [] = Ok []"
| "parse_pairs (p # ps) = rbind (parse_pair p) (\<lambda>l. rmap (\<lambda>ls. l # ls) (parse_pairs ps))"

definition parse_layouts :: "ustr \<Rightarrow> ((u8 \<times> u8) list, exit_code) result" where
  "parse_layouts spec = (if spec = [] then Ok [] else parse_pairs (split_char 44 spec))"

record gen_args =
  ga_count :: "u32 option"
  ga_cipher_id :: "u8 option"
  ga_layouts :: "(u8 \<times> u8) list"
  ga_out :: "path option"

definition no_args :: gen_args where
  "no_args = \<lparr>ga_count = None, ga_cipher_id = None, ga_layouts = [], ga_out = None\<rparr>"

fun generate_args :: "ustr list \<Rightarrow> gen_args \<Rightarrow> (gen_args, exit_code) result" where
  "generate_args [] ga = Ok ga"
| "generate_args [flag] ga = Err ExitUsage"
| "generate_args (flag # v # args) ga =
     (if flag = lit ''--count'' then
        rbind (ok_or (from_str_radix 10 32 v) ExitUsage)
          (\<lambda>n. generate_args args (ga\<lparr>ga_count := Some (of_nat n)\<rparr>))
      else if flag = lit ''--cipher'' then
        rbind (parse_byte v) (\<lambda>c. generate_args args (ga\<lparr>ga_cipher_id := Some c\<rparr>))
      else if flag = lit ''--layouts'' then
        rbind (parse_layouts v) (\<lambda>ls. generate_args args (ga\<lparr>ga_layouts := ls\<rparr>))
      else if flag = lit ''--out'' then generate_args args (ga\<lparr>ga_out := Some (as_bytes v)\<rparr>)
      else Err ExitUsage)"

section \<open>Generate\<close>

fun random_sender_id :: "u32 list \<Rightarrow> (u32 \<times> u32 list) option" where
  "random_sender_id [] = None"
| "random_sender_id (i # ids) = (if i \<noteq> 0 then Some (i, ids) else random_sender_id ids)"

definition random_secret :: "bytes list \<Rightarrow> (bytes \<times> bytes list) option" where
  "random_secret secrets = (case secrets of [] \<Rightarrow> None | s # ss \<Rightarrow> Some (s, ss))"

definition node_path :: "path \<Rightarrow> u32 \<Rightarrow> path" where
  "node_path out sender_id =
     path_join out (as_bytes (lit ''node-'' @ hex8 sender_id @ lit ''.bundle''))"

text \<open>\<open>Path::exists\<close> is \<open>metadata(..).is_ok()\<close>: a path whose metadata cannot be read does not exist.\<close>

definition path_exists :: "io_env \<Rightarrow> path \<Rightarrow> file_system \<Rightarrow> bool" where
  "path_exists env p fs =
     (case io_stat env p of Some _ \<Rightarrow> False | None \<Rightarrow> map_of fs p \<noteq> None)"

lemma random_sender_id_shorter: "random_sender_id ids = Some (i, ids') \<Longrightarrow> length ids' < length ids"
  by (induction ids) (auto split: if_splits)

text \<open>The sampling loop: \<open>n\<close> bundles wanted, the ids \<open>used\<close> in this batch.\<close>

function sample_bundles ::
  "io_env \<Rightarrow> path \<Rightarrow> file_system \<Rightarrow> u8 \<Rightarrow> (u8 \<times> u8) list \<Rightarrow> nat \<Rightarrow> u32 list \<Rightarrow> prov_bundle list
   \<Rightarrow> u32 list \<Rightarrow> bytes list \<Rightarrow> prov_bundle list option" where
  "sample_bundles env out fs cipher_id layouts n used bundles ids secrets =
     (if \<not> length bundles < n then Some bundles
      else case random_sender_id ids of
        None \<Rightarrow> None
      | Some (sender_id, ids) \<Rightarrow>
          if sender_id \<in> set used
          then sample_bundles env out fs cipher_id layouts n used bundles ids secrets
          else if path_exists env (node_path out sender_id) fs
          then sample_bundles env out fs cipher_id layouts n (sender_id # used) bundles ids secrets
          else case random_secret secrets of
            None \<Rightarrow> None
          | Some (secret, secrets) \<Rightarrow>
              sample_bundles env out fs cipher_id layouts n (sender_id # used)
                (bundles @ [\<lparr>b_sender_id = sender_id, b_device_secret = secret,
                   b_cipher_id = cipher_id, b_layouts = layouts\<rparr>]) ids secrets)"
  by pat_completeness auto
termination
  by (relation "measure (\<lambda>(_, _, _, _, _, _, _, _, ids, _). length ids)")
    (auto dest: random_sender_id_shorter)

declare sample_bundles.simps [simp del]

fun write_bundles ::
  "io_env \<Rightarrow> path \<Rightarrow> prov_bundle list \<Rightarrow> ustr \<Rightarrow> file_system \<Rightarrow> exit_code \<times> ustr \<times> file_system" where
  "write_bundles env out [] stdout fs = (ExitSuccess, stdout, fs)"
| "write_bundles env out (b # bs) stdout fs =
     (let path = node_path out (b_sender_id b) in
      case write_file env b path fs of
        (Ok _, fs) \<Rightarrow> write_bundles env out bs (stdout @ from_utf8_lossy path @ [10]) fs
      | (_, fs) \<Rightarrow> (ExitFailure, stdout, fs))"

definition cmd_generate ::
  "io_env \<Rightarrow> ustr list \<Rightarrow> u32 list \<Rightarrow> bytes list \<Rightarrow> file_system \<Rightarrow> (exit_code \<times> ustr \<times> file_system) option" where
  "cmd_generate env args ids secrets fs =
     (case generate_args args no_args of
        Ok ga \<Rightarrow>
          (case (ga_count ga, ga_cipher_id ga, ga_out ga) of
             (Some n, Some cipher_id, Some out) \<Rightarrow>
               if cipher_from_u8 cipher_id = None then Some (ExitFailure, [], fs)
               else if io_mkdir env \<noteq> None then Some (ExitFailure, [], fs)
               else
                 map_option (\<lambda>bundles. write_bundles env out bundles [] fs)
                   (sample_bundles env out fs cipher_id (ga_layouts ga) (unat n) [] [] ids secrets)
           | _ \<Rightarrow> Some (ExitUsage, [], fs))
      | Err code \<Rightarrow> Some (code, [], fs)
      | Panic \<Rightarrow> None)"

section \<open>Inspect and reissue\<close>

fun inspect_args :: "ustr list \<Rightarrow> bool \<Rightarrow> path option \<Rightarrow> (bool \<times> path option, exit_code) result" where
  "inspect_args [] reveal path = Ok (reveal, path)"
| "inspect_args (a # args) reveal path =
     (if a = lit ''--reveal-secret'' then inspect_args args True path
      else if path = None then inspect_args args reveal (Some (as_bytes a))
      else Err ExitUsage)"

definition inspect_text :: "bool \<Rightarrow> prov_bundle \<Rightarrow> ustr" where
  "inspect_text reveal b =
     lit ''sender_id     '' @ hex8 (b_sender_id b) @ [10]
     @ (if reveal
        then lit ''device_secret '' @ concat (map hex2 (b_device_secret b)) @ [10]
        else lit ''device_secret <hidden, pass --reveal-secret to print>'' @ [10])
     @ lit ''cipher_id     '' @ hex2 (b_cipher_id b) @ [10]
     @ concat (map (\<lambda>(f, s). lit ''layout        '' @ hex2 f @ [32] @ hex2 s @ [10]) (b_layouts b))"

definition cmd_inspect :: "io_env \<Rightarrow> ustr list \<Rightarrow> file_system \<Rightarrow> exit_code \<times> ustr" where
  "cmd_inspect env args fs =
     (case inspect_args args False None of
        Ok (reveal, Some path) \<Rightarrow>
          (case read_file env path fs of
             Ok b \<Rightarrow> (ExitSuccess, inspect_text reveal b)
           | _ \<Rightarrow> (ExitFailure, []))
      | _ \<Rightarrow> (ExitUsage, []))"

fun reissue_args :: "ustr list \<Rightarrow> path option \<Rightarrow> path option \<Rightarrow> (path option \<times> path option, exit_code) result" where
  "reissue_args [] old out = Ok (old, out)"
| "reissue_args (a # args) old out =
     (if a = lit ''--out'' then
        (case args of [] \<Rightarrow> Err ExitUsage | v # args \<Rightarrow> reissue_args args old (Some (as_bytes v)))
      else if old = None then reissue_args args (Some (as_bytes a)) out
      else Err ExitUsage)"

definition cmd_reissue ::
  "io_env \<Rightarrow> ustr list \<Rightarrow> bytes list \<Rightarrow> file_system \<Rightarrow> (exit_code \<times> file_system) option" where
  "cmd_reissue env args secrets fs =
     (case reissue_args args None None of
        Ok (Some old, Some out) \<Rightarrow>
          (case read_file env old fs of
             Ok previous \<Rightarrow>
               map_option (\<lambda>(secret, _).
                   case write_file env (previous\<lparr>b_device_secret := secret\<rparr>) out fs of
                     (Ok _, fs) \<Rightarrow> (ExitSuccess, fs)
                   | (_, fs) \<Rightarrow> (ExitFailure, fs))
                 (random_secret secrets)
           | _ \<Rightarrow> Some (ExitFailure, fs))
      | _ \<Rightarrow> Some (ExitUsage, fs))"

definition provision_main ::
  "io_env \<Rightarrow> ustr list \<Rightarrow> u32 list \<Rightarrow> bytes list \<Rightarrow> file_system \<Rightarrow> (exit_code \<times> ustr \<times> file_system) option" where
  "provision_main env args ids secrets fs =
     (case args of
        [] \<Rightarrow> Some (ExitUsage, [], fs)
      | cmd # args \<Rightarrow>
          if cmd = lit ''generate'' then cmd_generate env args ids secrets fs
          else if cmd = lit ''inspect'' then
            (case cmd_inspect env args fs of (code, out) \<Rightarrow> Some (code, out, fs))
          else if cmd = lit ''reissue'' then
            map_option (\<lambda>(code, fs). (code, [], fs)) (cmd_reissue env args secrets fs)
          else Some (ExitUsage, [], fs))"

section \<open>Paths of nodes\<close>

lemma as_bytes_inj:
  "\<forall>c \<in> set s. c < 128 \<Longrightarrow> \<forall>c \<in> set t. c < 128 \<Longrightarrow> as_bytes s = as_bytes t \<longleftrightarrow> s = t"
  using from_utf8_as_bytes [of s] from_utf8_as_bytes [of t]
  by (metis ascii_scalar result.inject(1))

lemma hex8_inj: "hex8 v = hex8 w \<longleftrightarrow> v = w"
proof
  assume "hex8 v = hex8 w"
  then have "Some (unat v) = Some (unat w)" by (metis from_str_radix_hex8)
  then show "v = w" by (simp add: word_unat_eq_iff)
qed simp

lemma hex8_ascii: "c \<in> set (hex8 w) \<Longrightarrow> c < 128"
  by (auto simp: hex8_def hex2_ascii)

definition node_name :: "u32 \<Rightarrow> ustr" where
  "node_name i = lit ''node-'' @ hex8 i @ lit ''.bundle''"

lemma node_name_ascii: "c \<in> set (node_name i) \<Longrightarrow> c < 128"
  by (auto simp: node_name_def hex8_ascii lit_def)

lemma node_path_inj: "node_path out i = node_path out j \<longleftrightarrow> i = j"
proof -
  have "node_path out i = node_path out j \<longleftrightarrow> as_bytes (node_name i) = as_bytes (node_name j)"
    by (simp add: node_path_def path_join_def node_name_def)
  also have "\<dots> \<longleftrightarrow> node_name i = node_name j"
    by (rule as_bytes_inj) (simp_all add: node_name_ascii)
  also have "\<dots> \<longleftrightarrow> i = j" by (simp add: node_name_def hex8_inj)
  finally show ?thesis .
qed

section \<open>Sampling\<close>

definition fresh_bundle ::
  "io_env \<Rightarrow> path \<Rightarrow> file_system \<Rightarrow> u8 \<Rightarrow> (u8 \<times> u8) list \<Rightarrow> bytes list \<Rightarrow> prov_bundle \<Rightarrow> bool" where
  "fresh_bundle env out fs cipher_id layouts secrets b \<longleftrightarrow>
     b_sender_id b \<noteq> 0 \<and> \<not> path_exists env (node_path out (b_sender_id b)) fs
     \<and> b_device_secret b \<in> set secrets \<and> b_cipher_id b = cipher_id \<and> b_layouts b = layouts"

lemma random_sender_id_nonzero: "random_sender_id ids = Some (i, ids') \<Longrightarrow> i \<noteq> 0"
  by (induction ids) (auto split: if_splits)

text \<open>One draw of the loop.\<close>

lemma sample_bundles_draw:
  assumes "length bundles < n" and "random_sender_id ids = Some (i, ids')"
  shows "i \<in> set used \<Longrightarrow>
      sample_bundles env out fs cid layouts n used bundles ids secrets
      = sample_bundles env out fs cid layouts n used bundles ids' secrets"
    and "i \<notin> set used \<Longrightarrow> path_exists env (node_path out i) fs \<Longrightarrow>
      sample_bundles env out fs cid layouts n used bundles ids secrets
      = sample_bundles env out fs cid layouts n (i # used) bundles ids' secrets"
    and "i \<notin> set used \<Longrightarrow> \<not> path_exists env (node_path out i) fs \<Longrightarrow>
      sample_bundles env out fs cid layouts n used bundles ids secrets
      = (case secrets of [] \<Rightarrow> None
         | s # ss \<Rightarrow> sample_bundles env out fs cid layouts n (i # used)
             (bundles @ [\<lparr>b_sender_id = i, b_device_secret = s, b_cipher_id = cid, b_layouts = layouts\<rparr>])
             ids' ss)"
  using assms
  by (subst sample_bundles.simps, simp add: random_secret_def split: list.split)+

lemma sample_bundles_spec:
  assumes "sample_bundles env out fs cid layouts n used bundles ids secrets = Some bs"
    and "length bundles \<le> n" and "b_sender_id ` set bundles \<subseteq> set used"
    and "distinct (map b_sender_id bundles)"
    and "\<forall>b \<in> set bundles. fresh_bundle env out fs cid layouts all b" and "set secrets \<subseteq> set all"
  shows "length bs = n \<and> distinct (map b_sender_id bs) \<and>
    (\<forall>b \<in> set bs. fresh_bundle env out fs cid layouts all b)"
  using assms
proof (induction "length ids" arbitrary: used bundles ids secrets rule: less_induct)
  case less
  show ?case
  proof (cases "length bundles < n")
    case False
    with less.prems show ?thesis by (subst (asm) sample_bundles.simps) auto
  next
    case True
    with less.prems(1) obtain i ids' where i: "random_sender_id ids = Some (i, ids')"
      by (subst (asm) sample_bundles.simps) (auto split: option.splits)
    note draw = sample_bundles_draw [OF True i] and IH = less.hyps [OF random_sender_id_shorter [OF i]]
    consider "i \<in> set used" | "i \<notin> set used" "path_exists env (node_path out i) fs"
      | "i \<notin> set used" "\<not> path_exists env (node_path out i) fs" by blast
    then show ?thesis
    proof cases
      case 1
      show ?thesis
        by (rule IH [OF less.prems(1) [unfolded draw(1) [OF 1]] less.prems(2-)])
    next
      case 2
      have sub: "b_sender_id ` set bundles \<subseteq> set (i # used)" using less.prems(3) by auto
      show ?thesis
        by (rule IH [OF less.prems(1) [unfolded draw(2) [OF 2]] less.prems(2) sub less.prems(4-)])
    next
      case 3
      from less.prems(1) [unfolded draw(3) [OF 3]] obtain s ss where sec: "secrets = s # ss"
        by (cases secrets) auto
      let ?b = "\<lparr>b_sender_id = i, b_device_secret = s, b_cipher_id = cid, b_layouts = layouts\<rparr>"
      have step: "sample_bundles env out fs cid layouts n (i # used) (bundles @ [?b]) ids' ss = Some bs"
        using less.prems(1) [unfolded draw(3) [OF 3]] sec by simp
      have "fresh_bundle env out fs cid layouts all ?b"
        using 3(2) sec less.prems(6) random_sender_id_nonzero [OF i]
        by (simp add: fresh_bundle_def)
      then have fresh: "\<forall>b \<in> set (bundles @ [?b]). fresh_bundle env out fs cid layouts all b"
        using less.prems(5) by simp
      have dist: "distinct (map b_sender_id (bundles @ [?b]))"
        using less.prems(3,4) 3(1) by auto
      have sub: "b_sender_id ` set (bundles @ [?b]) \<subseteq> set (i # used)"
        using less.prems(3) by auto
      have len: "length (bundles @ [?b]) \<le> n" using True by simp
      have "set ss \<subseteq> set all" using less.prems(6) sec by simp
      from IH [OF step len sub dist fresh this] show ?thesis .
    qed
  qed
qed

lemma random_sender_id_set:
  "set ids - {0} = (case random_sender_id ids of None \<Rightarrow> {} | Some (i, ids') \<Rightarrow> insert i (set ids' - {0}))"
  by (induction ids) auto

text \<open>The loop ends once enough usable ids have been drawn.\<close>

lemma sample_bundles_ends:
  assumes "n - length bundles \<le> card {i \<in> set ids - {0}. i \<notin> set used \<and> \<not> path_exists env (node_path out i) fs}"
    and "n - length bundles \<le> length secrets"
  shows "sample_bundles env out fs cid layouts n used bundles ids secrets \<noteq> None"
  using assms
proof (induction "length ids" arbitrary: used bundles ids secrets rule: less_induct)
  case less
  let ?U = "\<lambda>ids used. {i \<in> set ids - {0}. i \<notin> set used \<and> \<not> path_exists env (node_path out i) fs}"
  show ?case
  proof (cases "length bundles < n")
    case False
    then show ?thesis by (subst sample_bundles.simps) simp
  next
    case True
    show ?thesis
    proof (cases "random_sender_id ids")
      case None
      then have "set ids - {0} = {}" using random_sender_id_set [of ids] by simp
      then have "?U ids used = {}" by blast
      with True less.prems(1) show ?thesis by (simp only: card.empty)
    next
      case (Some r)
      then obtain i ids' where i: "random_sender_id ids = Some (i, ids')" by (cases r) auto
      have ids: "set ids - {0} = insert i (set ids' - {0})" using random_sender_id_set [of ids] i by simp
      note draw = sample_bundles_draw [OF True i] and IH = less.hyps [OF random_sender_id_shorter [OF i]]
      consider "i \<in> set used" | "i \<notin> set used" "path_exists env (node_path out i) fs"
        | "i \<notin> set used" "\<not> path_exists env (node_path out i) fs" by blast
      then show ?thesis
      proof cases
        case 1
        then have "?U ids used = ?U ids' used" unfolding ids by blast
        then show ?thesis
          unfolding draw(1) [OF 1] by (intro IH) (use less.prems in simp_all)
      next
        case 2
        then have "?U ids used = ?U ids' (i # used)" unfolding ids by auto
        then show ?thesis
          unfolding draw(2) [OF 2] by (intro IH) (use less.prems in simp_all)
      next
        case 3
        have "?U ids used \<subseteq> insert i (?U ids' (i # used))" unfolding ids by auto
        then have "card (?U ids used) \<le> card (insert i (?U ids' (i # used)))" by (rule card_mono [rotated]) simp
        also have "\<dots> \<le> Suc (card (?U ids' (i # used)))" by (rule card_insert_le_m1) simp_all
        finally have c: "n - Suc (length bundles) \<le> card (?U ids' (i # used))" using less.prems(1) True by linarith
        from True less.prems(2) obtain s ss where sec: "secrets = s # ss" by (cases secrets) auto
        have "sample_bundles env out fs cid layouts n (i # used)
            (bundles @ [\<lparr>b_sender_id = i, b_device_secret = s, b_cipher_id = cid, b_layouts = layouts\<rparr>]) ids' ss \<noteq> None"
          by (rule IH) (use c less.prems(2) sec in simp_all)
        then show ?thesis unfolding draw(3) [OF 3] sec by simp
      qed
    qed
  qed
qed

section \<open>Writing a batch\<close>

lemma write_bundles_other:
  "write_bundles env out bs o1 fs = (code, o2, fs') \<Longrightarrow>
   \<forall>b \<in> set bs. q \<noteq> node_path out (b_sender_id b) \<Longrightarrow> map_of fs' q = map_of fs q"
proof (induction bs arbitrary: o1 fs)
  case (Cons b bs)
  obtain r fs1 where w: "write_file env b (node_path out (b_sender_id b)) fs = (r, fs1)" by fastforce
  have "map_of fs1 q = map_of fs q" using write_file_other [OF w] Cons.prems(2) by simp
  with Cons w show ?case by (cases r) (auto simp: Let_def)
qed simp

lemma write_file_keys:
  "fst (write_file env b p fs) = Ok () \<Longrightarrow> map_of fs p = None \<Longrightarrow>
   map fst (snd (write_file env b p fs)) = map fst fs @ [p]"
  by (auto simp: write_file_def and_then_def open_truncate_def set_permissions_def write_all_def
      Let_def update_keys map_of_eq_None_iff split: option.splits)

text \<open>A batch that succeeds holds every bundle, readable, at new paths.\<close>

lemma write_bundles_all:
  assumes "write_bundles env out bs o1 fs = (ExitSuccess, o2, fs')"
    and "distinct (map b_sender_id bs)"
    and "\<forall>b \<in> set bs. map_of fs (node_path out (b_sender_id b)) = None"
  shows "map fst fs' = map fst fs @ map (\<lambda>b. node_path out (b_sender_id b)) bs
    \<and> (\<forall>b \<in> set bs. map_of fs' (node_path out (b_sender_id b))
         = Some \<lparr>f_mode = OWNER_RW, f_data = as_bytes (to_text b)\<rparr>)"
  using assms
proof (induction bs arbitrary: o1 fs)
  case (Cons b bs)
  let ?p = "\<lambda>b. node_path out (b_sender_id b)"
  obtain r fs1 where w: "write_file env b (?p b) fs = (r, fs1)" by fastforce
  with Cons.prems(1) have r: "r = Ok ()" by (cases r) (auto simp: Let_def)
  with w Cons.prems(1) have rest: "write_bundles env out bs (o1 @ from_utf8_lossy (?p b) @ [10]) fs1
      = (ExitSuccess, o2, fs')" by (simp add: Let_def)
  have other: "\<forall>c \<in> set bs. ?p c \<noteq> ?p b"
    using Cons.prems(2) by (simp add: node_path_inj) (metis image_eqI)
  then have fresh: "\<forall>c \<in> set bs. map_of fs1 (?p c) = None"
    using Cons.prems(3) write_file_other [OF w] by simp
  have keys: "map fst fs1 = map fst fs @ [?p b]"
    using write_file_keys [of env b "?p b" fs] w r Cons.prems(3) by simp
  have "map_of fs1 (?p b) = Some \<lparr>f_mode = OWNER_RW, f_data = as_bytes (to_text b)\<rparr>"
    using write_file_cases [OF w] r by auto
  then have "map_of fs' (?p b) = Some \<lparr>f_mode = OWNER_RW, f_data = as_bytes (to_text b)\<rparr>"
    using write_bundles_other [OF rest, of "?p b"] other by metis
  with Cons.IH [OF rest _ fresh] Cons.prems(2) keys show ?case by simp
qed simp

lemma write_bundles_fails:
  "write_bundles env out bs o1 fs = (code, o2, fs') \<Longrightarrow> code = ExitSuccess \<or> code = ExitFailure"
  by (induction bs arbitrary: o1 fs) (auto simp: Let_def split: prod.splits result.splits)

lemma parse_args_exit [simp]:
  "parse_byte v = Err e \<Longrightarrow> e = ExitUsage" "parse_byte v \<noteq> Panic"
  "parse_pair p = Err e \<Longrightarrow> e = ExitUsage" "parse_pair p \<noteq> Panic"
  by (auto simp: parse_byte_def parse_pair_def ok_or_def split: option.splits prod.splits)

lemma parse_pairs_exit: "parse_pairs ps = Err e \<Longrightarrow> e = ExitUsage"
proof (induction ps)
  case (Cons p ps)
  then show ?case by (cases "parse_pair p"; cases "parse_pairs ps") auto
qed simp

lemma rbind_eq_Err: "rbind m f = Err e \<longleftrightarrow> m = Err e \<or> (\<exists>x. m = Ok x \<and> f x = Err e)"
  by (cases m) auto

lemma generate_args_exit: "generate_args args ga = Err e \<Longrightarrow> e = ExitUsage"
proof (induction args ga rule: generate_args.induct)
  case (3 flag v args ga)
  from "3.prems" show ?case
    by (auto simp: rbind_eq_Err ok_or_def parse_layouts_def intro: "3.IH" dest: parse_pairs_exit
        split: if_splits option.splits)
qed simp_all

text \<open>The course of \<open>cmd_generate\<close>: refused with nothing changed, or a batch written.\<close>

lemma cmd_generate_cases:
  assumes "cmd_generate env args ids secrets fs = Some (code, o2, fs')"
  obtains (refused) "fs' = fs" "code \<noteq> ExitSuccess"
    | (sampled) ga n cid out bs where "generate_args args no_args = Ok ga"
        "ga_count ga = Some n" "ga_cipher_id ga = Some cid" "ga_out ga = Some out"
        "cipher_from_u8 cid \<noteq> None" "length bs = unat n" "distinct (map b_sender_id bs)"
        "\<forall>b \<in> set bs. fresh_bundle env out fs cid (ga_layouts ga) secrets b"
        "write_bundles env out bs [] fs = (code, o2, fs')"
proof (cases "generate_args args no_args")
  case (Err e)
  then have "e = ExitUsage" by (rule generate_args_exit)
  with Err assms show thesis by (intro refused) (auto simp: cmd_generate_def)
next
  case Panic
  with assms show thesis by (simp add: cmd_generate_def)
next
  case (Ok ga)
  show thesis
  proof (cases "\<exists>n cid out. ga_count ga = Some n \<and> ga_cipher_id ga = Some cid \<and> ga_out ga = Some out
      \<and> cipher_from_u8 cid \<noteq> None \<and> io_mkdir env = None")
    case False
    with Ok assms show thesis
      by (intro refused) (auto simp: cmd_generate_def split: option.splits if_splits)
  next
    case True
    then obtain n cid out where g: "ga_count ga = Some n" "ga_cipher_id ga = Some cid" "ga_out ga = Some out"
      "cipher_from_u8 cid \<noteq> None" "io_mkdir env = None" by blast
    with Ok assms obtain bs where
      bs: "sample_bundles env out fs cid (ga_layouts ga) (unat n) [] [] ids secrets = Some bs"
      and w: "write_bundles env out bs [] fs = (code, o2, fs')"
      by (auto simp: cmd_generate_def)
    from sample_bundles_spec [OF bs, of secrets] have "length bs = unat n" "distinct (map b_sender_id bs)"
      "\<forall>b \<in> set bs. fresh_bundle env out fs cid (ga_layouts ga) secrets b" by simp_all
    with g w Ok show thesis by (intro sampled [of ga n cid out bs]) assumption+
  qed
qed

section \<open>Generating into a directory\<close>

lemma hex_digit_not_path [simp]: "d < 16 \<Longrightarrow> hex_digit d \<noteq> 46" "d < 16 \<Longrightarrow> hex_digit d \<noteq> 47"
  by (auto simp: hex_digit_def)

lemma hex8_not_path: "46 \<notin> set (hex8 i)" "47 \<notin> set (hex8 i)"
  by (auto simp: hex8_def hex2_def)

lemma byte_in_map: "\<forall>c \<in> set s. c < 128 \<Longrightarrow> n < 128 \<Longrightarrow> byte n \<in> set (map byte s) \<longleftrightarrow> n \<in> set s"
  by (auto simp: byte_eq_iff)

lemma node_name_bytes: "as_bytes (node_name i) = map byte (node_name i)"
  by (rule as_bytes_ascii) (simp add: node_name_ascii)

lemma node_name_no_slash: "0x2F \<notin> set (as_bytes (node_name i))"
proof -
  have "47 \<notin> set (node_name i)" using hex8_not_path(2) by (simp add: node_name_def) (simp add: lit_def)
  then have "byte 47 \<notin> set (map byte (node_name i))"
    by (subst byte_in_map) (simp_all add: node_name_ascii)
  then show ?thesis by (simp add: node_name_bytes byte_def)
qed

lemma node_path_join: "node_path out i = path_join out (as_bytes (node_name i))"
  by (simp add: node_path_def node_name_def)

lemma node_path_listed: "in_dir out (node_path out i)" "path_extension (node_path out i) = Some ext_bundle"
proof -
  have "as_bytes (node_name i) \<noteq> []"
    by (simp add: node_name_bytes) (simp add: node_name_def lit_def)
  then show "in_dir out (node_path out i)"
    by (simp only: node_path_join in_dir_join node_name_no_slash not_False_eq_True)
  have "file_name (node_path out i) = as_bytes (node_name i)"
    by (simp only: node_path_join file_name_join node_name_no_slash not_False_eq_True)
  also have "\<dots> = map byte (node_name i)" by (rule node_name_bytes)
  also have "\<dots> = map byte (lit ''node-'' @ hex8 i) @ 0x2E # ext_bundle"
    by (simp add: node_name_def ext_bundle_def as_bytes_ascii lit_def byte_def)
  finally show "path_extension (node_path out i) = Some ext_bundle"
    by (rule path_extension_dot) (simp_all add: ext_bundle_def as_bytes_ascii lit_def byte_def)
qed

section \<open>A concrete run\<close>

definition demo_env :: io_env where
  "demo_env = \<lparr>io_umask = 0x12, io_open = None, io_chmod = None, io_write = None, io_read = (\<lambda>_. None),
     io_readdir = None, io_mkdir = None, io_entry = (\<lambda>_. True),
     io_stat = (\<lambda>_. None)\<rparr>"

definition demo_args :: "ustr list" where
  "demo_args = [lit ''--count'', lit ''1'', lit ''--cipher'', lit ''1'', lit ''--out'', lit ''d'']"

definition demo_fs :: file_system where
  "demo_fs = [([120], \<lparr>f_mode = 0, f_data = [1]\<rparr>)]"

lemma demo_args_parse:
  "generate_args demo_args no_args
   = Ok \<lparr>ga_count = Some 1, ga_cipher_id = Some 1, ga_layouts = [], ga_out = Some [100]\<rparr>"
  by (simp add: demo_args_def no_args_def lit_def from_str_radix_def to_digit_def hex_value_def
      parse_byte_def as_bytes_def utf8_def byte_def)

lemma demo_node_absent: "map_of demo_fs (node_path out i) = None"
proof -
  have "path_extension [120] = None" by (simp add: path_extension_def file_name_def Let_def)
  then have "node_path out i \<noteq> [120]" using node_path_listed(2) [of out i] by auto
  then show ?thesis by (simp add: demo_fs_def)
qed

lemma demo_generate:
  "\<exists>o2 fs'. cmd_generate demo_env demo_args [0, 5] [secret] demo_fs = Some (ExitSuccess, o2, fs')"
proof -
  let ?b = "\<lparr>b_sender_id = 5, b_device_secret = secret, b_cipher_id = 1, b_layouts = []\<rparr>"
  have ab: "\<not> path_exists demo_env (node_path [100] 5) demo_fs"
    by (simp add: path_exists_def demo_node_absent demo_env_def)
  have "sample_bundles demo_env [100] demo_fs 1 [] (unat (1 :: u32)) [] [] [0, 5] [secret] = Some [?b]"
    by (simp add: ab random_secret_def sample_bundles.simps)
  moreover obtain fs' where "write_file demo_env ?b (node_path [100] 5) demo_fs = (Ok (), fs')"
    using write_file_Ok_iff [of demo_env ?b "node_path [100] 5" demo_fs]
    by (cases "write_file demo_env ?b (node_path [100] 5) demo_fs") (simp add: demo_env_def)
  moreover have "cipher_from_u8 1 \<noteq> None" "io_mkdir demo_env = None"
    by (simp_all add: cipher_from_u8_def demo_env_def)
  ultimately show ?thesis
    by (simp add: cmd_generate_def demo_args_parse Let_def)
qed

text \<open>A path that exists, as far as the tool can tell, gets no bundle.\<close>

lemma fresh_bundle_absent:
  "fresh_bundle env out fs cid ls secrets b \<Longrightarrow> io_stat env (node_path out (b_sender_id b)) = None \<Longrightarrow>
   map_of fs (node_path out (b_sender_id b)) = None"
  by (simp add: fresh_bundle_def path_exists_def)

text \<open>C15: \<open>generate\<close> never touches a file that is already there and whose metadata can be read: whatever
  it is asked, whatever the random values and whichever other call fails, every such file keeps its mode
  and its bytes. (A file whose metadata cannot be read looks absent to \<open>Path::exists\<close>; see
  \<open>generate_overwrites_unreadable\<close>.)\<close>

theorem generate_keeps_files:
  assumes "cmd_generate env args ids secrets fs = Some (code, o2, fs')" and "map_of fs q = Some f"
    and "io_stat env q = None"
  shows "map_of fs' q = Some f"
  using assms(1)
proof (cases rule: cmd_generate_cases)
  case (sampled ga n cid out bs)
  then have "\<forall>b \<in> set bs. q \<noteq> node_path out (b_sender_id b)"
    using assms(2,3) fresh_bundle_absent by fastforce
  from write_bundles_other [OF sampled(9) this] assms(2) show ?thesis by simp
qed (use assms in simp)

theorem generate_keeps_files_witness:
  "\<exists>o2 fs'. cmd_generate demo_env demo_args [0, 5] [replicate 32 1] demo_fs = Some (ExitSuccess, o2, fs')
     \<and> map_of fs' [120] = Some \<lparr>f_mode = 0, f_data = [1]\<rparr>"
proof -
  obtain o2 fs' where g: "cmd_generate demo_env demo_args [0, 5] [replicate 32 1] demo_fs
      = Some (ExitSuccess, o2, fs')" using demo_generate by blast
  have "map_of demo_fs [120] = Some \<lparr>f_mode = 0, f_data = [1]\<rparr>" by (simp add: demo_fs_def)
  from generate_keeps_files [OF g this] g show ?thesis by (simp add: demo_env_def)
qed

text \<open>C17: A batch generated into a directory adds up with what was there: after \<open>generate\<close> succeeds, loading
  the directory gives the bundles that loaded before and the new ones, as many as asked for, with
  distinct non-zero sender ids, and the suite and layouts of the command line, provided that files and
  their metadata can be read.\<close>

theorem generate_then_load:
  assumes "cmd_generate env args ids secrets fs = Some (ExitSuccess, o2, fs')"
    and "generate_args args no_args = Ok ga" and "ga_out ga = Some out"
    and "load_bundles_dir env out fs = Ok old"
    and "\<And>p. io_entry env p" and "\<And>p. io_read env p = None \<and> io_stat env p = None" and "\<forall>s \<in> set secrets. length s = 32"
  shows "\<exists>new all. load_bundles_dir env out fs' = Ok all \<and> mset all = mset old + mset new
    \<and> length new = unat (the (ga_count ga)) \<and> distinct (map b_sender_id new)
    \<and> (\<forall>b \<in> set new. b_sender_id b \<noteq> 0 \<and> b_layouts b = ga_layouts ga \<and> Some (b_cipher_id b) = ga_cipher_id ga)"
  using assms(1)
proof (cases rule: cmd_generate_cases)
  case (sampled ga' n cid out' bs)
  then have same: "ga' = ga" "out' = out" using assms(2,3) by simp_all
  note s = sampled [unfolded same]
  let ?p = "\<lambda>b. node_path out (b_sender_id b)"
  have fresh: "\<forall>b \<in> set bs. map_of fs (?p b) = None" using s(8) assms(6) fresh_bundle_absent by blast
  note all = write_bundles_all [OF s(9,7) fresh]
  have paths: "bundle_paths out fs' = bundle_paths out fs @ map ?p bs"
    using all by (simp add: bundle_paths_def filter_map comp_def node_path_listed)
  have new: "read_file env (?p b) fs' = Ok b" if "b \<in> set bs" for b
    using all that assms(6,7) s(8) by (intro read_file_written) (auto simp: fresh_bundle_def)
  have keep: "read_file env q fs' = read_file env q fs" if "q \<in> set (bundle_paths out fs)" for q
  proof (rule read_file_cong)
    have "map_of fs q \<noteq> None" using that by (simp add: bundle_paths_def map_of_eq_None_iff)
    then have "\<forall>b \<in> set bs. q \<noteq> ?p b" using fresh by metis
    then show "map_of fs' q = map_of fs q" by (rule write_bundles_other [OF s(9)])
  qed
  let ?val = "\<lambda>fs p. the_ok (read_file env p fs)"
  have old: "io_readdir env = None" "\<forall>p \<in> set (bundle_paths out fs). is_ok (read_file env p fs)"
    "old = map (?val fs) (sort (bundle_paths out fs))"
    using assms(4) load_bundles_dir_iff [OF assms(5)] by blast+
  let ?all = "map (?val fs') (sort (bundle_paths out fs'))"
  have "load_bundles_dir env out fs' = Ok ?all"
    using old keep new by (auto simp: load_bundles_dir_iff [OF assms(5)] paths)
  moreover have "mset ?all = mset old + mset bs"
  proof -
    have "map (?val fs') (bundle_paths out fs) = map (?val fs) (bundle_paths out fs)"
      using keep by (intro map_cong) simp_all
    then have "mset (map (?val fs') (bundle_paths out fs)) = mset old"
      by (simp only: old(3) mset_map mset_sort)
    moreover have "map (?val fs') (map ?p bs) = bs" using new by (simp add: map_idI)
    moreover have "mset ?all = mset (map (?val fs') (bundle_paths out fs)) + mset (map (?val fs') (map ?p bs))"
      by (simp only: paths mset_map mset_sort mset_append image_mset_union)
    ultimately show ?thesis by (simp only:)
  qed
  ultimately show ?thesis
    using s by (intro exI [of _ bs] exI [of _ ?all]) (simp add: fresh_bundle_def)
qed (use assms in simp)

theorem generate_then_load_witness:
  "\<exists>o2 fs' new all. cmd_generate demo_env demo_args [0, 5] [replicate 32 1] demo_fs = Some (ExitSuccess, o2, fs')
     \<and> load_bundles_dir demo_env [100] fs' = Ok all \<and> mset all = mset new \<and> length new = 1"
proof -
  obtain o2 fs' where g: "cmd_generate demo_env demo_args [0, 5] [replicate 32 1] demo_fs
      = Some (ExitSuccess, o2, fs')" using demo_generate by blast
  have "load_bundles_dir demo_env [100] demo_fs = Ok []"
    by (simp add: load_bundles_dir_iff demo_env_def bundle_paths_def demo_fs_def in_dir_def
        path_join_def Let_def)
  from generate_then_load [OF g demo_args_parse _ this] g show ?thesis
    by (simp add: demo_env_def) blast
qed

text \<open>C37: \<open>generate\<close> ends: on valid arguments it needs no more than \<open>count\<close> usable ids (not zero, not drawn
  twice, not taken in the directory) and \<open>count\<close> secrets among the random values drawn.\<close>

theorem generate_ends:
  assumes "generate_args args no_args = Ok ga" and "ga_count ga = Some n" and "ga_out ga = Some out"
    and "unat n \<le> card {i \<in> set ids - {0}. map_of fs (node_path out i) = None}"
    and "unat n \<le> length secrets"
  shows "cmd_generate env args ids secrets fs \<noteq> None"
proof -
  have "sample_bundles env out fs cid (ga_layouts ga) (unat n) [] [] ids secrets \<noteq> None" for cid
  proof (rule sample_bundles_ends)
    have "card {i \<in> set ids - {0}. map_of fs (node_path out i) = None}
        \<le> card {i \<in> set ids - {0}. i \<notin> set [] \<and> \<not> path_exists env (node_path out i) fs}"
      by (rule card_mono) (auto simp: path_exists_def split: option.splits)
    with assms(4) show "unat n - length []
        \<le> card {i \<in> set ids - {0}. i \<notin> set [] \<and> \<not> path_exists env (node_path out i) fs}" by simp
  qed (use assms(5) in simp)
  with assms(1-3) show ?thesis
    by (simp add: cmd_generate_def split: option.split del: not_None_eq)
qed

theorem generate_ends_witness:
  "cmd_generate demo_env demo_args [0, 5, 5, 6] [replicate 32 1] demo_fs \<noteq> None"
proof -
  have "{i \<in> set [0, 5, 5, 6] - {0 :: u32}. map_of demo_fs (node_path [100] i) = None} = {5, 6}"
    by (auto simp: demo_node_absent)
  then show ?thesis
    by (intro generate_ends [OF demo_args_parse, of 1 "[100]"]) simp_all
qed

text \<open>Where the metadata of an existing bundle cannot be read, \<open>generate\<close> takes its path for free and
  replaces the bundle of a provisioned node.\<close>

lemma generate_overwrites_unreadable:
  "\<exists>o2 fs'. cmd_generate (demo_env\<lparr>io_stat := \<lambda>_. Some (OsError 5)\<rparr>) demo_args [5] [replicate 32 1]
      [(node_path [100] 5, \<lparr>f_mode = OWNER_RW, f_data = [1]\<rparr>)] = Some (ExitSuccess, o2, fs')
    \<and> map_of fs' (node_path [100] 5) \<noteq> Some \<lparr>f_mode = OWNER_RW, f_data = [1]\<rparr>"
proof -
  let ?env = "demo_env\<lparr>io_stat := \<lambda>_. Some (OsError 5)\<rparr>"
  let ?fs = "[(node_path [100] 5, \<lparr>f_mode = OWNER_RW, f_data = [1]\<rparr>)] :: file_system"
  let ?b = "\<lparr>b_sender_id = 5, b_device_secret = replicate 32 1, b_cipher_id = 1, b_layouts = []\<rparr>"
  have "\<not> path_exists ?env p ?fs" for p by (simp add: path_exists_def)
  then have "sample_bundles ?env [100] ?fs 1 [] (unat (1 :: u32)) [] [] [5] [replicate 32 1] = Some [?b]"
    by (simp add: random_secret_def sample_bundles.simps)
  moreover obtain fs' where w: "write_file ?env ?b (node_path [100] 5) ?fs = (Ok (), fs')"
    using write_file_Ok_iff [of ?env ?b "node_path [100] 5" ?fs]
    by (cases "write_file ?env ?b (node_path [100] 5) ?fs") (simp add: demo_env_def)
  moreover have "cipher_from_u8 1 \<noteq> None" "io_mkdir ?env = None"
    by (simp_all add: cipher_from_u8_def demo_env_def)
  ultimately have g: "cmd_generate ?env demo_args [5] [replicate 32 1] ?fs
      = Some (ExitSuccess, from_utf8_lossy (node_path [100] 5) @ [10], fs')"
    by (simp add: cmd_generate_def demo_args_parse Let_def)
  have "as_bytes (to_text ?b) \<noteq> [1]"
    by (simp add: to_text_def HEADER_COMMENT_def lit_def as_bytes_def utf8_def)
  with write_file_cases [OF w] have "map_of fs' (node_path [100] 5) \<noteq> Some \<lparr>f_mode = OWNER_RW, f_data = [1]\<rparr>"
    by auto
  with g show ?thesis by blast
qed

section \<open>Inspecting and reissuing\<close>

lemma inspect_args_reveal:
  "inspect_args args reveal path = Ok (r, p) \<Longrightarrow> lit ''--reveal-secret'' \<notin> set args \<Longrightarrow> r = reveal"
  by (induction args arbitrary: path) (auto split: if_splits)

text \<open>A bundle without its secret, which is all that \<open>inspect\<close> shows by default.\<close>

definition public_part :: "prov_bundle \<Rightarrow> prov_bundle" where
  "public_part b = b\<lparr>b_device_secret := []\<rparr>"

lemma inspect_text_public: "inspect_text False b = inspect_text False (public_part b)"
  by (simp add: inspect_text_def public_part_def)

lemma inspect_text_reveals: "to_text b = HEADER_COMMENT @ [10] @ inspect_text True b"
  by (simp add: to_text_def inspect_text_def)

lemma rmap_eq_cases:
  "rmap f x = rmap f y \<longleftrightarrow>
   (case x of Ok u \<Rightarrow> \<exists>v. y = Ok v \<and> f u = f v | Err e \<Rightarrow> y = Err e | Panic \<Rightarrow> y = Panic)"
  by (cases x; cases y) auto

text \<open>C18: Without \<open>--reveal-secret\<close>, nothing that \<open>inspect\<close> prints or returns depends on a secret: two file
  systems whose bundles differ in their secrets only give the same output and status.\<close>

theorem inspect_hides_secrets:
  assumes "lit ''--reveal-secret'' \<notin> set args"
    and "\<And>p. rmap public_part (read_file env p fs) = rmap public_part (read_file env p fs')"
  shows "cmd_inspect env args fs = cmd_inspect env args fs'"
proof (cases "inspect_args args False None")
  case (Ok r)
  then obtain path where r: "r = (False, path)" using inspect_args_reveal assms(1) by (cases r) fastforce
  show ?thesis
  proof (cases path)
    case (Some p)
    from assms(2) [of p] show ?thesis
      using inspect_text_public
      by (auto simp: cmd_inspect_def Ok r Some rmap_eq_cases split: result.splits) metis
  qed (simp add: cmd_inspect_def Ok r)
qed (simp_all add: cmd_inspect_def)

definition demo_bundle :: "u8 \<Rightarrow> prov_bundle" where
  "demo_bundle x = \<lparr>b_sender_id = 7, b_device_secret = replicate 32 x, b_cipher_id = 1, b_layouts = [(1, 1)]\<rparr>"

theorem inspect_hides_secrets_witness:
  "let fs = (\<lambda>x. [([120], \<lparr>f_mode = OWNER_RW, f_data = as_bytes (to_text (demo_bundle x))\<rparr>)]) in
   cmd_inspect demo_env [lit ''x''] (fs 1) = cmd_inspect demo_env [lit ''x''] (fs 2)
   \<and> fst (cmd_inspect demo_env [lit ''x''] (fs 1)) = ExitSuccess"
proof -
  let ?fs = "\<lambda>x. [([120], \<lparr>f_mode = OWNER_RW, f_data = as_bytes (to_text (demo_bundle x))\<rparr>)] :: file_system"
  have here: "read_file demo_env [120] (?fs x) = Ok (demo_bundle x)" for x
    by (rule read_file_written) (simp_all add: demo_env_def, simp add: demo_bundle_def)
  have none: "read_file demo_env p (?fs x) = Err (PIo ENOENT)" if "p \<noteq> [120]" for p x
    using that by (simp add: read_file_def read_to_string_def demo_env_def)
  have "rmap public_part (read_file demo_env p (?fs 1)) = rmap public_part (read_file demo_env p (?fs 2))" for p
    by (cases "p = [120]") (simp_all add: here none, simp add: public_part_def demo_bundle_def)
  then have "cmd_inspect demo_env [lit ''x''] (?fs 1) = cmd_inspect demo_env [lit ''x''] (?fs 2)"
    by (intro inspect_hides_secrets) (simp_all add: lit_def)
  moreover have "inspect_args [lit ''x''] False None = Ok (False, Some [120])"
    by (simp add: lit_def as_bytes_def utf8_def byte_def)
  then have "fst (cmd_inspect demo_env [lit ''x''] (?fs 1)) = ExitSuccess"
    by (simp add: cmd_inspect_def here)
  ultimately show ?thesis by (simp add: Let_def)
qed

lemma reissue_keeps_identity:
  assumes "cmd_reissue env args secrets fs = Some (ExitSuccess, fs')"
    and "reissue_args args None None = Ok (Some old, Some out)"
    and "io_read env out = None" and "\<forall>s \<in> set secrets. length s = 32"
  shows "\<exists>b. read_file env old fs = Ok b
    \<and> read_file env out fs' = Ok (b\<lparr>b_device_secret := hd secrets\<rparr>)
    \<and> (\<forall>q. q \<noteq> out \<longrightarrow> map_of fs' q = map_of fs q)"
proof -
  obtain b where b: "read_file env old fs = Ok b"
    using assms(1,2) by (cases "read_file env old fs") (auto simp: cmd_reissue_def)
  obtain s ss where s: "secrets = s # ss"
    using assms(1,2) b by (cases secrets) (auto simp: cmd_reissue_def random_secret_def)
  let ?new = "b\<lparr>b_device_secret := s\<rparr>"
  obtain r fs1 where w: "write_file env ?new out fs = (r, fs1)" by fastforce
  then have r: "r = Ok ()" "fs1 = fs'"
    using assms(1,2) b s by (auto simp: cmd_reissue_def random_secret_def split: result.splits)
  with write_file_cases [OF w] have "map_of fs' out = Some \<lparr>f_mode = OWNER_RW, f_data = as_bytes (to_text ?new)\<rparr>"
    by auto
  then have "read_file env out fs' = Ok ?new"
    using assms(3,4) s by (intro read_file_written) simp_all
  with b s write_file_other [OF w] r show ?thesis by auto
qed

end
