(* ===== verification/Catp_Debug.thy ===== *)
theory Catp_Debug
  imports Catp_Provisioning
begin

text \<open>
  The \<open>Debug\<close> text of a provisioning bundle, from \<open>src/provisioning.rs\<close>: what an accidental
  \<open>{:?}\<close> in a log line shows of a node. It determines every field but the secret, and is the same
  for all secrets.
\<close>

section \<open>The text\<close>

text \<open>\<open>{:?}\<close> of a pair of bytes and of a vector of them.\<close>

definition debug_pair :: "u8 \<times> u8 \<Rightarrow> ustr" where
  "debug_pair p = lit ''('' @ dec (unat (fst p)) @ lit '', '' @ dec (unat (snd p)) @ lit '')''"

fun debug_rest :: "(u8 \<times> u8) list \<Rightarrow> ustr" where
  "debug_rest [] = lit '']''"
| "debug_rest (p # ps) = lit '', '' @ debug_pair p @ debug_rest ps"

fun debug_pairs :: "(u8 \<times> u8) list \<Rightarrow> ustr" where
  "debug_pairs [] = lit ''[]''"
| "debug_pairs (p # ps) = lit ''['' @ debug_pair p @ debug_rest ps"

definition bundle_debug :: "prov_bundle \<Rightarrow> ustr" where
  "bundle_debug b =
     lit ''Bundle { sender_id: '' @ dec (unat (b_sender_id b))
     @ lit '', device_secret: '' @ [34] @ lit ''[REDACTED; 32 bytes]'' @ [34]
     @ lit '', cipher_id: '' @ dec (unat (b_cipher_id b))
     @ lit '', layouts: '' @ debug_pairs (b_layouts b) @ lit '' }''"

section \<open>What it shows\<close>

lemma dec_inj: "dec m = dec n \<longleftrightarrow> m = n"
proof
  assume "dec m = dec n"
  then have "radix_loop 10 (m + n + 1) (dec m) 0 = radix_loop 10 (m + n + 1) (dec n) 0" by simp
  with radix_loop_dec [of m "m + n + 1" "[]"] radix_loop_dec [of n "m + n + 1" "[]"]
  show "m = n" by simp
qed simp

text \<open>A number ends at the first character that is no digit.\<close>

lemma dec_append_inj:
  assumes "x < 48" "y < 48" and "dec m @ x # r = dec n @ y # s"
  shows "m = n \<and> x = y \<and> r = s"
proof -
  let ?P = "\<lambda>c :: nat. 48 \<le> c"
  have t: "takeWhile ?P (dec k @ z # u) = dec k" "dropWhile ?P (dec k @ z # u) = z # u" if "z < 48" for k z u
    using that dec_digits [of _ k]
    by (auto simp: takeWhile_append2 dropWhile_append2)
  from t [OF assms(1), of m r] t [OF assms(2), of n s] assms(3) show ?thesis by (auto simp: dec_inj)
qed

lemma lit_chars: "lit (c # s) = of_char c # lit s" "lit [] = []"
  by (simp_all add: lit_def)

lemma debug_pair_inj: "debug_pair p @ r = debug_pair q @ s \<longleftrightarrow> p = q \<and> r = s"
  by (cases p, cases q) (auto simp: debug_pair_def lit_chars word_unat_eq_iff dest!: dec_append_inj [rotated 2])

lemma debug_rest_inj: "debug_rest ps @ r = debug_rest qs @ s \<Longrightarrow> ps = qs \<and> r = s"
proof (induction ps arbitrary: qs)
  case Nil
  then show ?case by (cases qs) (simp_all add: lit_chars)
next
  case (Cons p ps)
  then show ?case by (cases qs) (auto simp: lit_chars debug_pair_inj)
qed

lemma debug_pairs_inj: "debug_pairs ps = debug_pairs qs \<longleftrightarrow> ps = qs"
proof -
  have "debug_pair p @ debug_rest us \<noteq> lit '']''" for p us by (simp add: debug_pair_def lit_chars)
  moreover have "debug_rest us = debug_rest vs \<longleftrightarrow> us = vs" for us vs
    using debug_rest_inj [of us "[]" vs "[]"] by auto
  ultimately show ?thesis
    by (cases ps; cases qs) (auto simp: lit_chars debug_pair_inj dest: sym)
qed

text \<open>The \<open>Debug\<close> text of a bundle tells apart any two bundles that differ in anything but the secret,
  and no two bundles that differ in the secret alone: it leaks nothing of the secret and hides nothing
  else.\<close>

lemma bundle_debug_redacts:
  "bundle_debug b = bundle_debug b' \<longleftrightarrow>
   b_sender_id b = b_sender_id b' \<and> b_cipher_id b = b_cipher_id b' \<and> b_layouts b = b_layouts b'"
proof
  assume eq: "bundle_debug b = bundle_debug b'"
  then show "b_sender_id b = b_sender_id b' \<and> b_cipher_id b = b_cipher_id b' \<and> b_layouts b = b_layouts b'"
    unfolding bundle_debug_def
    by (auto simp: lit_chars word_unat_eq_iff debug_pairs_inj dest!: dec_append_inj [rotated 2])
qed (simp add: bundle_debug_def)

end
