(* ===== verification/Catp_Json.thy ===== *)
theory Catp_Json
  imports Catp_Text
begin

text \<open>
  The two halves of the vector interchange: the JSON reader \<open>tinyjson\<close> of
  \<open>tools/src/bin/conformance_iut.rs\<close> and the writer (\<open>json_str\<close>, \<open>JsonVectors\<close>) of
  \<open>tools/src/bin/vectors.rs\<close>. The peekable character iterator is the list of characters still to
  come; a failed assertion or \<open>panic!\<close> is \<open>Panic\<close>.
\<close>

section \<open>Reading\<close>

definition skip_ws :: "ustr \<Rightarrow> ustr" where
  "skip_ws chars = dropWhile is_ws chars"

fun string_loop :: "ustr \<Rightarrow> ustr \<Rightarrow> (ustr \<times> ustr, unit) result" where
  "string_loop [] out = Panic"
| "string_loop (c # chars) out =
     (if c = 34 then Ok (out, chars)
      else if c = 92 then
        (case chars of
           [] \<Rightarrow> Panic
         | e # chars \<Rightarrow> if e = 34 \<or> e = 92 then string_loop chars (out @ [e]) else Panic)
      else string_loop chars (out @ [c]))"

definition parse_string :: "ustr \<Rightarrow> (ustr \<times> ustr, unit) result" where
  "parse_string chars =
     (case chars of [] \<Rightarrow> Panic | c # chars \<Rightarrow> if c = 34 then string_loop chars [] else Panic)"

definition number_char :: "nat \<Rightarrow> bool" where
  "number_char c \<longleftrightarrow> 48 \<le> c \<and> c \<le> 57 \<or> c = 45"

definition parse_number :: "ustr \<Rightarrow> ustr \<times> ustr" where
  "parse_number chars = (takeWhile number_char chars, dropWhile number_char chars)"

definition parse_value :: "ustr \<Rightarrow> (ustr \<times> ustr, unit) result" where
  "parse_value chars =
     (case chars of
        c # _ \<Rightarrow> if c = 34 then parse_string chars else Ok (parse_number chars)
      | [] \<Rightarrow> Ok (parse_number chars))"

lemma string_loop_shorter: "string_loop s out = Ok (r, s') \<Longrightarrow> length s' < length s"
  by (induction s out rule: string_loop.induct) (auto split: if_splits list.splits)

lemma parse_string_shorter: "parse_string s = Ok (r, s') \<Longrightarrow> length s' < length s"
  by (auto simp: parse_string_def split: list.splits if_splits dest: string_loop_shorter)

lemma parse_value_shorter: "parse_value s = Ok (r, s') \<Longrightarrow> length s' \<le> length s"
  by (auto simp: parse_value_def parse_number_def length_dropWhile_le le_SucI split: list.splits if_splits
      dest: parse_string_shorter)

text \<open>A key, the colon and the value of one field.\<close>

definition parse_field :: "ustr \<Rightarrow> ((ustr \<times> ustr) \<times> ustr, unit) result" where
  "parse_field chars =
     rbind (parse_string chars) (\<lambda>(key, chars).
       case skip_ws chars of
         [] \<Rightarrow> Panic
       | c # chars \<Rightarrow>
           if c = 58
           then rmap (\<lambda>(val, chars). ((key, val), chars)) (parse_value (skip_ws chars))
           else Panic)"

lemma skip_ws_shorter: "length (skip_ws s) \<le> length s"
  by (simp add: skip_ws_def length_dropWhile_le)

lemma parse_field_shorter: "parse_field s = Ok (kv, s') \<Longrightarrow> length s' < length s"
proof -
  assume a: "parse_field s = Ok (kv, s')"
  then obtain key s1 where k: "parse_string s = Ok (key, s1)"
    by (auto simp: parse_field_def)
  with a obtain c s2 where c: "skip_ws s1 = c # s2"
    by (cases "skip_ws s1") (auto simp: parse_field_def)
  with a k obtain val where "parse_value (skip_ws s2) = Ok (val, s')"
    by (auto simp: parse_field_def split: if_splits)
  note s = k c this
  have "length s' \<le> length (skip_ws s2)" by (rule parse_value_shorter [OF s(3)])
  also have "\<dots> \<le> length s2" by (rule skip_ws_shorter)
  also have "\<dots> < length (skip_ws s1)" by (simp add: s(2))
  also have "\<dots> \<le> length s1" by (rule skip_ws_shorter)
  also have "\<dots> < length s" by (rule parse_string_shorter [OF s(1)])
  finally show ?thesis .
qed

type_synonym json_object = "ustr \<Rightarrow> ustr option"

function object_loop :: "ustr \<Rightarrow> json_object \<Rightarrow> (json_object \<times> ustr, unit) result" where
  "object_loop chars obj =
     (case skip_ws chars of
        [] \<Rightarrow> Panic
      | c # rest \<Rightarrow>
          if c = 125 then Ok (obj, rest)
          else if c = 44 then object_loop rest obj
          else if c = 34 then
            (case parse_field (c # rest) of
               Ok ((key, val), chars) \<Rightarrow> object_loop chars (obj(key \<mapsto> val))
             | Err e \<Rightarrow> Err e
             | Panic \<Rightarrow> Panic)
          else Panic)"
  by pat_completeness auto
termination
proof (relation "measure (\<lambda>(chars, _). length chars)", goal_cases)
  case (2 chars obj c rest)
  then show ?case using skip_ws_shorter [of chars] by simp
next
  case (3 chars obj c rest x key val chars')
  then show ?case using skip_ws_shorter [of chars] parse_field_shorter [of "c # rest"] by fastforce
qed simp

declare object_loop.simps [simp del]

definition parse_object_from :: "ustr \<Rightarrow> (json_object \<times> ustr, unit) result" where
  "parse_object_from chars =
     (case chars of
        [] \<Rightarrow> Panic
      | c # chars \<Rightarrow> if c = 123 then object_loop chars (\<lambda>_. None) else Panic)"

definition parse_object :: "ustr \<Rightarrow> (json_object, unit) result" where
  "parse_object s = rmap fst (parse_object_from (trim s))"

section \<open>Writing\<close>

definition json_char :: "nat \<Rightarrow> ustr" where
  "json_char c = (if c = 34 then [92, 34] else if c = 92 then [92, 92] else [c])"

definition json_str :: "ustr \<Rightarrow> ustr" where
  "json_str s = [34] @ concat (map json_char s) @ [34]"

fun join :: "ustr \<Rightarrow> ustr list \<Rightarrow> ustr" where
  "join sep [] = []"
| "join sep [x] = x"
| "join sep (x # y # xs) = x @ sep @ join sep (y # xs)"

definition json_field :: "ustr \<times> ustr \<Rightarrow> ustr" where
  "json_field kv = json_str (fst kv) @ lit '': '' @ snd kv"

definition json_object_text :: "(ustr \<times> ustr) list \<Rightarrow> ustr" where
  "json_object_text fields = lit ''    { '' @ join (lit '', '') (map json_field fields) @ lit '' }''"

definition json_push :: "(ustr \<times> ustr) list \<Rightarrow> ustr list \<Rightarrow> ustr list" where
  "json_push fields vectors = vectors @ [json_object_text fields]"

definition json_write :: "ustr list \<Rightarrow> ustr" where
  "json_write vectors = lit ''['' @ [10] @ join (lit '','' @ [10]) vectors @ [10] @ lit '']'' @ [10]"

section \<open>Reading what was written\<close>

lemma string_loop_json: "string_loop (concat (map json_char s) @ 34 # r) out = Ok (out @ s, r)"
  by (induction s arbitrary: out) (simp_all add: json_char_def)

lemma parse_string_json: "parse_string (json_str s @ r) = Ok (s, r)"
  by (simp add: parse_string_def json_str_def string_loop_json)

text \<open>A value as the writer encodes it: a string or a number.\<close>

datatype json_value = JStr ustr | JNum ustr

fun json_value_text :: "json_value \<Rightarrow> ustr" where
  "json_value_text (JStr s) = json_str s"
| "json_value_text (JNum s) = s"

fun json_value_raw :: "json_value \<Rightarrow> ustr" where
  "json_value_raw (JStr s) = s"
| "json_value_raw (JNum s) = s"

fun json_value_ok :: "json_value \<Rightarrow> bool" where
  "json_value_ok (JStr s) = True"
| "json_value_ok (JNum s) = (s \<noteq> [] \<and> (\<forall>c \<in> set s. number_char c))"

lemma json_value_start: "json_value_ok v \<Longrightarrow> \<exists>c r. json_value_text v = c # r \<and> \<not> is_ws c"
  by (cases v) (auto simp: json_str_def is_ws_def number_char_def neq_Nil_conv)

lemma parse_value_json:
  assumes "json_value_ok v" and "\<not> number_char d"
  shows "parse_value (json_value_text v @ d # r) = Ok (json_value_raw v, d # r)"
proof (cases v)
  case (JStr s)
  then show ?thesis
    using parse_string_json [of s "d # r"] by (simp add: parse_value_def json_str_def)
next
  case (JNum s)
  with assms(1) obtain c t where s: "s = c # t" "c \<noteq> 34" "\<forall>c \<in> set s. number_char c"
    by (cases s) (auto simp: number_char_def)
  then have "takeWhile number_char (s @ d # r) = s \<and> dropWhile number_char (s @ d # r) = d # r"
    using assms(2) by (simp add: takeWhile_append2 dropWhile_append2)
  with JNum s(1,2) show ?thesis by (simp add: parse_value_def parse_number_def)
qed

lemma parse_field_json:
  assumes "json_value_ok v" and "\<not> number_char d"
  shows "parse_field (json_field (k, json_value_text v) @ d # r) = Ok ((k, json_value_raw v), d # r)"
proof -
  have "skip_ws (58 # x) = 58 # x" "skip_ws (32 # x) = skip_ws x" for x
    by (simp_all add: skip_ws_def is_ws_def)
  moreover obtain c t where "json_value_text v = c # t" "\<not> is_ws c"
    using json_value_start [OF assms(1)] by blast
  then have "skip_ws (json_value_text v @ d # r) = json_value_text v @ d # r"
    by (simp add: skip_ws_def)
  ultimately show ?thesis
    by (simp add: parse_field_def json_field_def lit_def parse_string_json parse_value_json [OF assms])
qed

lemma object_loop_ws: "skip_ws s = skip_ws t \<Longrightarrow> object_loop s obj = object_loop t obj"
  by (subst (1 2) object_loop.simps) simp

lemma object_loop_step:
  "object_loop (32 # chars) obj = object_loop chars obj"
  "object_loop (44 # chars) obj = object_loop chars obj"
  "object_loop (125 # chars) obj = Ok (obj, chars)"
proof -
  show "object_loop (32 # chars) obj = object_loop chars obj"
    by (rule object_loop_ws) (simp add: skip_ws_def is_ws_def)
  show "object_loop (44 # chars) obj = object_loop chars obj"
    "object_loop (125 # chars) obj = Ok (obj, chars)"
    by (subst object_loop.simps, simp add: skip_ws_def is_ws_def)+
qed

definition written :: "ustr \<times> json_value \<Rightarrow> ustr \<times> ustr" where
  "written kv = (fst kv, json_value_text (snd kv))"

definition raw_field :: "ustr \<times> json_value \<Rightarrow> ustr \<times> ustr" where
  "raw_field kv = (fst kv, json_value_raw (snd kv))"

lemma object_loop_field:
  assumes "json_value_ok (snd kv)" and "\<not> number_char d"
  shows "object_loop (json_field (written kv) @ d # r) obj
    = object_loop (d # r) (obj(fst kv \<mapsto> json_value_raw (snd kv)))"
proof -
  have start: "\<exists>x. json_field (written kv) @ d # r = 34 # x" by (simp add: json_field_def json_str_def)
  then have "skip_ws (json_field (written kv) @ d # r) = json_field (written kv) @ d # r"
    by (auto simp: skip_ws_def is_ws_def)
  with start parse_field_json [OF assms, of "fst kv" r] show ?thesis
    by (subst object_loop.simps) (auto simp: written_def)
qed

lemma object_loop_fields:
  assumes "\<forall>kv \<in> set fields. json_value_ok (snd kv)" and "fields \<noteq> []"
  shows "object_loop (join (lit '', '') (map (json_field \<circ> written) fields) @ 32 # 125 # r) obj
    = Ok (foldl (\<lambda>m kv. m(fst kv \<mapsto> snd kv)) obj (map raw_field fields), r)"
  using assms
proof (induction "lit '', ''" "map (json_field \<circ> written) fields" arbitrary: fields obj rule: join.induct)
  case (2 x)
  then obtain kv where kv: "fields = [kv]" "json_value_ok (snd kv)"
    by (cases fields) auto
  have "\<not> number_char 32" by (simp add: number_char_def)
  from object_loop_field [OF kv(2) this] show ?case
    by (simp add: kv(1) object_loop_step raw_field_def)
next
  case (3 x y xs)
  then obtain kv kv2 kvs where kv: "fields = kv # kv2 # kvs" "json_value_ok (snd kv)"
    "xs = map (json_field \<circ> written) kvs" "y = (json_field \<circ> written) kv2"
    "x = (json_field \<circ> written) kv" by (auto simp: map_eq_Cons_conv Cons_eq_map_conv)
  have d: "\<not> number_char 44" by (simp add: number_char_def)
  let ?rest = "join (lit '', '') (map (json_field \<circ> written) (kv2 # kvs))"
  have "object_loop (json_field (written kv) @ 44 # 32 # ?rest @ 32 # 125 # r) obj
      = object_loop (?rest @ 32 # 125 # r) (obj(fst kv \<mapsto> json_value_raw (snd kv)))"
    unfolding object_loop_field [OF kv(2) d] by (simp only: object_loop_step)
  moreover have "object_loop (?rest @ 32 # 125 # r) (obj(fst kv \<mapsto> json_value_raw (snd kv)))
      = Ok (foldl (\<lambda>m kv. m(fst kv \<mapsto> snd kv)) (obj(fst kv \<mapsto> json_value_raw (snd kv)))
          (map raw_field (kv2 # kvs)), r)"
    by (rule 3(1)) (use 3(3) kv in auto)
  ultimately show ?case by (simp add: kv(1) raw_field_def) (simp add: lit_def)
qed simp

lemma foldl_map_upd:
  "distinct (map fst kvs) \<Longrightarrow> foldl (\<lambda>m kv. m(fst kv \<mapsto> snd kv)) m kvs = m ++ map_of kvs"
proof (induction kvs arbitrary: m)
  case (Cons kv kvs)
  then have "map_of kvs (fst kv) = None" by (simp add: map_of_eq_None_iff)
  then have "m(fst kv \<mapsto> snd kv) ++ map_of kvs = m ++ map_of (kv # kvs)"
    by (auto simp: map_add_def fun_eq_iff split: option.splits)
  moreover have "foldl (\<lambda>m kv. m(fst kv \<mapsto> snd kv)) (m(fst kv \<mapsto> snd kv)) kvs
      = m(fst kv \<mapsto> snd kv) ++ map_of kvs"
    by (rule Cons.IH) (use Cons.prems in simp)
  ultimately show ?case by (simp only: foldl_Cons)
qed simp

lemma trim_object: "trim (lit ''    { '' @ s @ lit '' }'') = 123 # 32 # s @ [32, 125]"
  by (simp add: trim_def trim_start_def lit_def is_ws_def)

text \<open>Reading an object that the writer produced gives its fields.\<close>

lemma parse_object_written:
  assumes "\<forall>kv \<in> set fields. json_value_ok (snd kv)" and "fields \<noteq> []"
    and "distinct (map fst fields)"
  shows "parse_object (json_object_text (map written fields)) = Ok (map_of (map raw_field fields))"
proof -
  have d: "distinct (map fst (map raw_field fields))"
    using assms(3) by (simp add: raw_field_def comp_def)
  from object_loop_fields [OF assms(1,2), of "[]" "\<lambda>_. None"] foldl_map_upd [OF d, of "\<lambda>_. None"]
  show ?thesis
    by (simp add: parse_object_def json_object_text_def trim_object parse_object_from_def
        object_loop_step map_add_def fun_eq_iff split: option.split)
qed

section \<open>Properties\<close>

text \<open>C39: The parser of the implementation under test reads back what the vector generator writes: an object
  of distinct keys whose values are strings (quotes and backslashes escaped) or decimal numbers
  comes back as the map of its fields, for any such strings.\<close>

theorem json_object_roundtrip:
  assumes "\<forall>kv \<in> set fields. json_value_ok (snd kv)" and "fields \<noteq> []"
    and "distinct (map fst fields)"
  shows "parse_object (json_object_text (map written fields)) = Ok (map_of (map raw_field fields))"
  using assms by (rule parse_object_written)

theorem json_object_roundtrip_witness:
  "parse_object (json_object_text [(lit ''a'', json_str (lit ''x\"y'')), (lit ''n'', lit ''-12'')])
   = Ok [lit ''a'' \<mapsto> lit ''x\"y'', lit ''n'' \<mapsto> lit ''-12'']"
proof -
  let ?fields = "[(lit ''a'', JStr (lit ''x\"y'')), (lit ''n'', JNum (lit ''-12''))]"
  have "lit ''n'' \<noteq> lit ''a''" by (simp add: lit_def)
  with json_object_roundtrip [of ?fields] show ?thesis
    by (simp add: written_def raw_field_def lit_def number_char_def fun_upd_twist)
qed

end
