(* ===== verification/Catp_Conformance.thy ===== *)
theory Catp_Conformance
  imports Catp_Json Catp_Decode Catp_Time Catp_Clock
begin

text \<open>
  The implementation under test of the conformance runner, \<open>tools/src/bin/conformance_iut.rs\<close>: one
  JSON object per line in, one verdict per line out. The text of a failure's reason is not modelled
  (\<open>FAIL\<close> carries none); a missing field, malformed hex or malformed JSON panics as in the source.
\<close>

section \<open>Fields\<close>

datatype verdict = PASS | FAIL

fun unhex :: "ustr \<Rightarrow> (bytes, unit) result" where
  "unhex [] = Ok []"
| "unhex [a] = Panic"
| "unhex (a # b # rest) =
     (case from_str_radix 16 8 [a, b] of
        None \<Rightarrow> Panic
      | Some v \<Rightarrow> rmap (\<lambda>bs. of_nat v # bs) (unhex rest))"

text \<open>\<open>m[key]\<close>, which panics when the key is missing.\<close>

definition field :: "json_object \<Rightarrow> string \<Rightarrow> (ustr, unit) result" where
  "field m key = (case m (lit key) of None \<Rightarrow> Panic | Some v \<Rightarrow> Ok v)"

definition hex_field :: "json_object \<Rightarrow> string \<Rightarrow> (bytes, unit) result" where
  "hex_field m key = rbind (field m key) unhex"

definition u32_hex_field :: "json_object \<Rightarrow> string \<Rightarrow> (u32, unit) result" where
  "u32_hex_field m key =
     rbind (field m key) (\<lambda>s. rmap of_nat (ok_or (from_str_radix 16 32 s) ()))"

definition u32_field :: "json_object \<Rightarrow> string \<Rightarrow> (u32, unit) result" where
  "u32_field m key =
     rbind (field m key) (\<lambda>s. rmap of_nat (ok_or (from_str_radix 10 32 s) ()))"

definition i64_field :: "json_object \<Rightarrow> string \<Rightarrow> (i64, unit) result" where
  "i64_field m key =
     rbind (field m key) (\<lambda>s. rmap of_int (ok_or (parse_signed 64 s) ()))"

definition secret_field :: "json_object \<Rightarrow> (device_secret, unit) result" where
  "secret_field m =
     rbind (hex_field m ''device_secret'') (\<lambda>s. if length s \<noteq> 32 then Err () else Ok s)"

definition direction_field :: "json_object \<Rightarrow> (direction, unit) result" where
  "direction_field m =
     rbind (hex_field m ''direction'') (\<lambda>bs. case bs of
       [] \<Rightarrow> Err ()
     | b # _ \<Rightarrow> Ok (if b = 0 then NodeToCollector else CollectorToNode))"

definition cipher_field :: "json_object \<Rightarrow> string \<Rightarrow> (cipher_id, unit) result" where
  "cipher_field m key =
     rbind (hex_field m key) (\<lambda>bs. case bs of
       [] \<Rightarrow> Err ()
     | b # _ \<Rightarrow> ok_or (cipher_from_u8 b) ())"

text \<open>\<open>map_err\<close> to a reason.\<close>

primrec reason :: "('a, 'e) result \<Rightarrow> ('a, unit) result" where
  "reason (Ok x) = Ok x"
| "reason (Err e) = Err ()"
| "reason Panic = Panic"

definition permissive_layouts :: "(u8 \<times> u8) list" where
  "permissive_layouts = List.product [1, 2, 3, 4, 5, 6] (map of_nat [0..<256])"

definition test_peer :: "u32 \<Rightarrow> device_secret \<Rightarrow> cipher_id \<Rightarrow> peer_config" where
  "test_peer sender_id secret cipher =
     \<lparr>p_sender_id = sender_id, p_secret = secret, p_cipher = cipher,
      p_layouts = permissive_layouts, p_inbound_rate_limit = None\<rparr>"

section \<open>Checks\<close>

definition check_accept :: "crypto \<Rightarrow> json_object \<Rightarrow> (unit, unit) result" where
  "check_accept C m =
     rbind (secret_field m) (\<lambda>secret.
     rbind (u32_hex_field m ''sender_id'') (\<lambda>sender_id.
     rbind (u32_field m ''epoch_id'') (\<lambda>epoch.
     rbind (direction_field m) (\<lambda>dir.
     rbind (cipher_field m ''cipher_id'') (\<lambda>cipher.
     rbind (hex_field m ''wire'') (\<lambda>wire.
     rbind (reason (fst (decode C wire (test_peer sender_id secret cipher) epoch dir one_second))) (\<lambda>acc.
     rbind (if m (lit ''encode_epoch'') = None then Ok epoch else u32_field m ''encode_epoch'') (\<lambda>enc_epoch.
     if a_epoch_id acc \<noteq> enc_epoch then Err ()
     else rbind (reason (encode C (a_datagram acc) secret (a_epoch_id acc) dir 65535)) (\<lambda>again.
       if again \<noteq> wire then Err () else Ok ())))))))))"

definition check_accept_time_request :: "crypto \<Rightarrow> json_object \<Rightarrow> (unit, unit) result" where
  "check_accept_time_request C m =
     rbind (secret_field m) (\<lambda>secret.
     rbind (u32_hex_field m ''sender_id'') (\<lambda>sender_id.
     rbind (hex_field m ''wire'') (\<lambda>wire.
     rbind (reason (decode_time_request C wire sender_id secret)) (\<lambda>_.
     rbind (reason (time_request C sender_id secret)) (\<lambda>again.
     if again \<noteq> wire then Err () else Ok ())))))"

definition check_accept_time_announce :: "crypto \<Rightarrow> json_object \<Rightarrow> (unit, unit) result" where
  "check_accept_time_announce C m =
     rbind (secret_field m) (\<lambda>secret.
     rbind (u32_hex_field m ''sender_id'') (\<lambda>sender_id.
     rbind (hex_field m ''wire'') (\<lambda>wire.
     rbind (i64_field m ''asserted_time'') (\<lambda>asserted_time.
     rbind (reason (decode_time_announce C wire sender_id secret)) (\<lambda>got.
     if got \<noteq> asserted_time then Err ()
     else rbind (reason (time_announce C sender_id got secret)) (\<lambda>again.
       if again \<noteq> wire then Err () else Ok ()))))))"

definition check_number_payload :: "json_object \<Rightarrow> (unit, unit) result" where
  "check_number_payload m =
     rbind (hex_field m ''payload'') (\<lambda>payload.
     rbind (field m ''outcome'') (\<lambda>outcome.
     if is_ok (validate_number payload) \<noteq> (outcome = lit ''accept'') then Err () else Ok ()))"

definition check_series_payload :: "json_object \<Rightarrow> (unit, unit) result" where
  "check_series_payload m =
     rbind (hex_field m ''payload'') (\<lambda>payload.
     rbind (u32_field m ''anchor_offset'') (\<lambda>anchor.
     rbind (field m ''outcome'') (\<lambda>outcome.
     if is_ok (validate_series payload anchor) \<noteq> (outcome = lit ''accept'') then Err () else Ok ())))"

fun seed_window :: "ustr list \<Rightarrow> replay_window \<Rightarrow> (replay_window, unit) result" where
  "seed_window [] w = Ok w"
| "seed_window (o1 # os) w =
     rbind (ok_or (from_str_radix 10 32 o1) ()) (\<lambda>off.
       case check_and_set w (of_nat off) of
         (Ok _, w) \<Rightarrow> seed_window os w
       | (Err _, _) \<Rightarrow> Err ()
       | (Panic, _) \<Rightarrow> Panic)"

definition check_reject_datagram :: "crypto \<Rightarrow> json_object \<Rightarrow> (unit, unit) result" where
  "check_reject_datagram C m =
     rbind (secret_field m) (\<lambda>secret.
     rbind (u32_hex_field m ''receiver_sender'') (\<lambda>receiver_sender.
     rbind (u32_field m ''receiver_epoch'') (\<lambda>receiver_epoch.
     rbind (cipher_field m ''configured_cipher'') (\<lambda>cipher.
     rbind (direction_field m) (\<lambda>dir.
     rbind (hex_field m ''wire'') (\<lambda>wire.
     rbind (case m (lit ''seen_offsets'') of
              None \<Rightarrow> Ok one_second
            | Some offs \<Rightarrow> seed_window (split_char 44 offs) one_second) (\<lambda>window.
     case fst (decode C wire (test_peer receiver_sender secret cipher) receiver_epoch dir window) of
       Ok _ \<Rightarrow> Err ()
     | Err _ \<Rightarrow> Ok ()
     | Panic \<Rightarrow> Panic)))))))"

definition check_reject_time_announce :: "crypto \<Rightarrow> json_object \<Rightarrow> (unit, unit) result" where
  "check_reject_time_announce C m =
     rbind (secret_field m) (\<lambda>secret.
     rbind (u32_hex_field m ''sender_id'') (\<lambda>sender_id.
     rbind (hex_field m ''wire'') (\<lambda>wire.
     rbind (i64_field m ''asserted_time'') (\<lambda>asserted_time.
     rbind (u32_field m ''last_epoch'') (\<lambda>last_epoch.
     rbind (reason (decode_time_announce C wire sender_id secret)) (\<lambda>_.
     rbind (field m ''clock_state'') (\<lambda>state.
     rbind (if state = lit ''cold'' then Ok (clockless last_epoch)
            else if state = lit ''valid'' then Ok (synced last_epoch) else Err ()) (\<lambda>clock.
     case fst (accept_time_announce asserted_time (asserted_time - 5) clock) of
       Ok _ \<Rightarrow> Err ()
     | Err _ \<Rightarrow> Ok ()
     | Panic \<Rightarrow> Panic))))))))"

section \<open>Verdicts\<close>

definition verdict_of :: "crypto \<Rightarrow> json_object \<Rightarrow> (verdict, unit) result" where
  "verdict_of C m =
     (case (case m (lit ''kind'') of
        None \<Rightarrow> Err ()
      | Some kind \<Rightarrow>
          if kind = lit ''accept'' then check_accept C m
          else if kind = lit ''accept_time_request'' then check_accept_time_request C m
          else if kind = lit ''accept_time_announce'' then check_accept_time_announce C m
          else if kind = lit ''number_payload'' then check_number_payload m
          else if kind = lit ''reject_datagram'' then check_reject_datagram C m
          else if kind = lit ''series_payload'' then check_series_payload m
          else if kind = lit ''reject_time_announce'' then check_reject_time_announce C m
          else Err ()) of
        Ok _ \<Rightarrow> Ok PASS
      | Err _ \<Rightarrow> Ok FAIL
      | Panic \<Rightarrow> Panic)"

definition verdict_line :: "crypto \<Rightarrow> ustr \<Rightarrow> (verdict, unit) result" where
  "verdict_line C line = rbind (parse_object line) (verdict_of C)"

text \<open>The main loop over the lines of standard input: the verdicts printed and whether all passed.\<close>

fun conformance_main :: "crypto \<Rightarrow> ustr list \<Rightarrow> (verdict list \<times> bool, unit) result" where
  "conformance_main C [] = Ok ([], True)"
| "conformance_main C (line # ls) =
     (if trim line = [] then conformance_main C ls
      else rbind (verdict_line C line) (\<lambda>v.
        rmap (\<lambda>(vs, all_passed). (v # vs, v = PASS \<and> all_passed)) (conformance_main C ls)))"

end
