(* ===== verification/Catp_Vectors.thy ===== *)
theory Catp_Vectors
  imports Catp_Conformance
begin

text \<open>
  The generator of the frozen test vectors, \<open>tools/src/bin/vectors.rs\<close>: each emitter appends a block
  to the text file on standard output and an object to the JSON mirror. Its vectors, read back by
  the implementation under test (\<open>Catp_Conformance\<close>), pass.
\<close>

section \<open>Emitters\<close>

record vectors_out =
  vo_text :: ustr
  vo_json :: "ustr list"

definition hex :: "bytes \<Rightarrow> ustr" where
  "hex b = concat (map hex2 b)"

definition println :: "ustr \<Rightarrow> ustr" where
  "println s = s @ [10]"

definition emit :: "ustr \<Rightarrow> (ustr \<times> ustr) list \<Rightarrow> vectors_out \<Rightarrow> vectors_out" where
  "emit block kvs out =
     out\<lparr>vo_text := vo_text out @ block, vo_json := json_push kvs (vo_json out)\<rparr>"

definition dec_u32 :: "u32 \<Rightarrow> ustr" where
  "dec_u32 n = dec (unat n)"

definition dec_i64 :: "i64 \<Rightarrow> ustr" where
  "dec_i64 n = dec_int (sint n)"

definition accept_cross ::
  "crypto \<Rightarrow> ustr \<Rightarrow> device_secret \<Rightarrow> u32 \<Rightarrow> u32 \<Rightarrow> direction \<Rightarrow> datagram \<Rightarrow> vectors_out
   \<Rightarrow> (vectors_out, unit) result" where
  "accept_cross C name secret enc_epoch rx_epoch dir dg out =
     (case encode C dg secret enc_epoch dir 65535 of
        Ok wire \<Rightarrow>
          (let key = epoch_key C secret (d_sender_id dg) enc_epoch dir;
               auth = auth_header dg enc_epoch in
           Ok (emit
             (println (lit ''# '' @ name)
              @ println (lit ''kind         accept'')
              @ println (lit ''device_secret '' @ hex secret)
              @ println (lit ''sender_id    '' @ hex8 (d_sender_id dg))
              @ println (lit ''epoch_id     '' @ dec_u32 rx_epoch)
              @ (if enc_epoch \<noteq> rx_epoch then println (lit ''encode_epoch '' @ dec_u32 enc_epoch) else [])
              @ println (lit ''direction    '' @ hex2 (direction_u8 dir))
              @ println (lit ''cipher_id    '' @ hex2 (d_cipher_id dg))
              @ println (lit ''msg_type     '' @ hex2 (d_msg_type dg))
              @ println (lit ''offset       '' @ dec_u32 (d_offset dg))
              @ println (lit ''epoch_key    '' @ hex key)
              @ println (lit ''auth_header  '' @ hex auth)
              @ println (lit ''wire         '' @ hex wire)
              @ println (lit ''wire_len     '' @ dec (length wire))
              @ println [])
             ([(lit ''name'', json_str name),
               (lit ''kind'', json_str (lit ''accept'')),
               (lit ''device_secret'', json_str (hex secret)),
               (lit ''sender_id'', json_str (hex8 (d_sender_id dg))),
               (lit ''epoch_id'', dec_u32 rx_epoch)]
              @ (if enc_epoch \<noteq> rx_epoch then [(lit ''encode_epoch'', dec_u32 enc_epoch)] else [])
              @ [(lit ''direction'', json_str (hex2 (direction_u8 dir))),
                 (lit ''cipher_id'', json_str (hex2 (d_cipher_id dg))),
                 (lit ''msg_type'', json_str (hex2 (d_msg_type dg))),
                 (lit ''offset'', dec_u32 (d_offset dg)),
                 (lit ''epoch_key'', json_str (hex key)),
                 (lit ''auth_header'', json_str (hex auth)),
                 (lit ''wire'', json_str (hex wire)),
                 (lit ''wire_len'', dec (length wire))])
             out))
      | _ \<Rightarrow> Panic)"

definition accept_vector ::
  "crypto \<Rightarrow> ustr \<Rightarrow> device_secret \<Rightarrow> u32 \<Rightarrow> direction \<Rightarrow> datagram \<Rightarrow> vectors_out
   \<Rightarrow> (vectors_out, unit) result" where
  "accept_vector C name secret epoch dir dg = accept_cross C name secret epoch epoch dir dg"

record receiver =
  rc_sender_id :: u32
  rc_epoch :: u32
  rc_cipher :: cipher_id
  rc_seen_offsets :: "u32 list"

definition receiver_for_wire :: "datagram \<Rightarrow> u32 \<Rightarrow> (receiver, unit) result" where
  "receiver_for_wire d epoch =
     (case cipher_from_u8 (d_cipher_id d) of
        None \<Rightarrow> Panic
      | Some cipher \<Rightarrow>
          Ok \<lparr>rc_sender_id = d_sender_id d, rc_epoch = epoch, rc_cipher = cipher, rc_seen_offsets = []\<rparr>)"

definition sender_id_of :: "bytes \<Rightarrow> (u32, unit) result" where
  "sender_id_of wire =
     rbind (idx wire 5) (\<lambda>b5. rbind (idx wire 6) (\<lambda>b6. rbind (idx wire 7) (\<lambda>b7.
     rbind (idx wire 8) (\<lambda>b8. Ok (from_be [b5, b6, b7, b8])))))"

definition reject_datagram ::
  "ustr \<Rightarrow> device_secret \<Rightarrow> bytes \<Rightarrow> ustr \<Rightarrow> receiver \<Rightarrow> vectors_out \<Rightarrow> (vectors_out, unit) result" where
  "reject_datagram name secret wire fault rc out =
     rbind (sender_id_of wire) (\<lambda>sender_id.
       let seen_text = join (lit '','') (map dec_u32 (rc_seen_offsets rc)) in
       Ok (emit
         (println (lit ''# '' @ name)
          @ println (lit ''kind             reject_datagram'')
          @ println (lit ''fault            '' @ fault)
          @ println (lit ''device_secret    '' @ hex secret)
          @ println (lit ''sender_id        '' @ hex8 sender_id)
          @ println (lit ''receiver_sender  '' @ hex8 (rc_sender_id rc))
          @ println (lit ''receiver_epoch   '' @ dec_u32 (rc_epoch rc))
          @ println (lit ''configured_cipher '' @ hex2 (cipher_u8 (rc_cipher rc)))
          @ println (lit ''direction        00'')
          @ (if rc_seen_offsets rc \<noteq> [] then println (lit ''seen_offsets     '' @ seen_text) else [])
          @ println (lit ''wire             '' @ hex wire)
          @ println (lit ''wire_len         '' @ dec (length wire))
          @ println [])
         ([(lit ''name'', json_str name),
           (lit ''kind'', json_str (lit ''reject_datagram'')),
           (lit ''fault'', json_str fault),
           (lit ''device_secret'', json_str (hex secret)),
           (lit ''sender_id'', json_str (hex8 sender_id)),
           (lit ''receiver_sender'', json_str (hex8 (rc_sender_id rc))),
           (lit ''receiver_epoch'', dec_u32 (rc_epoch rc)),
           (lit ''configured_cipher'', json_str (hex2 (cipher_u8 (rc_cipher rc)))),
           (lit ''direction'', json_str (lit ''00'')),
           (lit ''wire'', json_str (hex wire)),
           (lit ''wire_len'', dec (length wire))]
          @ (if rc_seen_offsets rc \<noteq> [] then [(lit ''seen_offsets'', json_str seen_text)] else []))
         out))"

definition authentic_with_payload ::
  "crypto \<Rightarrow> device_secret \<Rightarrow> datagram \<Rightarrow> u32 \<Rightarrow> direction \<Rightarrow> bytes \<Rightarrow> (bytes, unit) result" where
  "authentic_with_payload C secret d epoch dir payload =
     (case cipher_from_u8 (d_cipher_id d) of
        None \<Rightarrow> Panic
      | Some cipher \<Rightarrow>
          (let key = epoch_key C secret (d_sender_id d) epoch dir;
               ah = auth_header d epoch in
           case mac C cipher key (ah @ payload) (d_offset d) of
             Ok tag \<Rightarrow>
               Ok ([ah ! 0, ah ! 1 OR d_epoch_low d, ah ! 2, ah ! 3, ah ! 4]
                   @ take 4 (drop 9 ah) @ payload @ tag)
           | _ \<Rightarrow> Panic))"

definition with_byte :: "bytes \<Rightarrow> nat \<Rightarrow> u8 \<Rightarrow> (bytes, unit) result" where
  "with_byte wire i val = (if i < length wire then Ok (wire[i := val]) else Panic)"

definition series_payload :: "bytes \<Rightarrow> u32 \<Rightarrow> string \<Rightarrow> vectors_out \<Rightarrow> vectors_out" where
  "series_payload payload anchor outcome =
     emit
       (println ((if lit outcome = lit ''accept'' then lit ''accept_series'' else lit ''reject_series'')
          @ [32] @ hex payload)
        @ println (lit ''anchor_offset '' @ dec_u32 anchor)
        @ println [])
       [(lit ''kind'', json_str (lit ''series_payload'')),
        (lit ''payload'', json_str (hex payload)),
        (lit ''anchor_offset'', dec_u32 anchor),
        (lit ''outcome'', json_str (lit outcome))]"

definition reject_time_announce ::
  "crypto \<Rightarrow> ustr \<Rightarrow> device_secret \<Rightarrow> u32 \<Rightarrow> i64 \<Rightarrow> string \<Rightarrow> u32 \<Rightarrow> vectors_out
   \<Rightarrow> (vectors_out, unit) result" where
  "reject_time_announce C name secret sender_id asserted_time clock_state last_epoch out =
     (case time_announce C sender_id asserted_time secret of
        Ok wire \<Rightarrow>
          Ok (emit
            (println (lit ''# '' @ name)
             @ println (lit ''kind             reject_time_announce'')
             @ println (lit ''device_secret    '' @ hex secret)
             @ println (lit ''sender_id        '' @ hex8 sender_id)
             @ println (lit ''direction        01'')
             @ println (lit ''asserted_time    '' @ dec_i64 asserted_time)
             @ println (lit ''clock_state      '' @ lit clock_state)
             @ println (lit ''last_epoch       '' @ dec_u32 last_epoch)
             @ println (lit ''wire             '' @ hex wire)
             @ println (lit ''wire_len         '' @ dec (length wire))
             @ println [])
            [(lit ''name'', json_str name),
             (lit ''kind'', json_str (lit ''reject_time_announce'')),
             (lit ''device_secret'', json_str (hex secret)),
             (lit ''sender_id'', json_str (hex8 sender_id)),
             (lit ''direction'', json_str (lit ''01'')),
             (lit ''asserted_time'', dec_i64 asserted_time),
             (lit ''clock_state'', json_str (lit clock_state)),
             (lit ''last_epoch'', dec_u32 last_epoch),
             (lit ''wire'', json_str (hex wire)),
             (lit ''wire_len'', dec (length wire))]
            out)
      | _ \<Rightarrow> Panic)"

text \<open>The blocks of \<open>main\<close> for time recovery and for \<open>NUMBER\<close> payloads.\<close>

definition time_request_vector ::
  "crypto \<Rightarrow> device_secret \<Rightarrow> u32 \<Rightarrow> vectors_out \<Rightarrow> (vectors_out, unit) result" where
  "time_request_vector C s sender_id out =
     (case time_request C sender_id s of
        Ok req \<Rightarrow>
          (let req_time_key = time_key C s sender_id NodeToCollector;
               title = lit ''TIME_REQUEST, cipher 0x01 mandatory, node-to-collector time_key'' in
           Ok (emit
             (println (lit ''# '' @ title)
              @ println (lit ''kind         accept_time_request'')
              @ println (lit ''device_secret '' @ hex s)
              @ println (lit ''sender_id    '' @ hex8 sender_id)
              @ println (lit ''direction    00'')
              @ println (lit ''time_key     '' @ hex req_time_key)
              @ println (lit ''wire         '' @ hex req)
              @ println (lit ''wire_len     '' @ dec (length req))
              @ println [])
             [(lit ''name'', json_str title),
              (lit ''kind'', json_str (lit ''accept_time_request'')),
              (lit ''device_secret'', json_str (hex s)),
              (lit ''sender_id'', json_str (hex8 sender_id)),
              (lit ''direction'', json_str (lit ''00'')),
              (lit ''time_key'', json_str (hex req_time_key)),
              (lit ''wire'', json_str (hex req)),
              (lit ''wire_len'', dec (length req))]
             out))
      | _ \<Rightarrow> Panic)"

definition time_announce_vector ::
  "crypto \<Rightarrow> device_secret \<Rightarrow> u32 \<Rightarrow> i64 \<Rightarrow> vectors_out \<Rightarrow> (vectors_out, unit) result" where
  "time_announce_vector C s sender_id asserted out =
     (case time_announce C sender_id asserted s of
        Ok wire \<Rightarrow>
          (let announce_time_key = time_key C s sender_id CollectorToNode;
               title = lit ''TIME_ANNOUNCE, cipher 0x01 mandatory, collector-to-node time_key'' in
           Ok (emit
             (println (lit ''# '' @ title)
              @ println (lit ''kind         accept_time_announce'')
              @ println (lit ''device_secret '' @ hex s)
              @ println (lit ''sender_id    '' @ hex8 sender_id)
              @ println (lit ''direction    01'')
              @ println (lit ''time_key     '' @ hex announce_time_key)
              @ println (lit ''asserted_time '' @ dec_i64 asserted)
              @ println (lit ''wire         '' @ hex wire)
              @ println (lit ''wire_len     '' @ dec (length wire))
              @ println [])
             [(lit ''name'', json_str title),
              (lit ''kind'', json_str (lit ''accept_time_announce'')),
              (lit ''device_secret'', json_str (hex s)),
              (lit ''sender_id'', json_str (hex8 sender_id)),
              (lit ''direction'', json_str (lit ''01'')),
              (lit ''time_key'', json_str (hex announce_time_key)),
              (lit ''asserted_time'', dec_i64 asserted),
              (lit ''wire'', json_str (hex wire)),
              (lit ''wire_len'', dec (length wire))]
             out))
      | _ \<Rightarrow> Panic)"

definition number_payload_vector :: "bytes \<times> string \<Rightarrow> vectors_out \<Rightarrow> vectors_out" where
  "number_payload_vector p out =
     out\<lparr>vo_json := json_push
       [(lit ''kind'', json_str (lit ''number_payload'')),
        (lit ''payload'', json_str (hex (fst p))),
        (lit ''outcome'', json_str (lit (snd p)))] (vo_json out)\<rparr>"

section \<open>Reading vectors back\<close>

lemma lit_eq_iff [simp]: "lit s = lit t \<longleftrightarrow> s = t"
proof -
  have "inj (of_char :: char \<Rightarrow> nat)" by (rule injI) simp
  then have "map (of_char :: char \<Rightarrow> nat) s = map of_char t \<longleftrightarrow> s = t" by (simp add: inj_map_eq_map)
  then show ?thesis by (simp add: lit_def)
qed

lemma unhex_hex2: "unhex (hex2 b @ r) = rmap (\<lambda>bs. b # bs) (unhex r)"
  using from_str_radix_hex2 [of b] by (simp add: hex2_def)

lemma unhex_hex [simp]: "unhex (hex bs) = Ok bs"
  by (induction bs) (simp_all add: hex_def unhex_hex2)

lemma unhex_byte [simp]: "unhex (hex2 b) = Ok [b]"
  using unhex_hex2 [of b "[]"] by simp

lemma dec_u32_reads [simp]: "from_str_radix 10 32 (dec_u32 n) = Some (unat n)"
  using unat_u32_less [of n] by (simp add: dec_u32_def parse_dec)

lemma dec_i64_reads [simp]: "parse_signed 64 (dec_i64 n) = Some (sint n)"
  unfolding dec_i64_def
  using sint_greater_eq [of n] sint_less [of n] by (intro parse_dec_int) simp_all

lemma dec_ok: "json_value_ok (JNum (dec n))" "json_value_ok (JNum (dec_u32 w))"
  "json_value_ok (JNum (dec_i64 i))"
  using dec_digits by (fastforce simp: dec_u32_def dec_i64_def dec_int_def number_char_def)+

lemma verdict_written:
  assumes "kvs = map written jkvs" and "\<forall>kv \<in> set jkvs. json_value_ok (snd kv)" and "jkvs \<noteq> []"
    and "distinct (map fst jkvs)"
  shows "verdict_line C (json_object_text kvs) = verdict_of C (map_of (map raw_field jkvs))"
  by (simp add: verdict_line_def assms(1) parse_object_written [OF assms(2-4)])

text \<open>Fields of a parsed object.\<close>

lemma field_simps:
  "m (lit key) = Some v \<Longrightarrow> field m key = Ok v"
  "m (lit key) = Some (hex bs) \<Longrightarrow> hex_field m key = Ok bs"
  "m (lit key) = Some (hex2 b) \<Longrightarrow> hex_field m key = Ok [b]"
  "m (lit key) = Some (hex8 w) \<Longrightarrow> u32_hex_field m key = Ok w"
  "m (lit key) = Some (dec_u32 w) \<Longrightarrow> u32_field m key = Ok w"
  "m (lit key) = Some (dec_i64 i) \<Longrightarrow> i64_field m key = Ok i"
  by (simp_all add: field_def hex_field_def u32_hex_field_def u32_field_def i64_field_def
      from_str_radix_hex8)

lemma permissive_layouts_set: "set permissive_layouts = {1, 2, 3, 4, 5, 6} \<times> UNIV"
proof -
  have "v \<in> set (map of_nat [0..<256])" for v :: u8
    using unat_u8_less [of v] by (simp only: set_map set_upt) (intro image_eqI [of _ _ "unat v"], simp_all)
  then have all: "set (map of_nat [0..<256]) = (UNIV :: u8 set)" by blast
  show ?thesis unfolding permissive_layouts_def set_product all by simp
qed

lemma knows_permissive: "knows_layout (test_peer s k c) r \<longleftrightarrow> r_format r \<in> {1, 2, 3, 4, 5, 6}"
  by (simp add: knows_layout_def test_peer_def permissive_layouts_set)

text \<open>The check of an accept vector: what it reads and what makes it pass.\<close>

lemma check_accept_passes:
  assumes "ct_eq_decides C" and "length secret = 32" and "datagram_wf mt d"
    and "\<forall>r \<in> set (d_records d). r_format r \<in> {1, 2, 3, 4, 5, 6}"
    and "encode C d secret enc dir 65535 = Ok wire"
    and "in_epoch_window rx enc" and "d_epoch_low d = ucast (enc AND 0x0F)"
    and "m (lit ''device_secret'') = Some (hex secret)"
    and "m (lit ''sender_id'') = Some (hex8 (d_sender_id d))"
    and "m (lit ''epoch_id'') = Some (dec_u32 rx)"
    and "m (lit ''direction'') = Some (hex2 (direction_u8 dir))"
    and "m (lit ''cipher_id'') = Some (hex2 (d_cipher_id d))"
    and "m (lit ''wire'') = Some (hex wire)"
    and "m (lit ''encode_epoch'') = (if enc = rx then None else Some (dec_u32 enc))"
  shows "check_accept C m = Ok ()"
proof -
  obtain c where "cipher_from_u8 (d_cipher_id d) = Some c" using assms(5) by (auto simp: encode_Ok)
  note c = this cipher_from_u8_Some [OF this]
  let ?peer = "test_peer (d_sender_id d) secret c"
  obtain w where w: "check_and_set one_second (d_offset d) = (Ok (), w)" using fresh_window_admits by blast
  have "decode C wire ?peer rx dir one_second = (Ok (accepted_of ?peer enc d), w)"
    by (rule decode_encoded [OF assms(1,3) _ _ _ assms(6,7) w])
      (use assms(5) c(2) in \<open>simp_all add: test_peer_def\<close>)
  moreover have "a_datagram (accepted_of ?peer enc d) = d" "a_epoch_id (accepted_of ?peer enc d) = enc"
    using assms(4) by (simp_all add: accepted_of_def knows_permissive)
  ultimately show ?thesis
    using assms(2,5,8-14) c
    by (cases dir) (simp_all add: check_accept_def secret_field_def direction_field_def cipher_field_def
        field_simps)
qed

section \<open>Accept vectors\<close>

definition accept_fields ::
  "crypto \<Rightarrow> ustr \<Rightarrow> device_secret \<Rightarrow> u32 \<Rightarrow> u32 \<Rightarrow> direction \<Rightarrow> datagram \<Rightarrow> bytes
   \<Rightarrow> (ustr \<times> json_value) list" where
  "accept_fields C name secret enc rx dir dg wire =
     [(lit ''name'', JStr name), (lit ''kind'', JStr (lit ''accept'')),
      (lit ''device_secret'', JStr (hex secret)), (lit ''sender_id'', JStr (hex8 (d_sender_id dg))),
      (lit ''epoch_id'', JNum (dec_u32 rx))]
     @ (if enc \<noteq> rx then [(lit ''encode_epoch'', JNum (dec_u32 enc))] else [])
     @ [(lit ''direction'', JStr (hex2 (direction_u8 dir))), (lit ''cipher_id'', JStr (hex2 (d_cipher_id dg))),
        (lit ''msg_type'', JStr (hex2 (d_msg_type dg))), (lit ''offset'', JNum (dec_u32 (d_offset dg))),
        (lit ''epoch_key'', JStr (hex (epoch_key C secret (d_sender_id dg) enc dir))),
        (lit ''auth_header'', JStr (hex (auth_header dg enc))), (lit ''wire'', JStr (hex wire)),
        (lit ''wire_len'', JNum (dec (length wire)))]"

lemma accept_cross_json:
  assumes "accept_cross C name secret enc rx dir dg out = Ok out'"
  obtains wire where "encode C dg secret enc dir 65535 = Ok wire"
    and "vo_json out' = vo_json out @ [json_object_text (map written (accept_fields C name secret enc rx dir dg wire))]"
proof (cases "encode C dg secret enc dir 65535")
  case (Ok wire)
  with assms show thesis
    by (intro that [OF Ok])
      (auto simp: accept_cross_def Let_def emit_def json_push_def accept_fields_def written_def)
qed (use assms in \<open>simp_all add: accept_cross_def\<close>)

lemma accept_fields_ok:
  "\<forall>kv \<in> set (accept_fields C name secret enc rx dir dg wire). json_value_ok (snd kv)"
  "accept_fields C name secret enc rx dir dg wire \<noteq> []"
  "distinct (map fst (accept_fields C name secret enc rx dir dg wire))"
  by (simp_all add: accept_fields_def dec_ok del: json_value_ok.simps(2))

lemma accept_cross_verdict:
  assumes "ct_eq_decides C" and "length secret = 32" and "datagram_wf mt d"
    and "\<forall>r \<in> set (d_records d). r_format r \<in> {1, 2, 3, 4, 5, 6}"
    and "in_epoch_window rx enc" and "d_epoch_low d = ucast (enc AND 0x0F)"
    and "accept_cross C name secret enc rx dir d out = Ok out'"
  shows "\<exists>v. vo_json out' = vo_json out @ [v] \<and> verdict_line C v = Ok PASS"
proof -
  obtain wire where wire: "encode C d secret enc dir 65535 = Ok wire"
    "vo_json out' = vo_json out @ [json_object_text (map written (accept_fields C name secret enc rx dir d wire))]"
    by (rule accept_cross_json [OF assms(7)])
  let ?m = "map_of (map raw_field (accept_fields C name secret enc rx dir d wire))"
  have "check_accept C ?m = Ok ()"
    by (rule check_accept_passes [OF assms(1-4) wire(1) assms(5,6)])
      (simp_all add: accept_fields_def raw_field_def)
  moreover have "?m (lit ''kind'') = Some (lit ''accept'')"
    by (simp add: accept_fields_def raw_field_def)
  ultimately have "verdict_of C ?m = Ok PASS" by (simp add: verdict_of_def)
  then show ?thesis
    using verdict_written [OF refl accept_fields_ok] wire(2) by auto
qed

section \<open>Payload and time vectors\<close>

text \<open>The verdicts, as a reader of the vector reaches them.\<close>

definition verdict_if :: "bool \<Rightarrow> (verdict, unit) result" where
  "verdict_if b = Ok (if b then PASS else FAIL)"

lemma series_payload_verdict:
  "\<exists>v. vo_json (series_payload p anchor outcome out) = vo_json out @ [v]
     \<and> verdict_line C v = verdict_if (is_ok (validate_series p anchor) = (outcome = ''accept''))"
proof -
  let ?kvs = "[(lit ''kind'', JStr (lit ''series_payload'')), (lit ''payload'', JStr (hex p)),
    (lit ''anchor_offset'', JNum (dec_u32 anchor)), (lit ''outcome'', JStr (lit outcome))]"
  have "verdict_line C (json_object_text (map written ?kvs)) = verdict_of C (map_of (map raw_field ?kvs))"
    by (rule verdict_written [OF refl]) (simp_all add: dec_ok del: json_value_ok.simps(2))
  also have "\<dots> = verdict_if (is_ok (validate_series p anchor) = (outcome = ''accept''))"
    by (simp add: verdict_of_def raw_field_def check_series_payload_def field_simps verdict_if_def)
  finally show ?thesis
    by (simp add: series_payload_def emit_def json_push_def written_def)
qed

lemma number_payload_verdict:
  "\<exists>v. vo_json (number_payload_vector (p, outcome) out) = vo_json out @ [v]
     \<and> verdict_line C v = verdict_if (is_ok (validate_number p) = (outcome = ''accept''))"
proof -
  let ?kvs = "[(lit ''kind'', JStr (lit ''number_payload'')), (lit ''payload'', JStr (hex p)),
    (lit ''outcome'', JStr (lit outcome))]"
  have "verdict_line C (json_object_text (map written ?kvs)) = verdict_of C (map_of (map raw_field ?kvs))"
    by (rule verdict_written [OF refl]) simp_all
  also have "\<dots> = verdict_if (is_ok (validate_number p) = (outcome = ''accept''))"
    by (simp add: verdict_of_def raw_field_def check_number_payload_def field_simps verdict_if_def)
  finally show ?thesis
    by (simp add: number_payload_vector_def json_push_def written_def)
qed

lemma time_request_verdict:
  assumes "ct_eq_decides C" and "length s = 32"
  shows "\<exists>v out'. time_request_vector C s i out = Ok out' \<and> vo_json out' = vo_json out @ [v]
    \<and> verdict_line C v = Ok PASS"
proof -
  let ?req = "request_image C 0 i s"
  let ?kvs = "[(lit ''name'', JStr (lit ''TIME_REQUEST, cipher 0x01 mandatory, node-to-collector time_key'')),
    (lit ''kind'', JStr (lit ''accept_time_request'')), (lit ''device_secret'', JStr (hex s)),
    (lit ''sender_id'', JStr (hex8 i)), (lit ''direction'', JStr (lit ''00'')),
    (lit ''time_key'', JStr (hex (time_key C s i NodeToCollector))),
    (lit ''wire'', JStr (hex ?req)), (lit ''wire_len'', JNum (dec (length ?req)))]"
  have "decode_time_request C ?req i s = Ok ()"
    unfolding decode_time_request_iff [OF assms(1)] by (rule exI [of _ 0]) simp
  then have "verdict_of C (map_of (map raw_field ?kvs)) = Ok PASS"
    using assms(2)
    by (simp add: verdict_of_def raw_field_def check_accept_time_request_def secret_field_def field_simps
        time_request_eq)
  moreover have "verdict_line C (json_object_text (map written ?kvs)) = verdict_of C (map_of (map raw_field ?kvs))"
    by (rule verdict_written [OF refl]) (simp_all add: dec_ok del: json_value_ok.simps(2))
  ultimately show ?thesis
    by (simp add: time_request_vector_def time_request_eq emit_def json_push_def written_def Let_def)
qed

lemma time_announce_verdict:
  assumes "ct_eq_decides C" and "length s = 32"
  shows "\<exists>v out'. time_announce_vector C s i t out = Ok out' \<and> vo_json out' = vo_json out @ [v]
    \<and> verdict_line C v = Ok PASS"
proof -
  let ?wire = "announce_image C 0 i t s"
  let ?kvs = "[(lit ''name'', JStr (lit ''TIME_ANNOUNCE, cipher 0x01 mandatory, collector-to-node time_key'')),
    (lit ''kind'', JStr (lit ''accept_time_announce'')), (lit ''device_secret'', JStr (hex s)),
    (lit ''sender_id'', JStr (hex8 i)), (lit ''direction'', JStr (lit ''01'')),
    (lit ''time_key'', JStr (hex (time_key C s i CollectorToNode))),
    (lit ''asserted_time'', JNum (dec_i64 t)),
    (lit ''wire'', JStr (hex ?wire)), (lit ''wire_len'', JNum (dec (length ?wire)))]"
  have "decode_time_announce C ?wire i s = Ok t"
    unfolding decode_time_announce_iff [OF assms(1)] by (rule exI [of _ 0]) simp
  then have "verdict_of C (map_of (map raw_field ?kvs)) = Ok PASS"
    using assms(2)
    by (simp add: verdict_of_def raw_field_def check_accept_time_announce_def secret_field_def field_simps
        time_announce_eq)
  moreover have "verdict_line C (json_object_text (map written ?kvs)) = verdict_of C (map_of (map raw_field ?kvs))"
    by (rule verdict_written [OF refl]) (simp_all add: dec_ok del: json_value_ok.simps(2))
  ultimately show ?thesis
    by (simp add: time_announce_vector_def time_announce_eq emit_def json_push_def written_def Let_def)
qed

text \<open>An announcement vector passes exactly when the clock it describes refuses the announcement.\<close>

definition clock_in_state :: "string \<Rightarrow> u32 \<Rightarrow> node_clock" where
  "clock_in_state state last_epoch = (if state = ''cold'' then clockless last_epoch else synced last_epoch)"

lemma reject_time_announce_verdict:
  assumes "ct_eq_decides C" and "length s = 32" and "state = ''cold'' \<or> state = ''valid''"
  shows "\<exists>v out'. reject_time_announce C name s i t state le out = Ok out' \<and> vo_json out' = vo_json out @ [v]
    \<and> verdict_line C v = verdict_if (\<not> is_ok (fst (accept_time_announce t (t - 5) (clock_in_state state le))))"
proof -
  let ?wire = "announce_image C 0 i t s"
  let ?kvs = "[(lit ''name'', JStr name), (lit ''kind'', JStr (lit ''reject_time_announce'')),
    (lit ''device_secret'', JStr (hex s)), (lit ''sender_id'', JStr (hex8 i)),
    (lit ''direction'', JStr (lit ''01'')), (lit ''asserted_time'', JNum (dec_i64 t)),
    (lit ''clock_state'', JStr (lit state)), (lit ''last_epoch'', JNum (dec_u32 le)),
    (lit ''wire'', JStr (hex ?wire)), (lit ''wire_len'', JNum (dec (length ?wire)))]"
  have "decode_time_announce C ?wire i s = Ok t"
    unfolding decode_time_announce_iff [OF assms(1)] by (rule exI [of _ 0]) simp
  then have "verdict_of C (map_of (map raw_field ?kvs))
      = verdict_if (\<not> is_ok (fst (accept_time_announce t (t - 5) (clock_in_state state le))))"
    using assms(2,3)
    by (auto simp: verdict_of_def raw_field_def check_reject_time_announce_def secret_field_def field_simps
        clock_in_state_def verdict_if_def accept_time_announce_def)
  moreover have "verdict_line C (json_object_text (map written ?kvs)) = verdict_of C (map_of (map raw_field ?kvs))"
    by (rule verdict_written [OF refl]) (simp_all add: dec_ok del: json_value_ok.simps(2))
  ultimately show ?thesis
    by (simp add: reject_time_announce_def time_announce_eq emit_def json_push_def written_def Let_def)
qed

section \<open>Reject vectors\<close>

lemma split_char_last: "c \<notin> set s \<Longrightarrow> split_char c s = [s]"
proof -
  assume "c \<notin> set s"
  then have "dropWhile (\<lambda>x. x \<noteq> c) s = []" by (auto simp: dropWhile_eq_Nil_conv)
  then show ?thesis by (subst split_char.simps) (simp only: list.case)
qed

lemma split_char_step: "c \<notin> set s \<Longrightarrow> split_char c (s @ c # r) = s # split_char c r"
proof -
  assume "c \<notin> set s"
  then have "takeWhile (\<lambda>x. x \<noteq> c) (s @ c # r) = s \<and> dropWhile (\<lambda>x. x \<noteq> c) (s @ c # r) = c # r"
    by (induction s) auto
  then show ?thesis by (subst split_char.simps) simp
qed

lemma split_char_join:
  "\<forall>x \<in> set xs. c \<notin> set x \<Longrightarrow> xs \<noteq> [] \<Longrightarrow> split_char c (join [c] xs) = xs"
  by (induction "[c]" xs rule: join.induct) (simp_all add: split_char_last split_char_step)

text \<open>The window a receiver has after accepting these offsets in turn.\<close>

fun seeded :: "u32 list \<Rightarrow> replay_window \<Rightarrow> (replay_window, unit) result" where
  "seeded [] w = Ok w"
| "seeded (off # offs) w =
     (case check_and_set w off of
        (Ok _, w) \<Rightarrow> seeded offs w
      | (Err _, _) \<Rightarrow> Err ()
      | (Panic, _) \<Rightarrow> Panic)"

lemma seed_window_dec: "seed_window (map dec_u32 offs) w = seeded offs w"
  by (induction offs arbitrary: w) (simp_all split: prod.split result.split)

lemma seed_text:
  assumes "offs \<noteq> []"
  shows "seed_window (split_char 44 (join (lit '','') (map dec_u32 offs))) w = seeded offs w"
proof -
  have "lit '','' = [44]" by (simp add: lit_def)
  moreover have "44 \<notin> set (dec_u32 n)" for n using dec_digits by (fastforce simp: dec_u32_def)
  ultimately show ?thesis using assms by (simp add: split_char_join seed_window_dec)
qed

definition reject_fields ::
  "ustr \<Rightarrow> device_secret \<Rightarrow> bytes \<Rightarrow> ustr \<Rightarrow> receiver \<Rightarrow> u32 \<Rightarrow> (ustr \<times> json_value) list" where
  "reject_fields name secret wire fault rc sender_id =
     [(lit ''name'', JStr name), (lit ''kind'', JStr (lit ''reject_datagram'')),
      (lit ''fault'', JStr fault), (lit ''device_secret'', JStr (hex secret)),
      (lit ''sender_id'', JStr (hex8 sender_id)), (lit ''receiver_sender'', JStr (hex8 (rc_sender_id rc))),
      (lit ''receiver_epoch'', JNum (dec_u32 (rc_epoch rc))),
      (lit ''configured_cipher'', JStr (hex2 (cipher_u8 (rc_cipher rc)))),
      (lit ''direction'', JStr (lit ''00'')), (lit ''wire'', JStr (hex wire)),
      (lit ''wire_len'', JNum (dec (length wire)))]
     @ (if rc_seen_offsets rc \<noteq> []
        then [(lit ''seen_offsets'', JStr (join (lit '','') (map dec_u32 (rc_seen_offsets rc))))] else [])"

text \<open>The verdict of a receiver in the given state on the bytes.\<close>

definition rejected :: "crypto \<Rightarrow> device_secret \<Rightarrow> bytes \<Rightarrow> receiver \<Rightarrow> replay_window \<Rightarrow> bool" where
  "rejected C secret wire rc w \<longleftrightarrow>
     \<not> is_ok (fst (decode C wire (test_peer (rc_sender_id rc) secret (rc_cipher rc)) (rc_epoch rc)
         NodeToCollector w))"

lemma reject_datagram_verdict:
  assumes "length secret = 32" and "9 \<le> length wire" and "seeded (rc_seen_offsets rc) one_second = Ok w"
  shows "\<exists>v out'. reject_datagram name secret wire fault rc out = Ok out' \<and> vo_json out' = vo_json out @ [v]
    \<and> verdict_line C v = verdict_if (rejected C secret wire rc w)"
proof -
  obtain i where i: "sender_id_of wire = Ok i"
    using assms(2) by (simp add: sender_id_of_def)
  let ?kvs = "reject_fields name secret wire fault rc i"
  let ?m = "map_of (map raw_field ?kvs)"
  have "lit ''00'' = hex2 0" by (simp add: lit_def hex2_def hex_digit_def)
  then have dir: "direction_field ?m = Ok NodeToCollector"
    by (simp add: direction_field_def reject_fields_def raw_field_def field_simps)
  have win: "(case ?m (lit ''seen_offsets'') of None \<Rightarrow> Ok one_second
      | Some offs \<Rightarrow> seed_window (split_char 44 offs) one_second) = Ok w"
    using assms(3) by (auto simp: reject_fields_def raw_field_def seed_text)
  have fields: "secret_field ?m = Ok secret" "u32_hex_field ?m ''receiver_sender'' = Ok (rc_sender_id rc)"
    "u32_field ?m ''receiver_epoch'' = Ok (rc_epoch rc)"
    "cipher_field ?m ''configured_cipher'' = Ok (rc_cipher rc)" "hex_field ?m ''wire'' = Ok wire"
    using assms(1)
    by (simp_all add: secret_field_def cipher_field_def reject_fields_def raw_field_def field_simps)
  have "fst (decode C wire p e d u) \<noteq> Panic" for p e d u by (rule decode_not_Panic)
  then have "check_reject_datagram C ?m = (if rejected C secret wire rc w then Ok () else Err ())"
    by (simp add: check_reject_datagram_def fields dir win rejected_def split: result.split)
  moreover have "?m (lit ''kind'') = Some (lit ''reject_datagram'')"
    by (simp add: reject_fields_def raw_field_def)
  ultimately have "verdict_of C ?m = verdict_if (rejected C secret wire rc w)"
    by (simp add: verdict_of_def verdict_if_def)
  moreover have "verdict_line C (json_object_text (map written ?kvs)) = verdict_of C ?m"
    by (rule verdict_written [OF refl])
      (simp_all add: reject_fields_def dec_ok del: json_value_ok.simps(2))
  ultimately show ?thesis
    by (auto simp: reject_datagram_def i Let_def emit_def json_push_def written_def reject_fields_def)
qed

end
