(* ===== verification/Catp_Control.thy ===== *)
theory Catp_Control
  imports Catp_Types
begin

text \<open>
  Control payloads of \<open>src/control.rs\<close>: one fixed layout per control type, and the length-prefixed
  lists of \<open>CAPABILITY_ADVERTISE\<close>.
\<close>

section \<open>Payloads\<close>

record capability =
  c_max_version :: u8
  c_ciphers :: bytes
  c_layouts :: "(u8 \<times> u8) list"

datatype control =
    CtlEpochAnnounce u32 \<comment> \<open>target epoch\<close>
  | CtlTimeAnnounce i64 \<comment> \<open>asserted time\<close>
  | CtlHeartbeat
  | CtlCapability capability

definition capability_encode :: "capability \<Rightarrow> (bytes, error) result" where
  "capability_encode c =
     (if 255 < length (c_ciphers c) \<or> 255 < length (c_layouts c)
      then Err (Framing ''capability list longer than 255'')
      else Ok ([c_max_version c] @ [of_nat (length (c_ciphers c))] @ c_ciphers c
               @ [of_nat (length (c_layouts c))] @ concat (map (\<lambda>(f, s). [f, s]) (c_layouts c))))"

definition capability_parse :: "bytes \<Rightarrow> (capability, error) result" where
  "capability_parse p =
     (if length p < 3 then Err (Framing ''CAPABILITY_ADVERTISE shorter than 3 bytes'')
      else rbind (idx p 0) (\<lambda>max_version. rbind (idx p 1) (\<lambda>p1.
        let nc = unat p1 in
        if length p < 2 + nc + 1 then Err (Framing ''cipher list overruns payload'')
        else rbind (subslice p 2 (2 + nc)) (\<lambda>ciphers. rbind (idx p (2 + nc)) (\<lambda>pn.
          let nl = unat pn in
          if length p \<noteq> 3 + nc + nl * 2
          then Err (Framing ''CAPABILITY_ADVERTISE length mismatch'')
          else rbind (subslice p (3 + nc) (length p)) (\<lambda>rest.
            Ok \<lparr>c_max_version = max_version, c_ciphers = ciphers,
                c_layouts = map (\<lambda>c. (c ! 0, c ! 1)) (chunks 2 rest)\<rparr>))))))"

definition control_parse :: "msg_type \<Rightarrow> bytes \<Rightarrow> (control, error) result" where
  "control_parse mt p =
     (case mt of
        EpochAnnounce \<Rightarrow>
          if length p \<noteq> 4 then Err (Framing ''EPOCH_ANNOUNCE payload is not 4 bytes'')
          else Ok (CtlEpochAnnounce (from_be p))
      | TimeAnnounce \<Rightarrow>
          if length p \<noteq> 8 then Err (Framing ''TIME_ANNOUNCE payload is not 8 bytes'')
          else Ok (CtlTimeAnnounce (from_be p))
      | Heartbeat \<Rightarrow>
          if p \<noteq> [] then Err (Framing ''HEARTBEAT payload is not empty'') else Ok CtlHeartbeat
      | CapabilityAdvertise \<Rightarrow> rmap CtlCapability (capability_parse p)
      | _ \<Rightarrow> Err (Framing ''not a control message type''))"

definition control_encode :: "control \<Rightarrow> (bytes, error) result" where
  "control_encode c =
     (case c of
        CtlEpochAnnounce target_epoch \<Rightarrow> Ok (be_bytes 4 target_epoch)
      | CtlTimeAnnounce asserted_time \<Rightarrow> Ok (be_bytes 8 asserted_time)
      | CtlHeartbeat \<Rightarrow> Ok []
      | CtlCapability c \<Rightarrow> capability_encode c)"

definition control_msg_type :: "control \<Rightarrow> msg_type" where
  "control_msg_type c =
     (case c of
        CtlEpochAnnounce _ \<Rightarrow> EpochAnnounce
      | CtlTimeAnnounce _ \<Rightarrow> TimeAnnounce
      | CtlHeartbeat \<Rightarrow> Heartbeat
      | CtlCapability _ \<Rightarrow> CapabilityAdvertise)"

section \<open>Capability lists\<close>

lemma pairs_concat:
  "chunks 2 (concat (map (\<lambda>(f, s). [f, s]) ls)) = map (\<lambda>(f, s). [f, s]) ls"
  by (rule chunks_concat) auto

lemma length_pairs [simp]: "length (concat (map (\<lambda>(f, s). [f, s]) ls)) = 2 * length ls"
  by (induction ls) auto

lemma concat_pairs:
  assumes "even (length rest)"
  shows "concat (map (\<lambda>(f, s). [f, s]) (map (\<lambda>c. (c ! 0, c ! 1)) (chunks 2 rest))) = rest"
    and "2 * length (chunks 2 rest) = length rest"
proof -
  have c: "[c ! 0, c ! 1] = c" if "c \<in> set (chunks 2 rest)" for c
    using chunks_length [OF that] by (auto simp: numeral_eq_Suc length_Suc_conv)
  have "map ((\<lambda>(f, s). [f, s]) \<circ> (\<lambda>c. (c ! 0, c ! 1))) (chunks 2 rest) = chunks 2 rest"
    using c by (intro map_idI) simp
  then show eq: "concat (map (\<lambda>(f, s). [f, s]) (map (\<lambda>c. (c ! 0, c ! 1)) (chunks 2 rest))) = rest"
    using assms by (simp add: concat_chunks)
  show "2 * length (chunks 2 rest) = length rest"
    using arg_cong [OF eq, of length] unfolding length_pairs by simp
qed

lemma drop_3_Cons2: "drop (3 + n) (a # b # q) = drop (Suc n) q"
  by (simp add: numeral_3_eq_3)

lemma unat_of_nat_u8: "n \<le> 255 \<Longrightarrow> unat (of_nat n :: u8) = n"
  by (simp add: unat_of_nat)

lemma capability_parse_encode:
  "capability_encode c = Ok p \<Longrightarrow> capability_parse p = Ok c"
proof -
  assume "capability_encode c = Ok p"
  then have lens: "length (c_ciphers c) \<le> 255" "length (c_layouts c) \<le> 255"
    and p: "p = c_max_version c # of_nat (length (c_ciphers c)) # c_ciphers c
              @ of_nat (length (c_layouts c)) # concat (map (\<lambda>(f, s). [f, s]) (c_layouts c))"
    by (auto simp: capability_encode_def)
  have "map (\<lambda>c. (c ! 0, c ! 1)) (map (\<lambda>(f, s). [f, s]) (c_layouts c)) = c_layouts c"
    by (simp add: comp_def case_prod_beta)
  then show "capability_parse p = Ok c"
    using lens by (simp add: p capability_parse_def Let_def unat_of_nat_u8 nth_append
        drop_3_Cons2 pairs_concat del: map_map)
qed

lemma capability_encode_parse:
  assumes "capability_parse p = Ok c"
  shows "capability_encode c = Ok p"
proof -
  obtain mv n q where p: "p = mv # n # q"
    using assms by (cases p rule: list.exhaust; cases "tl p") (auto simp: capability_parse_def)
  let ?nc = "unat n"
  let ?nl = "unat (q ! ?nc)"
  let ?rest = "drop (Suc ?nc) q"
  from assms have len: "?nc < length q" "length q = 1 + ?nc + ?nl * 2"
    and c: "c = \<lparr>c_max_version = mv, c_ciphers = take ?nc q,
      c_layouts = map (\<lambda>c. (c ! 0, c ! 1)) (chunks 2 ?rest)\<rparr>"
    by (auto simp: p capability_parse_def Let_def drop_3_Cons2 split: if_splits)
  have rest: "even (length ?rest)" using len by simp
  have nl: "length (chunks 2 ?rest) = ?nl" using concat_pairs(2) [OF rest] len by simp
  have q: "q = take ?nc q @ q ! ?nc # ?rest"
    using len(1) by (metis id_take_nth_drop)
  show ?thesis
    using len unat_u8_less [of n] unat_u8_less [of "q ! ?nc"]
    by (simp add: c capability_encode_def nl concat_pairs(1) [OF rest] p q [symmetric]
        del: map_map One_nat_def)
qed

lemma capability_parse_iff: "capability_parse p = Ok c \<longleftrightarrow> capability_encode c = Ok p"
  using capability_parse_encode capability_encode_parse by blast

lemma capability_parse_not_Panic [panic_free]: "capability_parse p \<noteq> Panic"
  by (auto simp: capability_parse_def Let_def rbind_eq_Panic idx_def subslice_def split: if_splits)

lemma be_bytes_from_be_4: "length p = 4 \<Longrightarrow> be_bytes 4 (from_be p :: u32) = p"
  using be_bytes_from_be [of p, where 'a = 32] by simp

lemma be_bytes_from_be_8: "length p = 8 \<Longrightarrow> be_bytes 8 (from_be p :: i64) = p"
  using be_bytes_from_be [of p, where 'a = 64] by simp

section \<open>Properties\<close>

text \<open>C36: Parsing and encoding of control payloads are inverse to each other: parsing a payload as some type
  yields a control message exactly when that message has this type and encodes to this payload. So
  every accepted payload is canonical, and every encodable message survives the trip.\<close>

theorem control_parse_encode_inverse:
  "control_parse mt p = Ok c \<longleftrightarrow> control_msg_type c = mt \<and> control_encode c = Ok p"
proof (cases c)
  case (CtlEpochAnnounce t)
  then show ?thesis
    by (cases mt) (auto simp: control_parse_def control_msg_type_def control_encode_def
        be_bytes_from_be_4 from_be_be_bytes_full)
next
  case (CtlTimeAnnounce t)
  then show ?thesis
    by (cases mt) (auto simp: control_parse_def control_msg_type_def control_encode_def
        be_bytes_from_be_8 from_be_be_bytes_full)
next
  case CtlHeartbeat
  then show ?thesis
    by (cases mt) (auto simp: control_parse_def control_msg_type_def control_encode_def)
next
  case (CtlCapability k)
  then show ?thesis
    by (cases mt) (auto simp: control_parse_def control_msg_type_def control_encode_def
        capability_parse_iff)
qed

end
