(* ===== verification/Catp_Vector_File.thy ===== *)
theory Catp_Vector_File
  imports Catp_Vectors Catp_Control
begin

text \<open>
  The \<open>main\<close> of \<open>tools/src/bin/vectors.rs\<close>: the whole file of frozen vectors, block by block in the
  order of the source, and the proof that the implementation under test passes the file.
\<close>

section \<open>Steps\<close>

text \<open>One emission; a failed \<open>unwrap\<close> or \<open>expect\<close> panics.\<close>

type_synonym vstep = "vectors_out \<Rightarrow> (vectors_out, unit) result"

fun run_steps :: "vstep list \<Rightarrow> vstep" where
  "run_steps [] out = Ok out"
| "run_steps (f # fs) out = rbind (f out) (run_steps fs)"

definition print_step :: "ustr \<Rightarrow> vstep" where
  "print_step s out = Ok (out\<lparr>vo_text := vo_text out @ s\<rparr>)"

definition the_secret :: device_secret where
  "the_secret = map of_nat [0..<32]"

definition the_id :: u32 where "the_id = 0x12345678"
definition the_epoch :: u32 where "the_epoch = 13281250"

text \<open>\<open>accept(&mut json, name, &s, epoch, dir, &built.unwrap())\<close>\<close>

definition accept_at :: "crypto \<Rightarrow> ustr \<Rightarrow> u32 \<Rightarrow> direction \<Rightarrow> (datagram, error) result \<Rightarrow> vstep" where
  "accept_at C name epoch dir built out =
     (case built of Ok d \<Rightarrow> accept_vector C name the_secret epoch dir d out | _ \<Rightarrow> Panic)"

definition accept_step :: "crypto \<Rightarrow> ustr \<Rightarrow> (datagram, error) result \<Rightarrow> vstep" where
  "accept_step C name built = accept_at C name the_epoch NodeToCollector built"

text \<open>\<open>reject_datagram(&mut json, name, &s, &wire, fault, &receiver)\<close>, its arguments built first.\<close>

definition reject_step ::
  "string \<Rightarrow> (bytes, unit) result \<Rightarrow> string \<Rightarrow> (receiver, unit) result \<Rightarrow> vstep" where
  "reject_step name wire fault rc out =
     rbind wire (\<lambda>wire. rbind rc (\<lambda>rc.
       reject_datagram (lit name) the_secret wire (lit fault) rc out))"

primrec unwrap :: "('a, 'e) result \<Rightarrow> ('a, 'f) result" where
  "unwrap (Ok x) = Ok x"
| "unwrap (Err e) = Panic"
| "unwrap Panic = Panic"

section \<open>Accepted datagrams\<close>

definition cipher_steps :: "crypto \<Rightarrow> cipher_id \<Rightarrow> vstep list" where
  "cipher_steps C cipher =
     (let tag = dec (tag_len cipher); id = the_id; epoch = the_epoch in
      [accept_step C (lit ''NUMBER, positive, scale 0x02, tag'' @ tag)
         (number_datagram cipher id epoch 4096 0x02 2350),
       accept_step C (lit ''NUMBER, negative, scale 0x02, tag'' @ tag)
         (number_datagram cipher id epoch 4097 0x02 (- 25)),
       accept_step C (lit ''NUMBER, zero, scale 0x01, tag'' @ tag)
         (number_datagram cipher id epoch 0 0x01 0),
       accept_step C (lit ''SERIES, three readings, tag'' @ tag)
         (series_datagram cipher id epoch 0x02 [(4200, 2350), (4450, 2360), (4900, 2355)]),
       accept_step C (lit ''MESSAGE, single record, tag'' @ tag)
         (data_datagram Message cipher id epoch 100 [record_new FmtNone 1 [0xde, 0xad]]),
       accept_step C (lit ''MESSAGE, three records, mixed formats, tag'' @ tag)
         (data_datagram Message cipher id epoch 200
            [record_new FmtNone 1 [0x01], record_new Cbor 2 [0x02, 0x03],
             record_new MsgPack 0xff [0x04, 0x05, 0x06]]),
       accept_step C (lit ''EVENT, one record, tag'' @ tag)
         (data_datagram Event cipher id epoch 300 [record_new FmtNone 7 [0xaa]]),
       accept_step C (lit ''ALARM, one record, tag'' @ tag)
         (data_datagram Alarm cipher id epoch 400 [record_new FmtNone 9 [0xbb, 0xcc]]),
       accept_step C (lit ''HEARTBEAT, empty payload, tag'' @ tag)
         (control_datagram Heartbeat cipher id epoch 500 []),
       accept_at C (lit ''EPOCH_ANNOUNCE, collector to node, tag'' @ tag) epoch CollectorToNode
         (rbind (unwrap (control_encode (CtlEpochAnnounce (epoch + 1))))
            (control_datagram EpochAnnounce cipher id epoch 600)),
       accept_step C (lit ''CAPABILITY_ADVERTISE, tag'' @ tag)
         (rbind (unwrap (capability_encode
              \<lparr>c_max_version = 1, c_ciphers = [0x01, 0x04], c_layouts = [(0x01, 1), (0x02, 2)]\<rparr>))
            (control_datagram CapabilityAdvertise cipher id epoch 700))])"

definition boundary_steps :: "crypto \<Rightarrow> vstep list" where
  "boundary_steps C =
     (let t32 = HmacSha256T32; id = the_id; epoch = the_epoch in
      [accept_step C (lit ''boundary: offset 0'') (number_datagram t32 id epoch 0 SCALE_MIN 10),
       accept_step C (lit ''boundary: offset 524287, last tick of the epoch'')
         (number_datagram t32 id epoch (TICKS_PER_EPOCH - 1) SCALE_MIN 10),
       accept_step C (lit ''boundary: offset 65536, first value past a 16-bit read'')
         (number_datagram t32 id epoch 65536 SCALE_MIN 10),
       accept_step C (lit ''boundary: size 1'')
         (data_datagram Message t32 id epoch 1 [record_new FmtNone 1 [0x5a]]),
       accept_step C (lit ''boundary: size 400 and schema_version 255, both straddling bytes'')
         (data_datagram Message t32 id epoch 2 [record_new CapnProto 0xff (replicate 400 0x77)]),
       accept_step C (lit ''boundary: NUMBER scale 0x01 (coarsest), mantissa i16::MAX'')
         (number_datagram t32 id epoch 3 SCALE_MIN 0x7FFF),
       accept_step C (lit ''boundary: NUMBER scale 0x07 (finest), mantissa i16::MIN'')
         (number_datagram t32 id epoch 4 SCALE_MAX 0x8000),
       accept_step C (lit ''boundary: SERIES delta at 1 tick, the minimum'')
         (series_datagram t32 id epoch SCALE_MIN [(5, 0), (6, 1)]),
       accept_step C (lit ''boundary: SERIES delta at 65535 ticks, the maximum'')
         (series_datagram t32 id epoch SCALE_MIN [(6, 0), (6 + 65535, 1)])])"

definition reserved_step :: "crypto \<Rightarrow> u8 \<Rightarrow> vstep" where
  "reserved_step C v =
     accept_step C (lit ''boundary: reserved bits '' @ hex2 v @ lit '', must be ignored by receivers'')
       (rmap (\<lambda>d. d\<lparr>d_reserved := v\<rparr>) (number_datagram HmacSha256T32 the_id the_epoch 8 SCALE_MIN 10))"

definition nonce_steps :: "crypto \<Rightarrow> vstep list" where
  "nonce_steps C =
     [accept_step C (lit ''cipher 0x03: nonce pair, offset 10'')
        (number_datagram ChaCha20Poly1305 the_id the_epoch 10 SCALE_MIN 10),
      accept_step C (lit ''cipher 0x03: nonce pair, offset 11 (same epoch_key, distinct nonce)'')
        (number_datagram ChaCha20Poly1305 the_id the_epoch 11 SCALE_MIN 10)]"

section \<open>Rejected datagrams\<close>

definition base_datagram :: "(datagram, unit) result" where
  "base_datagram = unwrap (number_datagram HmacSha256T64 the_id the_epoch 4096 0x02 2350)"

text \<open>\<open>d.encode(&s, epoch, n2c, 65535).unwrap()\<close>\<close>

definition encode_n2c :: "crypto \<Rightarrow> datagram \<Rightarrow> (bytes, unit) result" where
  "encode_n2c C d = unwrap (encode C d the_secret the_epoch NodeToCollector 65535)"

definition reject_steps :: "crypto \<Rightarrow> datagram \<Rightarrow> bytes \<Rightarrow> receiver \<Rightarrow> vstep list" where
  "reject_steps C base_dg base_wire rx =
     (let id = the_id; epoch = the_epoch; t64 = HmacSha256T64 in
      [reject_step ''reject: datagram shorter than header + tag''
         (subslice base_wire 0 (length base_wire - 1)) ''short_length'' (Ok rx),
       reject_step ''reject: unsupported version 2''
         (with_byte base_wire 0 ((base_wire ! 0 AND 0x1F) OR push_bit 5 2)) ''unsupported_version'' (Ok rx),
       reject_step ''reject: msg_type 0x00 is reserved''
         (with_byte base_wire 0 (base_wire ! 0 AND 0xE0)) ''msg_type_0x00'' (Ok rx),
       reject_step ''reject: unimplemented msg_type 0x06''
         (with_byte base_wire 0 ((base_wire ! 0 AND 0xE0) OR 0x06)) ''unimplemented_msg_type'' (Ok rx),
       (\<lambda>out. rbind (unwrap (number_datagram t64 0xdeadbeef epoch 4096 0x02 2350)) (\<lambda>stranger_dg.
          reject_step ''reject: sender not provisioned with the receiver''
            (encode_n2c C stranger_dg) ''unknown_sender''
            (rmap (\<lambda>r. r\<lparr>rc_sender_id := id\<rparr>) (receiver_for_wire stranger_dg epoch)) out)),
       reject_step ''reject: cipher_id differs from the configured suite''
         (with_byte base_wire 1 ((base_wire ! 1 AND 0x0F) OR push_bit 4 0x02)) ''cipher_mismatch''
         (Ok (rx\<lparr>rc_cipher := SipHash24\<rparr>)),
       reject_step ''reject: epoch_low outside the acceptance window''
         (with_byte base_wire 1 ((base_wire ! 1 AND 0xF0) OR 0x05)) ''epoch_out_of_window'' (Ok rx),
       reject_step ''reject: tag does not verify''
         (with_byte base_wire (length base_wire - 1) (base_wire ! (length base_wire - 1) XOR 0xFF))
         ''corrupted_tag'' (Ok rx),
       reject_step ''reject: replayed datagram_offset'' (Ok base_wire) ''replayed_offset''
         (rmap (\<lambda>r. r\<lparr>rc_seen_offsets := [4096]\<rparr>) (receiver_for_wire base_dg epoch)),
       (\<lambda>out. rbind (unwrap (number_datagram t64 id epoch 50 0x02 2350)) (\<lambda>old.
          reject_step ''reject: offset at or below the window'' (encode_n2c C old) ''offset_below_window''
            (rmap (\<lambda>r. r\<lparr>rc_seen_offsets := [100000]\<rparr>) (receiver_for_wire old epoch)) out))])"

definition authentic_payload :: "crypto \<Rightarrow> datagram \<Rightarrow> bytes \<Rightarrow> (bytes, unit) result" where
  "authentic_payload C d payload =
     authentic_with_payload C the_secret d the_epoch NodeToCollector payload"

definition framing_steps :: "crypto \<Rightarrow> receiver \<Rightarrow> datagram \<Rightarrow> datagram \<Rightarrow> vstep list" where
  "framing_steps C rx msg_base event_base =
     (let r1 = [0x10, 0x10, 0x01]; r2 = [0x10, 0x20, 0x01] in
      [reject_step ''reject: payload shorter than one record header''
         (authentic_payload C msg_base [0x01]) ''framing_short_body'' (Ok rx),
       reject_step ''reject: trailing fragment of fewer than 3 bytes''
         (authentic_payload C msg_base (r1 @ [0x5a] @ [0xaa, 0xbb])) ''framing_trailing_fragment'' (Ok rx),
       reject_step ''reject: record size overruns the payload''
         (authentic_payload C msg_base ([0x10, 0x1f, 0xff] @ [0x5a])) ''framing_size_overrun'' (Ok rx),
       reject_step ''reject: record size 0''
         (authentic_payload C msg_base ([0x10, 0x10, 0x00] @ [0x5a])) ''framing_size_zero'' (Ok rx),
       reject_step ''reject: parse ends past the payload boundary''
         (authentic_payload C msg_base (r1 @ [0x5a] @ [0x10, 0x1f, 0xff])) ''framing_past_boundary'' (Ok rx),
       reject_step ''reject: EVENT carries two records''
         (authentic_payload C event_base (r1 @ [0x5a] @ r2 @ [0x22])) ''framing_event_two_records'' (Ok rx)])"

definition message_base :: "(datagram, unit) result" where
  "message_base =
     unwrap (data_datagram Message HmacSha256T64 the_id the_epoch 4096 [record_new FmtNone 1 [0x5a]])"

definition event_base :: "(datagram, unit) result" where
  "event_base =
     unwrap (data_datagram Event HmacSha256T64 the_id the_epoch 4096 [record_new FmtNone 7 [0xaa]])"

definition all_reject_steps :: "crypto \<Rightarrow> vstep" where
  "all_reject_steps C out =
     rbind base_datagram (\<lambda>base_dg.
     rbind (encode_n2c C base_dg) (\<lambda>base_wire.
     rbind (receiver_for_wire base_dg the_epoch) (\<lambda>rx.
     rbind (run_steps (reject_steps C base_dg base_wire rx) out) (\<lambda>out.
     rbind message_base (\<lambda>msg_dg.
     rbind event_base (\<lambda>event_dg.
     run_steps (framing_steps C rx msg_dg event_dg) out))))))"

section \<open>Size ceiling and epoch boundary\<close>

definition epoch_boundary_steps :: "crypto \<Rightarrow> vstep list" where
  "epoch_boundary_steps C =
     (let t32 = HmacSha256T32; id = the_id; epoch = the_epoch in
      [accept_step C (lit ''boundary: size 4095, the largest a record size field can name'')
         (data_datagram Message t32 id epoch 2 [record_new CapnProto 0xff (replicate 4095 0x77)]),
       accept_at C (lit ''boundary: first datagram of a new epoch'') (epoch + 1) NodeToCollector
         (number_datagram t32 id (epoch + 1) 4096 SCALE_MIN 10),
       (\<lambda>out. rbind (unwrap (number_datagram t32 id (epoch - 1) 4096 SCALE_MIN 10)) (\<lambda>d.
          accept_cross C (lit ''boundary: preceding-epoch datagram after an epoch change'') the_secret
            (epoch - 1) epoch NodeToCollector d out))])"

section \<open>Payloads and time\<close>

definition ser :: "u8 \<Rightarrow> i16 \<Rightarrow> (u16 \<times> i16) list \<Rightarrow> bytes" where
  "ser scale first_m pairs =
     [scale] @ be_bytes 2 first_m
     @ concat (map (\<lambda>(delta, mantissa). be_bytes 2 delta @ be_bytes 2 mantissa) pairs)"

definition series_step :: "bytes \<Rightarrow> u32 \<Rightarrow> string \<Rightarrow> vstep" where
  "series_step payload anchor outcome out = Ok (series_payload payload anchor outcome out)"

definition series_steps :: "vstep list" where
  "series_steps =
     (let budget = ser 0x01 0 [] @ concat (map (\<lambda>i. be_bytes 2 (1 :: u16) @ be_bytes 2 (of_nat i :: i16)) [0..<124]);
          misaligned1 = ser 0x02 10 [(1, 20)] @ [0x00];
          misaligned2 = ser 0x02 10 [(1, 20)] @ [0x00, 0x00] in
      [print_step (println (lit ''# SERIES payloads, validated in isolation against the anchor'')),
       series_step (ser 0x01 0 [(1, 1)]) 5 ''accept'',
       series_step (ser 0x01 0 [(65535, 1)]) 5 ''accept'',
       series_step budget 5 ''accept'',
       series_step (ser 0x02 10 []) 4096 ''reject'',
       series_step misaligned1 4096 ''reject'',
       series_step misaligned2 4096 ''reject'',
       series_step (ser 0x02 10 [(0, 20)]) 4096 ''reject'',
       series_step (ser 0x01 0 [(8, 1)]) 524280 ''reject'',
       print_step (println [])])"

definition time_steps :: "crypto \<Rightarrow> vstep list" where
  "time_steps C =
     [reject_time_announce C (lit ''cold start: announcement at the floor is rejected as time rollback'')
        the_secret the_id 1700000000 ''cold'' the_epoch,
      reject_time_announce C (lit ''cold start: a node whose clock is already valid rejects every announcement'')
        the_secret the_id 1800000000 ''valid'' the_epoch,
      time_request_vector C the_secret the_id,
      time_announce_vector C the_secret the_id 1700000000]"

definition accepted_number_payloads :: "bytes list" where
  "accepted_number_payloads =
     concat (map (\<lambda>scale. map (\<lambda>mantissa. [scale] @ be_bytes 2 mantissa) [0 :: i16, 0x8000, 0x7FFF])
       [SCALE_MIN, SCALE_MAX])"

definition rejected_number_payloads :: "bytes list" where
  "rejected_number_payloads =
     [[0x00, 0x00, 0x01], [0x08, 0x00, 0x01], [0x02, 0x00], [0x02, 0x00, 0x01, 0x00]]"

definition number_steps :: "vstep list" where
  "number_steps =
     print_step
       (println (lit ''# Accepted NUMBER payloads: scale 0x01/0x07, mantissa 0/MIN/MAX'')
        @ concat (map (\<lambda>p. println (lit ''accept_number '' @ hex p)) accepted_number_payloads)
        @ println []
        @ println (lit ''# Rejected NUMBER payloads: every one MUST fail 6.3's fixed layout'')
        @ concat (map (\<lambda>p. println (lit ''reject_number '' @ hex p)) rejected_number_payloads))
     # map (\<lambda>p out. Ok (number_payload_vector p out))
         (map (\<lambda>p. (p, ''accept'')) accepted_number_payloads
          @ map (\<lambda>p. (p, ''reject'')) rejected_number_payloads)"

section \<open>The file\<close>

definition banner :: ustr where
  "banner =
     println (lit ''# CATP v1 frozen test vectors (PROTOCOL.md 14.1)'')
     @ println (lit ''# Generated by `cargo run --bin catp-vectors`. Do not hand-edit.'')
     @ println (lit ''# All values hex, big-endian, no separators.'')
     @ println []"

definition vector_steps :: "crypto \<Rightarrow> vstep list" where
  "vector_steps C =
     [print_step banner]
     @ concat (map (cipher_steps C) [HmacSha256T64, HmacSha256T32, SipHash24, ChaCha20Poly1305])
     @ boundary_steps C
     @ map (reserved_step C) (map of_nat [1..<32])
     @ nonce_steps C
     @ [all_reject_steps C]
     @ epoch_boundary_steps C
     @ series_steps
     @ time_steps C
     @ number_steps"

text \<open>Standard output, and the contents of \<open>docs/test-vectors.json\<close>.\<close>

definition vectors_main :: "crypto \<Rightarrow> (ustr \<times> ustr, unit) result" where
  "vectors_main C =
     rmap (\<lambda>out. (vo_text out, json_write (vo_json out)))
       (run_steps (vector_steps C) \<lparr>vo_text = [], vo_json = []\<rparr>)"

section \<open>What a step gives\<close>

text \<open>A step always succeeds, and the vectors it emits get these verdicts.\<close>

definition gives :: "crypto \<Rightarrow> vstep \<Rightarrow> bool list \<Rightarrow> bool" where
  "gives C f bs \<longleftrightarrow>
     (\<forall>out. \<exists>out' vs. f out = Ok out' \<and> vo_json out' = vo_json out @ vs
        \<and> map (verdict_line C) vs = map verdict_if bs)"

lemma rbind_assoc: "rbind (rbind m f) g = rbind m (\<lambda>x. rbind (f x) g)"
  by (cases m) simp_all

lemma run_steps_Cons: "run_steps (f # fs) = (\<lambda>out. rbind (f out) (run_steps fs))"
  by (rule ext) simp

lemma run_steps_append: "run_steps (fs @ gs) = (\<lambda>out. rbind (run_steps fs out) (run_steps gs))"
proof (induction fs)
  case Nil
  show ?case by (rule ext) simp
next
  case (Cons f fs)
  then show ?case by (simp add: run_steps_Cons rbind_assoc del: run_steps.simps)
qed

lemma gives_seq:
  assumes "gives C f bs" and "gives C g cs"
  shows "gives C (\<lambda>out. rbind (f out) g) (bs @ cs)"
  unfolding gives_def
proof
  fix out
  obtain out1 vs1 where f: "f out = Ok out1" "vo_json out1 = vo_json out @ vs1"
    "map (verdict_line C) vs1 = map verdict_if bs"
    using assms(1) unfolding gives_def by blast
  obtain out2 vs2 where r: "g out1 = Ok out2" "vo_json out2 = vo_json out1 @ vs2"
    "map (verdict_line C) vs2 = map verdict_if cs"
    using assms(2) unfolding gives_def by blast
  show "\<exists>out' vs. rbind (f out) g = Ok out' \<and> vo_json out' = vo_json out @ vs
      \<and> map (verdict_line C) vs = map verdict_if (bs @ cs)"
    by (intro exI [of _ out2] exI [of _ "vs1 @ vs2"]) (use f r in simp)
qed

lemma gives_Nil: "gives C (run_steps []) []"
  by (simp add: gives_def)

lemma gives_Cons: "gives C f bs \<Longrightarrow> gives C (run_steps fs) cs \<Longrightarrow> gives C (run_steps (f # fs)) (bs @ cs)"
  using gives_seq [of C f bs "run_steps fs" cs] by (simp only: run_steps_Cons)

lemma gives_append:
  "gives C (run_steps fs) bs \<Longrightarrow> gives C (run_steps gs) cs \<Longrightarrow> gives C (run_steps (fs @ gs)) (bs @ cs)"
  using gives_seq [of C "run_steps fs" bs "run_steps gs" cs] by (simp only: run_steps_append)

lemma gives_run: "list_all2 (gives C) fs bss \<Longrightarrow> gives C (run_steps fs) (concat bss)"
  by (induction fs bss rule: list_all2_induct) (simp_all only: concat.simps gives_Nil gives_Cons)

lemma gives_one:
  "(\<And>out. \<exists>v out'. f out = Ok out' \<and> vo_json out' = vo_json out @ [v] \<and> verdict_line C v = verdict_if b)
   \<Longrightarrow> gives C f [b]"
  unfolding gives_def
proof
  fix out
  assume "\<And>out. \<exists>v out'. f out = Ok out' \<and> vo_json out' = vo_json out @ [v] \<and> verdict_line C v = verdict_if b"
  then obtain v out' where "f out = Ok out'" "vo_json out' = vo_json out @ [v]" "verdict_line C v = verdict_if b"
    by blast
  then show "\<exists>out' vs. f out = Ok out' \<and> vo_json out' = vo_json out @ vs
      \<and> map (verdict_line C) vs = map verdict_if [b]"
    by (intro exI [of _ out'] exI [of _ "[v]"]) simp
qed

lemma gives_print: "gives C (print_step s) []"
  by (simp add: gives_def print_step_def)

lemma verdict_if_True: "verdict_if True = Ok PASS"
  by (simp add: verdict_if_def)

lemma length_the_secret [simp]: "length the_secret = 32"
  by (simp add: the_secret_def)

section \<open>Datagrams that can be sent\<close>

definition sendable :: "crypto \<Rightarrow> u32 \<Rightarrow> direction \<Rightarrow> datagram \<Rightarrow> bool" where
  "sendable C e dir d \<longleftrightarrow>
     (\<exists>mt. datagram_wf mt d) \<and> (\<forall>r \<in> set (d_records d). r_format r \<in> {1, 2, 3, 4, 5, 6})
     \<and> d_epoch_low d = ucast (e AND 0x0F) \<and> is_ok (encode C d the_secret e dir 65535)"

lemma accept_cross_gives:
  assumes "ct_eq_decides C" and "sendable C enc dir d" and "in_epoch_window rx enc"
  shows "gives C (accept_cross C name the_secret enc rx dir d) [True]"
proof (rule gives_one)
  fix out
  obtain mt where wf: "datagram_wf mt d" using assms(2) by (auto simp: sendable_def)
  have "is_ok (accept_cross C name the_secret enc rx dir d out)"
    using assms(2) by (auto simp: sendable_def is_ok_iff accept_cross_def Let_def)
  then obtain out' where out': "accept_cross C name the_secret enc rx dir d out = Ok out'"
    by (auto simp: is_ok_iff)
  from accept_cross_verdict [OF assms(1) length_the_secret wf _ assms(3) _ out'] assms(2) out'
  show "\<exists>v out'. accept_cross C name the_secret enc rx dir d out = Ok out'
      \<and> vo_json out' = vo_json out @ [v] \<and> verdict_line C v = verdict_if True"
    by (auto simp: sendable_def verdict_if_True)
qed

lemma accept_at_gives:
  assumes "ct_eq_decides C" and "\<exists>d. built = Ok d \<and> sendable C e dir d"
  shows "gives C (accept_at C name e dir built) [True]"
proof -
  obtain d where d: "built = Ok d" "sendable C e dir d" using assms(2) by blast
  then have "accept_at C name e dir built = accept_cross C name the_secret e e dir d"
    by (simp add: fun_eq_iff accept_at_def accept_vector_def)
  with accept_cross_gives [OF assms(1) d(2)] show ?thesis by (simp add: in_epoch_window_def)
qed

lemma sendable_base:
  assumes "off < TICKS_PER_EPOCH" and "mt \<noteq> TimeAnnounce" and "mt \<noteq> TimeRequest"
    and "frame_wf mt ((base mt c i e off)\<lparr>d_records := recs, d_raw := raw\<rparr>)"
    and "\<forall>r \<in> set recs. r_format r \<in> {1, 2, 3, 4, 5, 6}"
    and "payload_len ((base mt c i e off)\<lparr>d_records := recs, d_raw := raw\<rparr>) \<le> (if c = ChaCha20Poly1305 then 499 else 60000)"
  shows "sendable C e dir ((base mt c i e off)\<lparr>d_records := recs, d_raw := raw\<rparr>)"
proof -
  let ?d = "(base mt c i e off)\<lparr>d_records := recs, d_raw := raw\<rparr>"
  have wf: "datagram_wf mt ?d" using assms(1-4) by (simp add: datagram_wf_def)
  then have "\<forall>r \<in> set recs. body_ok r"
    by (auto simp: datagram_wf_def frame_wf_def record_ok_def split: if_splits)
  moreover have "tag_len c \<le> 16" by (cases c) simp_all
  ultimately have "is_ok (encode C ?d the_secret e dir 65535)"
    using assms(6) by (auto simp: is_ok_iff encode_Ok mac_fits_def split: if_splits)
  with wf assms(5) show ?thesis by (auto simp: sendable_def)
qed

end
