(* ===== verification/Catp_Vector_Check.thy ===== *)
theory Catp_Vector_Check
  imports Catp_Vector_File
begin

text \<open>
  The frozen vectors against the implementation under test: every datagram the generator builds can
  be sent, every malformed one is refused, and so the whole file passes.
\<close>

section \<open>The builders give datagrams that can be sent\<close>

definition builds :: "crypto \<Rightarrow> u32 \<Rightarrow> direction \<Rightarrow> (datagram, 'e) result \<Rightarrow> bool" where
  "builds C e dir built \<longleftrightarrow> (\<exists>d. built = Ok d \<and> sendable C e dir d)"

lemma builds_Ok [simp]: "builds C e dir (Ok d) = sendable C e dir d"
  by (simp add: builds_def)

lemma with_raw: "(base mt c i e off)\<lparr>d_raw := raw\<rparr> = (base mt c i e off)\<lparr>d_records := [], d_raw := raw\<rparr>"
  by (simp add: base_def)

lemma with_records:
  "(base mt c i e off)\<lparr>d_records := recs\<rparr> = (base mt c i e off)\<lparr>d_records := recs, d_raw := []\<rparr>"
  by (simp add: base_def)

lemma builds_number:
  assumes "scale_is_valid scale" and "off < TICKS_PER_EPOCH"
  shows "builds C e dir (number_datagram c i e off scale m)"
proof -
  have "is_ok (validate_number (scale # be_bytes 2 m))"
    using validate_number_Ok [of "scale # be_bytes 2 m" scale m] assms(1) by (simp add: is_ok_iff)
  then have "sendable C e dir ((base Number c i e off)\<lparr>d_records := [], d_raw := [scale] @ be_bytes 2 m\<rparr>)"
    using assms(2)
    by (intro sendable_base) (simp_all add: frame_wf_def payload_len_def is_record_framed_def)
  moreover have "\<not> TICKS_PER_EPOCH \<le> off" using assms(2) by (simp only: not_le)
  ultimately show ?thesis using assms(1) by (simp add: number_datagram_def with_raw)
qed

lemma length_batch_bytes: "rs \<noteq> [] \<Longrightarrow> length (batch_bytes scale rs) = 4 * length rs - 1"
proof -
  have "length (concat (entry_bytes t rs)) = 4 * length rs" for t rs
    by (induction t rs rule: entry_bytes.induct) simp_all
  then show "rs \<noteq> [] \<Longrightarrow> ?thesis" by (cases rs) auto
qed

lemma builds_series:
  assumes "scale_is_valid scale" and "batch_ok rs" and "length rs \<le> 125"
  shows "builds C e dir (series_datagram c i e scale rs)"
proof -
  let ?raw = "batch_bytes scale rs" and ?off = "fst (hd rs)"
  have "rs \<noteq> []" "?off < TICKS_PER_EPOCH" using assms(2) by (cases rs rule: batch_ok.cases; simp)+
  moreover have "is_ok (validate_series ?raw ?off)"
    using assms(1,2) validate_series_iff [of ?raw ?off scale rs] by (auto simp: is_ok_iff)
  ultimately have "sendable C e dir ((base Series c i e ?off)\<lparr>d_records := [], d_raw := ?raw\<rparr>)"
    using assms(3)
    by (intro sendable_base)
      (auto simp: frame_wf_def payload_len_def is_record_framed_def length_batch_bytes)
  then have "sendable C e dir ((base Series c i e ?off)\<lparr>d_raw := ?raw\<rparr>)" by (simp only: with_raw)
  moreover have "series_datagram c i e scale rs = Ok ((base Series c i e ?off)\<lparr>d_raw := ?raw\<rparr>)"
    using assms(1,2) by (simp add: series_datagram_iff)
  ultimately show ?thesis by (simp only: builds_Ok)
qed

lemma builds_data:
  assumes "is_record_framed mt" and "recs \<noteq> []" and "\<forall>r \<in> set recs. record_ok r \<and> r_format r \<in> {1, 2, 3, 4, 5, 6}"
    and "mt = Event \<or> mt = Alarm \<longrightarrow> length recs = 1" and "off < TICKS_PER_EPOCH"
    and "sum_list (map wire_len recs) \<le> (if c = ChaCha20Poly1305 then 499 else 60000)"
  shows "builds C e dir (data_datagram mt c i e off recs)"
proof -
  have "sendable C e dir ((base mt c i e off)\<lparr>d_records := recs, d_raw := []\<rparr>)"
    using assms
    by (intro sendable_base) (simp_all add: frame_wf_def payload_len_def, auto simp: is_record_framed_def)
  moreover have "\<not> TICKS_PER_EPOCH \<le> off" using assms(5) by (simp only: not_le)
  moreover have "\<not> ((mt = Event \<or> mt = Alarm) \<and> 1 < length recs)" using assms(4) by auto
  ultimately show ?thesis
    using assms(1,2)
    by (simp only: data_datagram_def with_records [symmetric] builds_Ok not_True_eq_False if_False)
qed

lemma builds_control:
  assumes "is_control (msg_type_u8 mt)" and "mt \<noteq> TimeAnnounce" "mt \<noteq> TimeRequest" and "off < TICKS_PER_EPOCH"
    and "length body \<le> 499"
  shows "builds C e dir (control_datagram mt c i e off body)"
proof -
  have "\<not> is_record_framed mt" "mt \<noteq> Number" "mt \<noteq> Series" using assms(1) by (cases mt; simp add: is_record_framed_def is_control_def)+
  then have "sendable C e dir ((base mt c i e off)\<lparr>d_records := [], d_raw := body\<rparr>)"
    using assms by (intro sendable_base) (auto simp: frame_wf_def payload_len_def)
  moreover have "\<not> TICKS_PER_EPOCH \<le> off" using assms(4) by (simp only: not_le)
  ultimately show ?thesis using assms(1) by (simp add: control_datagram_def with_raw)
qed

lemma sendable_reserved:
  assumes "sendable C e dir d" and "v AND 0x1F = v"
  shows "sendable C e dir (d\<lparr>d_reserved := v\<rparr>)"
proof -
  have "datagram_wf mt d \<Longrightarrow> datagram_wf mt (d\<lparr>d_reserved := v\<rparr>)" for mt
    using assms(2) by (cases "is_record_framed mt") (auto simp: datagram_wf_def frame_wf_def hdr_wf_def)
  moreover have "is_ok (encode C d the_secret e dir 65535)
      \<Longrightarrow> is_ok (encode C (d\<lparr>d_reserved := v\<rparr>) the_secret e dir 65535)"
    by (auto simp: is_ok_iff encode_Ok payload_len_def)
  ultimately show ?thesis using assms(1) by (auto simp: sendable_def)
qed

lemma accept_step_gives:
  "ct_eq_decides C \<Longrightarrow> builds C the_epoch NodeToCollector built \<Longrightarrow> gives C (accept_step C name built) [True]"
  by (simp add: accept_step_def builds_def accept_at_gives)

lemma accept_at_builds_gives:
  "ct_eq_decides C \<Longrightarrow> builds C e dir built \<Longrightarrow> gives C (accept_at C name e dir built) [True]"
  by (simp add: builds_def accept_at_gives)

section \<open>Accepted datagrams\<close>

definition passes :: "crypto \<Rightarrow> nat \<Rightarrow> vstep \<Rightarrow> bool" where
  "passes C n f \<longleftrightarrow> gives C f (replicate n True)"

lemma passes_append:
  "passes C m (run_steps fs) \<Longrightarrow> passes C n (run_steps gs) \<Longrightarrow> passes C (m + n) (run_steps (fs @ gs))"
  by (simp add: passes_def replicate_add gives_append)

lemma passes_list:
  "\<forall>f \<in> set fs. gives C f [True] \<Longrightarrow> length fs = n \<Longrightarrow> passes C n (run_steps fs)"
proof (induction fs arbitrary: n)
  case Nil
  then show ?case by (simp only: passes_def list.size replicate.simps gives_Nil)
next
  case (Cons f fs)
  then have "gives C (run_steps (f # fs)) ([True] @ replicate (length fs) True)"
    by (intro gives_Cons) (simp_all add: passes_def)
  then show ?case
    by (simp only: passes_def Cons.prems(2) [symmetric] length_Cons replicate_Suc append_Cons append_Nil)
qed

lemma scale_valid [simp]: "scale_is_valid 1" "scale_is_valid 2" "scale_is_valid 7"
  by (simp_all add: scale_is_valid_def)

lemma cipher_steps_pass:
  assumes "ct_eq_decides C"
  shows "passes C 11 (run_steps (cipher_steps C c))"
proof -
  have "\<forall>f \<in> set (cipher_steps C c). gives C f [True]"
    unfolding cipher_steps_def Let_def list.set ball_simps
    by (intro conjI TrueI accept_step_gives accept_at_builds_gives assms builds_number builds_series builds_data)
      (simp_all add: record_ok_def body_ok_def record_new_def is_record_framed_def wire_len_def
        control_encode_def capability_encode_def builds_control is_control_def)
  then show ?thesis by (rule passes_list) (simp add: cipher_steps_def Let_def)
qed

lemma boundary_steps_pass:
  assumes "ct_eq_decides C"
  shows "passes C 9 (run_steps (boundary_steps C))"
proof -
  have "\<forall>f \<in> set (boundary_steps C). gives C f [True]"
    unfolding boundary_steps_def Let_def list.set ball_simps
    by (intro conjI TrueI accept_step_gives assms builds_number builds_series builds_data)
      (simp_all add: record_ok_def body_ok_def record_new_def is_record_framed_def wire_len_def)
  then show ?thesis by (rule passes_list) (simp add: boundary_steps_def Let_def)
qed

lemma nonce_steps_pass:
  assumes "ct_eq_decides C"
  shows "passes C 2 (run_steps (nonce_steps C))"
proof -
  have "\<forall>f \<in> set (nonce_steps C). gives C f [True]"
    unfolding nonce_steps_def list.set ball_simps
    by (intro conjI TrueI accept_step_gives assms builds_number) simp_all
  then show ?thesis by (rule passes_list) (simp add: nonce_steps_def)
qed

lemma reserved_step_pass:
  assumes "ct_eq_decides C" and "v AND 0x1F = v"
  shows "gives C (reserved_step C v) [True]"
proof -
  have "builds C the_epoch NodeToCollector
      (number_datagram HmacSha256T32 the_id the_epoch 8 SCALE_MIN 10)"
    by (rule builds_number) simp_all
  then have "builds C the_epoch NodeToCollector
      (rmap (\<lambda>d. d\<lparr>d_reserved := v\<rparr>) (number_datagram HmacSha256T32 the_id the_epoch 8 SCALE_MIN 10))"
    using assms(2) by (auto simp: builds_def sendable_reserved)
  with assms(1) show ?thesis unfolding reserved_step_def by (rule accept_step_gives)
qed

lemma reserved_steps_pass:
  assumes "ct_eq_decides C"
  shows "passes C 31 (run_steps (map (reserved_step C) (map of_nat [1..<32])))"
proof -
  have "(of_nat n :: u8) AND 0x1F = of_nat n" if "n < 32" for n
    using that unfolding mask_simps by (simp add: word_unat_eq_iff unat_take_bit_mod unat_of_nat)
  then have "\<forall>f \<in> set (map (reserved_step C) (map of_nat [1..<32])). gives C f [True]"
    using reserved_step_pass [OF assms] by auto
  then show ?thesis by (rule passes_list) simp
qed

section \<open>Rejected datagrams\<close>

text \<open>What steps 1 to 7 of the decoder find in a header, a payload and a tag laid end to end.\<close>

lemma decode_auth_parts:
  assumes "ct_eq_decides C" and "decode_auth C (h @ p @ t) peer local dir = Ok (out, mt, e, payload)"
    and "length h = 9" and "length t = tag_len (p_cipher peer)"
  shows "payload = p" and "header_bytes out = h" and "parse_header h = Ok out"
    and "d_msg_type out = msg_type_u8 mt" and "reconstruct_epoch local (d_epoch_low out) = Some e"
    and "t = tag_of C (p_cipher peer) (epoch_key C (p_secret peer) (p_sender_id peer) e dir)
          (auth_header out e @ p) (d_offset out)"
proof -
  have a: "authentic C peer local dir (h @ p @ t) out mt e payload"
    by (rule decode_auth_sound [OF assms(1,2)])
  let ?tag = "tag_of C (p_cipher peer) (epoch_key C (p_secret peer) (p_sender_id peer) e dir)
      (auth_header out e @ payload) (d_offset out)"
  have "h @ p @ t = header_bytes out @ payload @ ?tag" using a by (simp add: authentic_def)
  moreover have "length h = length (header_bytes out)" using assms(3) by simp
  ultimately have "h = header_bytes out \<and> p @ t = payload @ ?tag"
    using append_eq_append_conv [of h "header_bytes out" "p @ t" "payload @ ?tag"] by blast
  then have h: "h = header_bytes out" and pt: "p @ t = payload @ ?tag" by simp_all
  have "length t = length ?tag" using assms(4) by simp
  with pt have "p = payload \<and> t = ?tag" by simp
  then show "payload = p" and "t = tag_of C (p_cipher peer) (epoch_key C (p_secret peer) (p_sender_id peer) e dir)
          (auth_header out e @ p) (d_offset out)" by simp_all
  show "header_bytes out = h" by (simp only: h)
  have "parse_header (header_bytes out @ []) = Ok (masked_header out)" by (rule parse_header_bytes)
  moreover have "masked_header out = out"
    using masked_header_wf [of out] a by (cases out) (simp add: authentic_def)
  ultimately show "parse_header h = Ok out" by (simp add: h)
  show "d_msg_type out = msg_type_u8 mt" "reconstruct_epoch local (d_epoch_low out) = Some e"
    using a by (simp_all add: authentic_def)
qed

lemma rejected_auth:
  "\<not> is_ok (decode_auth C wire (test_peer (rc_sender_id rc) secret (rc_cipher rc)) (rc_epoch rc)
      NodeToCollector) \<Longrightarrow> rejected C secret wire rc w"
  by (auto simp: rejected_def decode_def is_ok_iff split: result.splits)

lemma rejected_frame:
  assumes "\<And>out mt e payload. decode_auth C wire (test_peer (rc_sender_id rc) secret (rc_cipher rc))
      (rc_epoch rc) NodeToCollector = Ok (out, mt, e, payload) \<Longrightarrow> \<not> is_ok (decode_frame mt payload out)"
  shows "rejected C secret wire rc w"
  using assms
  by (auto simp: rejected_def decode_def is_ok_iff split_layouts_eq split: result.splits prod.splits)

lemma rejected_replay:
  assumes "9 \<le> length wire" and "\<And>out. parse_header wire = Ok out \<Longrightarrow> check_and_set w (d_offset out) = (Err Replay, w)"
  shows "rejected C secret wire rc w"
  using assms
  by (auto simp: rejected_def decode_def is_ok_iff dest!: decode_auth_header(2) split: result.splits prod.splits)

definition the_base :: datagram where
  "the_base = (base Number HmacSha256T64 the_id the_epoch 4096)\<lparr>d_raw := [2] @ be_bytes 2 (2350 :: i16)\<rparr>"

definition the_tag :: "crypto \<Rightarrow> bytes" where
  "the_tag C = datagram_tag C HmacSha256T64 the_base the_secret the_epoch NodeToCollector"

lemma length_the_tag [simp]: "length (the_tag C) = 8"
  by (simp add: the_tag_def)

lemma base_datagram_eq: "base_datagram = Ok the_base"
  by (simp add: base_datagram_def number_datagram_def the_base_def)

lemma the_base_header: "header_bytes the_base = [0x24, 0x12, 0x00, 0x10, 0x00, 0x12, 0x34, 0x56, 0x78]"
  by (simp add: header_bytes_def the_base_def base_def the_id_def the_epoch_def byte_simps Let_def)

lemma the_base_payload: "payload_bytes the_base = [0x02, 0x09, 0x2e]"
  by (simp add: payload_bytes_def the_base_def base_def byte_simps)

definition the_wire :: "crypto \<Rightarrow> bytes" where
  "the_wire C = [0x24, 0x12, 0x00, 0x10, 0x00, 0x12, 0x34, 0x56, 0x78] @ [0x02, 0x09, 0x2e] @ the_tag C"

lemma encode_base: "encode_n2c C the_base = Ok (the_wire C)"
proof -
  have "encode C the_base the_secret the_epoch NodeToCollector 65535
      = Ok (wire_image C HmacSha256T64 the_base the_secret the_epoch NodeToCollector)"
    by (auto simp: encode_Ok the_base_def mac_fits_def payload_len_def cipher_from_u8_def)
  then show ?thesis
    by (simp add: encode_n2c_def wire_image_def the_wire_def the_base_header the_base_payload the_tag_def)
qed

definition the_rx :: receiver where
  "the_rx = \<lparr>rc_sender_id = the_id, rc_epoch = the_epoch, rc_cipher = HmacSha256T64, rc_seen_offsets = []\<rparr>"

lemma receiver_for_base: "receiver_for_wire the_base the_epoch = Ok the_rx"
  by (simp add: receiver_for_wire_def the_base_def the_rx_def cipher_from_u8_def)

lemma reject_step_gives:
  assumes "9 \<le> length wire" and "seeded (rc_seen_offsets rc) one_second = Ok w"
    and "rejected C the_secret wire rc w = b"
  shows "gives C (reject_step name (Ok wire) fault (Ok rc)) [b]"
proof (rule gives_one)
  fix out
  from reject_datagram_verdict [OF length_the_secret assms(1,2), of "lit name" "lit fault" out C]
  show "\<exists>v out'. reject_step name (Ok wire) fault (Ok rc) out = Ok out' \<and>
      vo_json out' = vo_json out @ [v] \<and> verdict_line C v = verdict_if b"
    using assms(3) by (auto simp: reject_step_def)
qed

text \<open>Faults the header alone decides: the decoder stops before the tag.\<close>

lemma rejected_header:
  assumes "wire = b0 # b1 # b2 # b3 # b4 # b5 # b6 # b7 # b8 # rest"
    and "drop_bit 5 b0 AND 0x07 \<noteq> VERSION \<or> msg_type_from_u8 (b0 AND 0x1F) = None
      \<or> from_be [b5, b6, b7, b8] \<noteq> rc_sender_id rc
      \<or> reconstruct_epoch (rc_epoch rc) (b1 AND 0x0F) = None"
  shows "rejected C secret wire rc w"
  using assms(2)
  by (intro rejected_auth) (auto simp: assms(1) decode_auth_def parse_header_Cons test_peer_def is_ok_iff)

text \<open>A payload of the right shape in front of any tag: framing decides.\<close>

lemma rejected_framing:
  assumes "ct_eq_decides C" and "length h = 9" and "length t = tag_len (rc_cipher rc)"
    and "msg_type_from_u8 (h ! 0 AND 0x1F) = Some mt" and "\<And>out. \<not> is_ok (decode_frame mt p out)"
  shows "rejected C secret (h @ p @ t) rc w"
proof (rule rejected_frame)
  fix out mt' e payload
  let ?peer = "test_peer (rc_sender_id rc) secret (rc_cipher rc)"
  assume a: "decode_auth C (h @ p @ t) ?peer (rc_epoch rc) NodeToCollector = Ok (out, mt', e, payload)"
  have len: "length t = tag_len (p_cipher ?peer)" using assms(3) by (simp add: test_peer_def)
  note parts = decode_auth_parts [OF assms(1) a assms(2) len]
  have "9 \<le> length h" using assms(2) by simp
  then obtain b0 b1 b2 b3 b4 b5 b6 b7 b8 rest where b: "h = b0 # b1 # b2 # b3 # b4 # b5 # b6 # b7 # b8 # rest"
    by (rule length_9_cases)
  have "d_msg_type out = h ! 0 AND 0x1F" using parts(3) by (auto simp: b parse_header_Cons)
  then have "msg_type_from_u8 (msg_type_u8 mt') = Some mt" using assms(4) parts(4) by simp
  then have "mt' = mt" by (simp add: msg_type_from_u8_Some)
  then show "\<not> is_ok (decode_frame mt' payload out)" using assms(5) parts(1) by simp
qed

text \<open>The tag is the one thing wrong: the datagram is refused exactly when the tag is not its own.\<close>

lemma rejected_tag:
  assumes "ct_eq_decides C" and "datagram_wf mt d" and "\<forall>r \<in> set (d_records d). r_format r \<in> {1, 2, 3, 4, 5, 6}"
    and "d_sender_id d = rc_sender_id rc" and "d_cipher_id d = cipher_u8 (rc_cipher rc)"
    and "reconstruct_epoch (rc_epoch rc) (d_epoch_low d) = Some e"
    and "mac_fits (rc_cipher rc) (13 + payload_len d)"
    and "length t = tag_len (rc_cipher rc)"
    and "check_and_set w (d_offset d) = (Ok (), w')"
  shows "rejected C secret (header_bytes d @ payload_bytes d @ t) rc w
    \<longleftrightarrow> t \<noteq> datagram_tag C (rc_cipher rc) d secret e NodeToCollector"
proof -
  let ?peer = "test_peer (rc_sender_id rc) secret (rc_cipher rc)"
  let ?buf = "header_bytes d @ payload_bytes d @ t"
  have p [simp]: "p_sender_id ?peer = rc_sender_id rc" "p_secret ?peer = secret" "p_cipher ?peer = rc_cipher rc"
    by (simp_all add: test_peer_def)
  show ?thesis
  proof (cases "t = datagram_tag C (rc_cipher rc) d secret e NodeToCollector")
    case True
    then have "genuine C ?peer (rc_epoch rc) NodeToCollector ?buf e d"
      using assms(4-7) by (simp add: genuine_def wire_image_def)
    then have "decode C ?buf ?peer (rc_epoch rc) NodeToCollector w = (Ok (accepted_of ?peer e d), w')"
      using assms(2,9) by (auto simp: decode_Ok_iff [OF assms(1)])
    then have "fst (decode C ?buf ?peer (rc_epoch rc) NodeToCollector w) = Ok (accepted_of ?peer e d)" by simp
    with True show ?thesis unfolding rejected_def by simp
  next
    case False
    have "\<not> is_ok (decode_auth C ?buf ?peer (rc_epoch rc) NodeToCollector)"
    proof
      assume "is_ok (decode_auth C ?buf ?peer (rc_epoch rc) NodeToCollector)"
      then obtain out mt' e' payload where
        a: "decode_auth C ?buf ?peer (rc_epoch rc) NodeToCollector = Ok (out, mt', e', payload)"
        by (auto simp: is_ok_iff)
      have len: "length (header_bytes d) = 9" "length t = tag_len (p_cipher ?peer)" using assms(8) by simp_all
      note parts = decode_auth_parts [OF assms(1) a len]
      have "hdr_wf d" using assms(2) by (simp add: datagram_wf_def)
      then have "masked_header d = bare d" by (simp add: masked_header_wf bare_def)
      then have "out = bare d" using parts(3) parse_header_bytes [of d "[]"] by simp
      moreover from this have "e' = e" using parts(5) assms(6) by simp
      ultimately have "t = datagram_tag C (rc_cipher rc) d secret e NodeToCollector"
        using parts(6) assms(4) by (simp add: datagram_tag_def signed_message_def)
      with False show False by simp
    qed
    with False show ?thesis by (simp add: rejected_auth)
  qed
qed

section \<open>The reject vectors\<close>

lemma seeded_none [simp]: "seeded (rc_seen_offsets the_rx) one_second = Ok one_second"
  by (simp add: the_rx_def)

lemma the_wire_header:
  "the_wire C = 0x24 # 0x12 # 0x00 # 0x10 # 0x00 # 0x12 # 0x34 # 0x56 # 0x78 # [0x02, 0x09, 0x2e] @ the_tag C"
  by (simp add: the_wire_def)

lemma length_the_wire [simp]: "length (the_wire C) = 20"
  by (simp add: the_wire_def)

lemma frame_number: "is_ok (decode_frame Number p out) = is_ok (validate_number p)"
  by (auto simp: decode_frame_def is_record_framed_def is_ok_iff)

lemma shorter_rejected:
  assumes "ct_eq_decides C"
  shows "rejected C s (take 19 (the_wire C)) the_rx w"
proof -
  have "take 19 (the_wire C) = [0x24, 0x12, 0x00, 0x10, 0x00, 0x12, 0x34, 0x56, 0x78] @ [0x02, 0x09]
      @ (0x2e # take 7 (the_tag C))"
    by (simp add: the_wire_def)
  moreover have "\<not> is_ok (decode_frame Number [0x02, 0x09] out)" for out
    by (simp add: frame_number validate_number_def)
  ultimately show ?thesis
    using assms by (simp only:) (rule rejected_framing; simp add: the_rx_def msg_type_from_u8_def)
qed

lemma version_rejected:
  "rejected C s ((the_wire C)[0 := (the_wire C ! 0 AND 0x1F) OR push_bit 5 2]) the_rx w"
  by (rule rejected_header, simp add: the_wire_header, simp)

lemma msg_type_rejected:
  "rejected C s ((the_wire C)[0 := the_wire C ! 0 AND 0xE0]) the_rx w"
  "rejected C s ((the_wire C)[0 := (the_wire C ! 0 AND 0xE0) OR 0x06]) the_rx w"
  by (rule rejected_header, simp add: the_wire_header, simp add: msg_type_from_u8_def)+

lemma epoch_low_rejected:
  "rejected C s ((the_wire C)[1 := (the_wire C ! 1 AND 0xF0) OR 0x05]) the_rx w"
  by (rule rejected_header, simp add: the_wire_header)
    (simp add: reconstruct_epoch_def the_rx_def the_epoch_def Let_def)

lemma the_base_wf: "datagram_wf Number the_base"
proof -
  have "validate_number (2 # be_bytes 2 (2350 :: i16)) = Ok (2, 2350)" by (simp add: validate_number_Ok)
  moreover have "hdr_wf (base Number HmacSha256T64 the_id the_epoch 4096)" by (rule base_wf) simp
  ultimately show ?thesis
    by (simp add: the_base_def datagram_wf_def frame_wf_def is_record_framed_def is_ok_iff)
qed

lemma the_base_simps [simp]:
  "d_records the_base = []" "d_sender_id the_base = the_id" "d_offset the_base = 4096"
  "d_cipher_id the_base = 1" "payload_len the_base = 3" "d_epoch_low the_base = 2"
  by (simp_all add: the_base_def payload_len_def the_epoch_def)

lemma reconstruct_base: "reconstruct_epoch the_epoch 2 = Some the_epoch"
  by (simp add: reconstruct_epoch_def the_epoch_def)

text \<open>The datagram the \<open>cipher_mismatch\<close> vector carries, and the coincidence its refusal rests on.\<close>

definition other_cipher :: datagram where
  "other_cipher = the_base\<lparr>d_cipher_id := 2\<rparr>"

definition tags_coincide :: "crypto \<Rightarrow> bool" where
  "tags_coincide C \<longleftrightarrow>
     the_tag C = datagram_tag C SipHash24 other_cipher the_secret the_epoch NodeToCollector"

lemma cipher_rejected:
  assumes "ct_eq_decides C"
  shows "rejected C the_secret ((the_wire C)[1 := (the_wire C ! 1 AND 0x0F) OR push_bit 4 0x02])
      (the_rx\<lparr>rc_cipher := SipHash24\<rparr>) one_second \<longleftrightarrow> \<not> tags_coincide C"
proof -
  obtain w where w: "check_and_set one_second (d_offset other_cipher) = (Ok (), w)"
    using fresh_window_admits by blast
  have "header_bytes other_cipher = [0x24, 0x22, 0x00, 0x10, 0x00, 0x12, 0x34, 0x56, 0x78]"
    by (simp add: header_bytes_def other_cipher_def the_base_def base_def the_id_def the_epoch_def
        byte_simps Let_def)
  moreover have "payload_bytes other_cipher = [0x02, 0x09, 0x2e]"
    using the_base_payload by (simp add: payload_bytes_def other_cipher_def)
  ultimately have wire: "(the_wire C)[1 := (the_wire C ! 1 AND 0x0F) OR push_bit 4 0x02]
      = header_bytes other_cipher @ payload_bytes other_cipher @ the_tag C"
    by (simp add: the_wire_header)
  have wf: "datagram_wf Number other_cipher"
    using the_base_wf
    by (simp add: other_cipher_def datagram_wf_def hdr_wf_def frame_wf_def is_record_framed_def)
  then show ?thesis
    unfolding wire tags_coincide_def
    by (subst rejected_tag [OF assms wf _ _ _ _ _ _ w, of _ the_epoch])
      (simp_all add: other_cipher_def the_rx_def reconstruct_base mac_fits_def payload_len_def)
qed

lemma tag_rejected:
  assumes "ct_eq_decides C"
  shows "rejected C the_secret ((the_wire C)[19 := the_wire C ! 19 XOR 0xFF]) the_rx one_second"
proof -
  let ?t = "(the_tag C)[7 := the_tag C ! 7 XOR 0xFF]"
  obtain w where w: "check_and_set one_second (d_offset the_base) = (Ok (), w)"
    using fresh_window_admits by blast
  have wire: "(the_wire C)[19 := the_wire C ! 19 XOR 0xFF] = header_bytes the_base @ payload_bytes the_base @ ?t"
    by (simp add: the_wire_header the_base_header the_base_payload)
  have "?t \<noteq> the_tag C"
  proof
    assume "?t = the_tag C"
    then have "?t ! 7 = the_tag C ! 7" by (rule arg_cong)
    then have "the_tag C ! 7 XOR (the_tag C ! 7 XOR 0xFF) = the_tag C ! 7 XOR the_tag C ! 7" by simp
    then show False by (simp add: xor.assoc [symmetric])
  qed
  then show ?thesis
    unfolding wire
    by (subst rejected_tag [OF assms the_base_wf _ _ _ _ _ _ w, of _ the_epoch])
      (simp_all add: the_rx_def reconstruct_base mac_fits_def the_tag_def)
qed

lemma one_second_rep: "window_rep one_second {}"
  unfolding one_second_def DEFAULT_WINDOW_WORDS_def by (rule window_rep_new) simp_all

text \<open>A window seeded with one offset refuses that offset, and everything a second below it.\<close>

lemma seeded_one:
  assumes "off = hi \<or> 4096 \<le> unat hi - unat off"
  obtains w where "seeded [hi] one_second = Ok w" and "check_and_set w off = (Err Replay, w)"
proof -
  have "spec_admits (entries one_second) {} hi" by (simp add: spec_admits_def)
  then obtain w where w: "check_and_set one_second hi = (Ok (), w)" "window_rep w {hi}" "entries w = 4096"
    using check_and_set_refines [OF one_second_rep, of hi] by auto
  have "\<not> spec_admits (entries w) {hi} off" using assms w(3) by (auto simp: spec_admits_def)
  then have "check_and_set w off = (Err Replay, w)" using check_and_set_refines [OF w(2), of off] by simp
  then show thesis using that w(1) by simp
qed

lemma number_offset:
  "parse_header (header_bytes d @ rest) = Ok out \<Longrightarrow> d_offset d AND 0x7FFFF = off \<Longrightarrow> d_offset out = off"
  by (auto simp: parse_header_bytes masked_header_def)

lemma number_n2c:
  assumes "off < TICKS_PER_EPOCH"
  obtains d t where "unwrap (number_datagram HmacSha256T64 i e off 2 m) = (Ok d :: (datagram, unit) result)"
    and "encode_n2c C d = Ok (header_bytes d @ [2] @ be_bytes 2 m @ t)" and "length t = 8"
    and "d_cipher_id d = 1" and "d_sender_id d = i" and "d_offset d = off" and "d_version d = 1"
    and "d_msg_type d = msg_type_u8 Number" and "hdr_wf d"
proof -
  let ?d = "(base Number HmacSha256T64 i e off)\<lparr>d_raw := [2] @ be_bytes 2 m\<rparr>"
  have off: "\<not> TICKS_PER_EPOCH \<le> off" using assms by (simp only: not_le)
  have "encode C ?d the_secret the_epoch NodeToCollector 65535
      = Ok (wire_image C HmacSha256T64 ?d the_secret the_epoch NodeToCollector)"
    by (auto simp: encode_Ok mac_fits_def payload_len_def cipher_from_u8_def)
  moreover have "payload_bytes ?d = [2] @ be_bytes 2 m" by (simp add: payload_bytes_def)
  ultimately show thesis
    using off assms
    by (intro that [of ?d "datagram_tag C HmacSha256T64 ?d the_secret the_epoch NodeToCollector"])
      (simp_all add: number_datagram_def encode_n2c_def wire_image_def)
qed

lemma replay_step_gives:
  assumes "off = hi \<or> 4096 \<le> unat hi - unat off" and "hdr_wf d" and "d_offset d = off" and "rc_seen_offsets rc = [hi]"
  shows "gives C (reject_step name (Ok (header_bytes d @ rest)) fault (Ok rc)) [True]"
proof -
  obtain w where w: "seeded [hi] one_second = Ok w" "check_and_set w off = (Err Replay, w)"
    using assms(1) by (rule seeded_one)
  have "d_offset d AND 0x7FFFF = off" using assms(2,3) by (simp add: hdr_wf_def)
  then have "rejected C the_secret (header_bytes d @ rest) rc w"
    using w(2) by (intro rejected_replay) (auto dest: number_offset)
  with w(1) assms(4) show ?thesis by (intro reject_step_gives [where w = w]) simp_all
qed

lemma stranger_gives:
  assumes "d_sender_id d \<noteq> rc_sender_id rc" and "hdr_wf d" and "rc_seen_offsets rc = []"
  shows "gives C (reject_step name (Ok (header_bytes d @ rest)) fault (Ok rc)) [True]"
proof -
  have "masked_header d = bare d" using assms(2) by (simp add: masked_header_wf bare_def)
  then have "parse_header (header_bytes d @ rest) = Ok (bare d)" by (simp add: parse_header_bytes)
  then have "rejected C the_secret (header_bytes d @ rest) rc one_second"
    using assms(1) by (intro rejected_auth) (auto simp: decode_auth_def test_peer_def is_ok_iff)
  with assms(3) show ?thesis by (intro reject_step_gives [where w = one_second]) simp_all
qed

lemma wire_faults:
  "subslice (the_wire C) 0 19 = Ok (take 19 (the_wire C))"
  "length (the_wire C) - 1 = 19"
  "with_byte (the_wire C) 0 v = Ok ((the_wire C)[0 := v])"
  "with_byte (the_wire C) 1 v = Ok ((the_wire C)[1 := v])"
  "with_byte (the_wire C) 19 v = Ok ((the_wire C)[19 := v])"
  by (simp_all add: subslice_def with_byte_def)

lemma stranger_step_gives:
  "gives C (\<lambda>out. rbind (unwrap (number_datagram HmacSha256T64 0xdeadbeef the_epoch 4096 0x02 2350))
     (\<lambda>stranger_dg. reject_step name (encode_n2c C stranger_dg) fault
        (rmap (\<lambda>r. r\<lparr>rc_sender_id := the_id\<rparr>) (receiver_for_wire stranger_dg the_epoch)) out)) [True]"
proof -
  obtain d t where d: "unwrap (number_datagram HmacSha256T64 0xdeadbeef the_epoch 4096 2 2350) = (Ok d :: (datagram, unit) result)"
    "encode_n2c C d = Ok (header_bytes d @ [2] @ be_bytes 2 (2350 :: i16) @ t)" "d_cipher_id d = 1"
    "d_sender_id d = 0xdeadbeef" "hdr_wf d"
    by (rule number_n2c [where off = 4096 and i = "0xdeadbeef" and e = the_epoch and m = 2350 and C = C]) simp_all
  let ?rc = "\<lparr>rc_sender_id = the_id, rc_epoch = the_epoch, rc_cipher = HmacSha256T64, rc_seen_offsets = []\<rparr>"
  have "gives C (reject_step name (Ok (header_bytes d @ [2] @ be_bytes 2 (2350 :: i16) @ t)) fault (Ok ?rc)) [True]"
    using d(4,5) by (intro stranger_gives) (simp_all add: the_id_def)
  moreover have "cipher_from_u8 1 = Some HmacSha256T64" by (simp add: cipher_from_u8_def)
  ultimately show ?thesis
    by (simp only: d rbind.simps receiver_for_wire_def option.case rmap.simps receiver.simps)
qed

lemma old_step_gives:
  "gives C (\<lambda>out. rbind (unwrap (number_datagram HmacSha256T64 the_id the_epoch 50 0x02 2350))
     (\<lambda>old. reject_step name (encode_n2c C old) fault
        (rmap (\<lambda>r. r\<lparr>rc_seen_offsets := [100000]\<rparr>) (receiver_for_wire old the_epoch)) out)) [True]"
proof -
  obtain d t where d: "unwrap (number_datagram HmacSha256T64 the_id the_epoch 50 2 2350) = (Ok d :: (datagram, unit) result)"
    "encode_n2c C d = Ok (header_bytes d @ [2] @ be_bytes 2 (2350 :: i16) @ t)" "d_cipher_id d = 1"
    "d_sender_id d = the_id" "d_offset d = 50" "hdr_wf d"
    by (rule number_n2c [where off = 50 and i = the_id and e = the_epoch and m = 2350 and C = C]) simp_all
  let ?rc = "\<lparr>rc_sender_id = the_id, rc_epoch = the_epoch, rc_cipher = HmacSha256T64, rc_seen_offsets = [100000]\<rparr>"
  have "gives C (reject_step name (Ok (header_bytes d @ [2] @ be_bytes 2 (2350 :: i16) @ t)) fault (Ok ?rc)) [True]"
    using d(5,6) by (intro replay_step_gives [of 50 100000]) simp_all
  moreover have "cipher_from_u8 1 = Some HmacSha256T64" by (simp add: cipher_from_u8_def)
  ultimately show ?thesis
    by (simp only: d rbind.simps receiver_for_wire_def option.case rmap.simps receiver.simps)
qed

lemma replayed_step_gives:
  "gives C (reject_step name (Ok (the_wire C)) fault
     (rmap (\<lambda>r. r\<lparr>rc_seen_offsets := [4096]\<rparr>) (receiver_for_wire the_base the_epoch))) [True]"
proof -
  have "hdr_wf the_base" using the_base_wf by (simp add: datagram_wf_def)
  then have "gives C (reject_step name (Ok (header_bytes the_base @ [2, 9, 46] @ the_tag C)) fault
      (Ok (the_rx\<lparr>rc_seen_offsets := [4096]\<rparr>))) [True]"
    by (intro replay_step_gives [of 4096 4096]) simp_all
  then show ?thesis by (simp add: receiver_for_base the_wire_def the_base_header)
qed

lemma reject_steps_give:
  assumes "ct_eq_decides C"
  shows "gives C (run_steps (reject_steps C the_base (the_wire C) the_rx))
    (replicate 5 True @ [\<not> tags_coincide C] @ replicate 4 True)"
proof -
  have "list_all2 (gives C) (reject_steps C the_base (the_wire C) the_rx)
      [[True], [True], [True], [True], [True], [\<not> tags_coincide C], [True], [True], [True], [True]]"
    unfolding reject_steps_def Let_def list_all2_Cons list_all2_Nil wire_faults
    by (intro conjI refl stranger_step_gives old_step_gives replayed_step_gives;
        rule reject_step_gives [where w = one_second];
        (rule seeded_none)?)
      (simp_all only: shorter_rejected version_rejected msg_type_rejected epoch_low_rejected
        cipher_rejected tag_rejected assms length_list_update length_take length_the_wire
        receiver.simps, simp_all add: the_rx_def)
  then have "gives C (run_steps (reject_steps C the_base (the_wire C) the_rx))
      (concat [[True], [True], [True], [True], [True], [\<not> tags_coincide C], [True], [True], [True], [True]])"
    by (rule gives_run)
  then show ?thesis by (simp add: numeral_eq_Suc)
qed

section \<open>The framing vectors\<close>

lemma authentic_payload_parts:
  assumes "d_cipher_id d = 1" and "length p \<le> 60000"
  obtains h t where "authentic_payload C d p = Ok (h @ p @ t)" and "length h = 9" and "length t = 8"
    and "h ! 0 = header_bytes d ! 0"
proof -
  let ?ah = "auth_header d the_epoch" and ?key = "epoch_key C the_secret (d_sender_id d) the_epoch NodeToCollector"
  let ?h = "[?ah ! 0, ?ah ! 1 OR d_epoch_low d, ?ah ! 2, ?ah ! 3, ?ah ! 4] @ take 4 (drop 9 ?ah)"
  let ?t = "tag_of C HmacSha256T64 ?key (?ah @ p) (d_offset d)"
  have "mac_fits HmacSha256T64 (length (?ah @ p))" by (simp add: mac_fits_def)
  then have "mac C HmacSha256T64 ?key (?ah @ p) (d_offset d) = Ok ?t" by (rule mac_ok)
  then have "authentic_payload C d p = Ok (?h @ p @ ?t)"
    using assms(1)
    by (simp add: authentic_payload_def authentic_with_payload_def cipher_from_u8_def Let_def)
  moreover have "?h ! 0 = header_bytes d ! 0" by (simp add: auth_header_def Let_def)
  ultimately show thesis by (intro that [of ?h ?t]) simp_all
qed

lemma framing_step_gives:
  assumes "ct_eq_decides C" and "d_cipher_id d = 1" and "length p \<le> 60000"
    and "msg_type_from_u8 (header_bytes d ! 0 AND 0x1F) = Some mt" and "\<And>out. \<not> is_ok (decode_frame mt p out)"
  shows "gives C (reject_step name (authentic_payload C d p) fault (Ok the_rx)) [True]"
proof -
  obtain h t where a: "authentic_payload C d p = Ok (h @ p @ t)" "length h = 9" "length t = 8"
    "h ! 0 = header_bytes d ! 0"
    using assms(2,3) by (rule authentic_payload_parts)
  have "rejected C the_secret (h @ p @ t) the_rx one_second"
    by (rule rejected_framing [OF assms(1) a(2), where mt = mt])
      (use a(3,4) assms(4,5) in \<open>simp_all add: the_rx_def\<close>)
  with a(2) show ?thesis unfolding a(1) by (intro reject_step_gives [where w = one_second]) simp_all
qed

definition the_message :: datagram where
  "the_message = (base Message HmacSha256T64 the_id the_epoch 4096)\<lparr>d_records := [record_new FmtNone 1 [0x5a]]\<rparr>"

definition the_event :: datagram where
  "the_event = (base Event HmacSha256T64 the_id the_epoch 4096)\<lparr>d_records := [record_new FmtNone 7 [0xaa]]\<rparr>"

lemma framing_bases:
  "message_base = Ok the_message" "event_base = Ok the_event"
  by (simp_all add: message_base_def event_base_def data_datagram_def the_message_def the_event_def
      is_record_framed_def)

lemma framing_headers:
  "header_bytes the_message ! 0 = 0x21" "header_bytes the_event ! 0 = 0x22"
  "d_cipher_id the_message = 1" "d_cipher_id the_event = 1"
  by (simp_all add: header_bytes_def the_message_def the_event_def base_def Let_def)

lemma bad_frames:
  "\<not> is_ok (decode_frame Message [0x01] out)"
  "\<not> is_ok (decode_frame Message [0x10, 0x10, 0x01, 0x5a, 0xaa, 0xbb] out)"
  "\<not> is_ok (decode_frame Message [0x10, 0x1f, 0xff, 0x5a] out)"
  "\<not> is_ok (decode_frame Message [0x10, 0x10, 0x00, 0x5a] out)"
  "\<not> is_ok (decode_frame Message [0x10, 0x10, 0x01, 0x5a, 0x10, 0x1f, 0xff] out)"
  "\<not> is_ok (decode_frame Event [0x10, 0x10, 0x01, 0x5a, 0x10, 0x20, 0x01, 0x22] out)"
  by (simp_all add: decode_frame_def is_record_framed_def decode_records.simps record_decode_def
      subslice_def Let_def)

lemma framing_steps_give:
  assumes "ct_eq_decides C"
  shows "passes C 6 (run_steps (framing_steps C the_rx the_message the_event))"
proof -
  have mt: "msg_type_from_u8 (header_bytes the_message ! 0 AND 0x1F) = Some Message"
    "msg_type_from_u8 (header_bytes the_event ! 0 AND 0x1F) = Some Event"
    by (simp_all add: framing_headers msg_type_from_u8_def)
  note message = framing_step_gives [OF assms framing_headers(3) _ mt(1)]
    and event = framing_step_gives [OF assms framing_headers(4) _ mt(2)]
  have "\<forall>f \<in> set (framing_steps C the_rx the_message the_event). gives C f [True]"
    unfolding framing_steps_def Let_def list.set ball_simps append_Cons append_Nil
    by (intro conjI TrueI message event bad_frames) simp_all
  then show ?thesis by (rule passes_list) (simp add: framing_steps_def Let_def)
qed

lemma all_reject_steps_give:
  assumes "ct_eq_decides C"
  shows "gives C (all_reject_steps C)
    ((replicate 5 True @ [\<not> tags_coincide C] @ replicate 4 True) @ replicate 6 True)"
proof -
  have "all_reject_steps C = (\<lambda>out. rbind (run_steps (reject_steps C the_base (the_wire C) the_rx) out)
      (run_steps (framing_steps C the_rx the_message the_event)))"
    by (simp add: all_reject_steps_def base_datagram_eq encode_base receiver_for_base framing_bases fun_eq_iff)
  with gives_seq [OF reject_steps_give [OF assms] framing_steps_give [OF assms, unfolded passes_def]]
  show ?thesis by (simp only:)
qed

section \<open>The remaining blocks\<close>

lemma preceding_epoch_gives:
  assumes "ct_eq_decides C"
  shows "gives C (\<lambda>out. rbind (unwrap (number_datagram HmacSha256T32 the_id (the_epoch - 1) 4096 SCALE_MIN 10))
      (\<lambda>d. accept_cross C name the_secret (the_epoch - 1) the_epoch NodeToCollector d out)) [True]"
proof -
  have "builds C (the_epoch - 1) NodeToCollector
      (number_datagram HmacSha256T32 the_id (the_epoch - 1) 4096 SCALE_MIN 10)"
    by (rule builds_number) simp_all
  then obtain d where d: "number_datagram HmacSha256T32 the_id (the_epoch - 1) 4096 SCALE_MIN 10 = Ok d"
    "sendable C (the_epoch - 1) NodeToCollector d"
    by (auto simp: builds_def)
  have "in_epoch_window the_epoch (the_epoch - 1)" by (simp add: in_epoch_window_def the_epoch_def)
  from accept_cross_gives [OF assms d(2) this] d(1) show ?thesis
    by (simp only: unwrap.simps rbind.simps)
qed

lemma epoch_boundary_steps_pass:
  assumes "ct_eq_decides C"
  shows "passes C 3 (run_steps (epoch_boundary_steps C))"
proof -
  have "\<forall>f \<in> set (epoch_boundary_steps C). gives C f [True]"
    unfolding epoch_boundary_steps_def Let_def list.set ball_simps
    by (intro conjI TrueI accept_step_gives accept_at_builds_gives preceding_epoch_gives assms
        builds_number builds_data)
      (simp_all add: record_ok_def body_ok_def record_new_def is_record_framed_def wire_len_def)
  then show ?thesis by (rule passes_list) (simp add: epoch_boundary_steps_def Let_def)
qed

lemma time_steps_pass:
  assumes "ct_eq_decides C"
  shows "passes C 4 (run_steps (time_steps C))"
proof -
  have cold: "\<not> is_ok (fst (accept_time_announce 1700000000 (1700000000 - 5) (clock_in_state ''cold'' the_epoch)))"
    by (simp add: clock_in_state_def accept_time_announce_def clockless_def the_epoch_def
        time_floor_def word_sle_eq)
  have valid: "\<not> is_ok (fst (accept_time_announce 1800000000 (1800000000 - 5) (clock_in_state ''valid'' the_epoch)))"
    by (simp add: clock_in_state_def accept_time_announce_def synced_def)
  have announce: "gives C (reject_time_announce C name the_secret the_id t state the_epoch) [True]"
    if "\<not> is_ok (fst (accept_time_announce t (t - 5) (clock_in_state state the_epoch)))"
      and "state = ''cold'' \<or> state = ''valid''" for name t state
    using reject_time_announce_verdict [OF assms length_the_secret that(2)] that(1)
    by (intro gives_one) fastforce
  have "gives C (time_request_vector C the_secret the_id) [True]"
    "gives C (time_announce_vector C the_secret the_id t) [True]" for t
    using time_request_verdict [OF assms length_the_secret] time_announce_verdict [OF assms length_the_secret]
    by (intro gives_one; fastforce simp: verdict_if_True)+
  then have "\<forall>f \<in> set (time_steps C). gives C f [True]"
    unfolding time_steps_def list.set ball_simps
    by (intro conjI TrueI announce [OF cold] announce [OF valid]) simp_all
  then show ?thesis by (rule passes_list) (simp add: time_steps_def)
qed

lemma number_vector_gives:
  assumes "is_ok (validate_number (fst p)) = (snd p = ''accept'')"
  shows "gives C (\<lambda>out. Ok (number_payload_vector p out)) [True]"
  using number_payload_verdict [of "fst p" "snd p" _ C] assms
  by (intro gives_one) auto

lemma number_payloads:
  "\<forall>p \<in> set accepted_number_payloads. is_ok (validate_number p)"
  "\<forall>p \<in> set rejected_number_payloads. \<not> is_ok (validate_number p)"
  by (simp_all add: accepted_number_payloads_def rejected_number_payloads_def validate_number_def
      scale_is_valid_def)

lemma number_steps_pass: "passes C 10 (run_steps number_steps)"
proof -
  let ?ps = "map (\<lambda>p. (p, ''accept'')) accepted_number_payloads @ map (\<lambda>p. (p, ''reject'')) rejected_number_payloads"
  have "\<forall>f \<in> set (map (\<lambda>p out. Ok (number_payload_vector p out)) ?ps). gives C f [True]"
    using number_payloads by (auto intro!: number_vector_gives)
  then have "passes C 10 (run_steps (map (\<lambda>p out. Ok (number_payload_vector p out)) ?ps))"
    by (rule passes_list) (simp add: accepted_number_payloads_def rejected_number_payloads_def)
  with gives_Cons [OF gives_print] show ?thesis
    unfolding number_steps_def passes_def by (metis append_Nil)
qed

text \<open>A batch one tick apart, whose mantissas count up.\<close>

lemma ticking_batch:
  assumes "unat t + k + n < 524288"
  shows "gaps_ok (t + of_nat k) (map (\<lambda>i. (t + of_nat (Suc i), of_nat i)) [k..<k + n])
    \<and> concat (entry_bytes (t + of_nat k) (map (\<lambda>i. (t + of_nat (Suc i), of_nat i)) [k..<k + n]))
      = concat (map (\<lambda>i. be_bytes 2 (1 :: u16) @ be_bytes 2 (of_nat i :: i16)) [k..<k + n])"
  using assms
proof (induction n arbitrary: k)
  case (Suc n)
  have ups: "[k..<k + Suc n] = k # [Suc k..<Suc k + n]" by (simp add: upt_conv_Cons)
  have u: "unat (t + of_nat k) = unat t + k" "unat (t + of_nat (Suc k)) = unat t + Suc k"
    using Suc.prems by (simp_all add: unat_word_ariths unat_of_nat del: of_nat_Suc)
  have step: "t + of_nat k < t + of_nat (Suc k)" "t + of_nat (Suc k) < TICKS_PER_EPOCH"
    using Suc.prems u by (simp_all add: word_less_nat_alt del: of_nat_Suc)
  have delta: "ucast (t + of_nat (Suc k) - (t + of_nat k)) = (1 :: u16)" by simp
  have "unat t + Suc k + n < 524288" using Suc.prems by simp
  from Suc.IH [OF this] show ?case
    unfolding ups list.map gaps_ok.simps entry_bytes.simps concat.simps delta
    using step u by (simp del: of_nat_Suc)
qed simp

lemma series_accepted:
  assumes "scale_is_valid scale" and "batch_ok rs" and "fst (hd rs) = anchor" and "p = batch_bytes scale rs"
  shows "is_ok (validate_series p anchor)"
  using assms validate_series_iff [of p anchor scale rs] by (simp add: is_ok_iff)

lemma series_step_gives:
  assumes "is_ok (validate_series p anchor) = (outcome = ''accept'')"
  shows "gives C (series_step p anchor outcome) [True]"
  using series_payload_verdict [of p anchor outcome _ C] assms
  by (intro gives_one) (auto simp: series_step_def)

lemma ticking_accepted:
  assumes "0 < n" and "n < 1000"
  shows "is_ok (validate_series (ser 0x01 0 []
    @ concat (map (\<lambda>i. be_bytes 2 (1 :: u16) @ be_bytes 2 (of_nat i :: i16)) [0..<n])) 5)"
proof (rule series_accepted)
  let ?rest = "map (\<lambda>i. (5 + of_nat (Suc i) :: u32, of_nat i :: i16)) [0..<0 + n]"
  note ticks = ticking_batch [of 5 0 n, unfolded of_nat_0 add_0_right]
  have "?rest \<noteq> []" using assms(1) by simp
  then have "batch_ok ((5, 0) # ?rest) = (5 < TICKS_PER_EPOCH \<and> gaps_ok 5 ?rest)"
    by (cases ?rest) (simp_all only: batch_ok.simps simp_thms)
  then show "batch_ok ((5, 0) # ?rest)" using ticks assms(2) by simp
  show "ser 0x01 0 [] @ concat (map (\<lambda>i. be_bytes 2 (1 :: u16) @ be_bytes 2 (of_nat i :: i16)) [0..<n])
      = batch_bytes 1 ((5, 0) # ?rest)"
    using ticks assms(2) by (simp add: ser_def del: of_nat_Suc)
qed simp_all

lemma series_payloads:
  "is_ok (validate_series (ser 0x01 0 [(1, 1)]) 5)"
  "is_ok (validate_series (ser 0x01 0 [(65535, 1)]) 5)"
  "\<not> is_ok (validate_series (ser 0x02 10 []) 4096)"
  "\<not> is_ok (validate_series (ser 0x02 10 [(1, 20)] @ [0x00]) 4096)"
  "\<not> is_ok (validate_series (ser 0x02 10 [(1, 20)] @ [0x00, 0x00]) 4096)"
  "\<not> is_ok (validate_series (ser 0x02 10 [(0, 20)]) 4096)"
  "\<not> is_ok (validate_series (ser 0x01 0 [(8, 1)]) 524280)"
  by (simp_all add: ser_def validate_series_def byte_simps subslice_def chunks.simps chunk_rest_def
      checked_add_u32_def Let_def scale_is_valid_def from_be_def)

lemma gives_print_Cons: "passes C n (run_steps fs) \<Longrightarrow> passes C n (run_steps (print_step s # fs))"
  using gives_Cons [OF gives_print] by (auto simp: passes_def simp del: run_steps.simps)

lemma series_steps_pass: "passes C 8 (run_steps series_steps)"
proof -
  have "passes C 8 (run_steps (tl (butlast series_steps)))"
    by (rule passes_list)
      (use series_payloads ticking_accepted [of 124] in
        \<open>simp_all add: series_steps_def Let_def series_step_gives del: upt_rec_numeral\<close>)
  moreover have "passes C 0 (run_steps [print_step s])" for s
    using gives_print_Cons [of C 0 "[]"] by (simp add: passes_def gives_Nil)
  ultimately have "passes C 8 (run_steps (tl (butlast series_steps) @ [print_step (println [])]))"
    using passes_append [of C 8 _ 0] by simp
  then show ?thesis
    using gives_print_Cons by (simp add: series_steps_def Let_def del: run_steps.simps upt_rec_numeral)
qed

section \<open>The file\<close>

text \<open>The verdicts of all the vectors of the file, in order.\<close>

definition file_verdicts :: "crypto \<Rightarrow> bool list" where
  "file_verdicts C = replicate 91 True @ [\<not> tags_coincide C] @ replicate 35 True"

lemma vector_steps_give:
  assumes "ct_eq_decides C"
  shows "gives C (run_steps (vector_steps C)) (file_verdicts C)"
proof -
  let ?ciphers = "concat (map (cipher_steps C) [HmacSha256T64, HmacSha256T32, SipHash24, ChaCha20Poly1305])"
  note cipher = cipher_steps_pass [OF assms]
  have ciphers: "passes C (11 + (11 + (11 + 11))) (run_steps ?ciphers)"
    unfolding list.map concat.simps append_Nil2 by (intro passes_append cipher)
  have accepts: "passes C (44 + (9 + (31 + 2))) (run_steps (?ciphers @ boundary_steps C
      @ map (reserved_step C) (map of_nat [1..<32]) @ nonce_steps C))"
    by (intro passes_append boundary_steps_pass reserved_steps_pass nonce_steps_pass assms)
      (use ciphers in simp)
  have rejects: "gives C (run_steps [all_reject_steps C])
      ((replicate 5 True @ [\<not> tags_coincide C] @ replicate 4 True) @ replicate 6 True)"
    using gives_Cons [OF all_reject_steps_give [OF assms] gives_Nil] by (simp only: append_Nil2)
  have rest: "passes C (3 + (8 + (4 + 10))) (run_steps (epoch_boundary_steps C @ series_steps
      @ time_steps C @ number_steps))"
    by (intro passes_append epoch_boundary_steps_pass series_steps_pass time_steps_pass number_steps_pass assms)
  have "gives C (run_steps ((?ciphers @ boundary_steps C @ map (reserved_step C) (map of_nat [1..<32])
      @ nonce_steps C) @ [all_reject_steps C] @ (epoch_boundary_steps C @ series_steps @ time_steps C @ number_steps)))
      (replicate 86 True @ ((replicate 5 True @ [\<not> tags_coincide C] @ replicate 4 True) @ replicate 6 True)
       @ replicate 25 True)"
    by (intro gives_append rejects) (use accepts rest in \<open>simp_all add: passes_def\<close>)
  then have "gives C (run_steps (vector_steps C))
      (replicate 86 True @ ((replicate 5 True @ [\<not> tags_coincide C] @ replicate 4 True) @ replicate 6 True)
       @ replicate 25 True)"
    using gives_Cons [OF gives_print]
    by (simp only: vector_steps_def append.assoc append_Cons append_Nil)
  moreover have "file_verdicts C = replicate 86 True
      @ ((replicate 5 True @ [\<not> tags_coincide C] @ replicate 4 True) @ replicate 6 True) @ replicate 25 True"
    by (simp add: file_verdicts_def numeral_eq_Suc)
  ultimately show ?thesis by (simp only:)
qed

lemma vectors_main_verdicts:
  assumes "ct_eq_decides C"
  shows "\<exists>stdout vs. vectors_main C = Ok (stdout, json_write vs)
    \<and> map (verdict_line C) vs = map verdict_if (file_verdicts C)"
  using vector_steps_give [OF assms] by (fastforce simp: gives_def vectors_main_def)

section \<open>Properties\<close>

text \<open>C16: The generator of the frozen vectors runs to completion and the implementation under test passes its
  file: of the 127 vectors every one gets PASS, read back from its JSON line, except that the
  cipher-mismatch vector's verdict rests on a MAC coincidence: it fails exactly when the SipHash
  tag of the altered datagram equals the HMAC tag it carries.\<close>

theorem vectors_file_passes:
  assumes "ct_eq_decides C"
  shows "\<exists>stdout vs. vectors_main C = Ok (stdout, json_write vs) \<and> length vs = 127
    \<and> map (verdict_line C) vs = replicate 91 (Ok PASS)
        @ [Ok (if tags_coincide C then FAIL else PASS)] @ replicate 35 (Ok PASS)"
proof -
  obtain stdout vs where main: "vectors_main C = Ok (stdout, json_write vs)"
    and verdicts: "map (verdict_line C) vs = map verdict_if (file_verdicts C)"
    using vectors_main_verdicts [OF assms] by blast
  have "map (verdict_line C) vs = replicate 91 (Ok PASS)
      @ [Ok (if tags_coincide C then FAIL else PASS)] @ replicate 35 (Ok PASS)"
    unfolding verdicts file_verdicts_def map_append map_replicate by (simp add: verdict_if_def)
  moreover from arg_cong [OF this, of length] have "length vs = 127" by simp
  ultimately show ?thesis using main by blast
qed

theorem vectors_file_passes_witness:
  "\<exists>stdout vs. vectors_main demo_crypto = Ok (stdout, json_write vs) \<and> length vs = 127"
  using vectors_file_passes [OF demo_crypto_ct_eq] by blast

end
