(* ===== verification/Catp_Display.thy ===== *)
theory Catp_Display
  imports Complex_Main Catp_Utf8 Catp_Types "HOL-Library.Log_Nat"
begin

text \<open>
  The number formatting the programs print with: \<open>format_scaled\<close> of \<open>src/lib.rs\<close>, which divides in
  \<open>f64\<close>, the \<open>f32\<close> divisions of the tools, and the width and hex directives of their format strings.
  A finite float is the rational number it stands for; an operation rounds its exact result to the
  nearest number with \<open>p\<close> significant bits, ties to even. Exponents stay far from the ends of their
  ranges and no result is a negative zero.
\<close>

section \<open>Rounding\<close>

definition round_even :: "rat \<Rightarrow> int" where
  "round_even q =
     (let f = \<lfloor>q\<rfloor>; r = q - of_int f in
      if r < 1 / 2 then f else if 1 / 2 < r then f + 1 else if even f then f else f + 1)"

text \<open>The exponent of the power of two at or below a positive number.\<close>

definition binade :: "rat \<Rightarrow> int" where
  "binade x =
     (case quotient_of x of (a, b) \<Rightarrow>
        let d = bitlen a - bitlen b in if 2 powi d \<le> x then d else d - 1)"

definition fp_round :: "nat \<Rightarrow> rat \<Rightarrow> rat" where
  "fp_round p x =
     (if x = 0 then 0
      else let u = 2 powi (binade \<bar>x\<bar> - int p + 1) in sgn x * of_int (round_even (\<bar>x\<bar> / u)) * u)"

definition f64 :: "rat \<Rightarrow> rat" where "f64 = fp_round 53"
definition f32 :: "rat \<Rightarrow> rat" where "f32 = fp_round 24"

section \<open>Fixed decimals\<close>

text \<open>\<open>{:>w}\<close>, \<open>{:<w}\<close>, \<open>{:02X}\<close>.\<close>

definition pad_left :: "nat \<Rightarrow> ustr \<Rightarrow> ustr" where
  "pad_left w s = replicate (w - length s) 32 @ s"

definition pad_right :: "nat \<Rightarrow> ustr \<Rightarrow> ustr" where
  "pad_right w s = s @ replicate (w - length s) 32"

definition hex_digit_upper :: "nat \<Rightarrow> nat" where
  "hex_digit_upper d = (if d < 10 then 48 + d else 55 + d)"

definition hex2_upper :: "u8 \<Rightarrow> ustr" where
  "hex2_upper b = [hex_digit_upper (unat b div 16), hex_digit_upper (unat b mod 16)]"

text \<open>\<open>{:0w}\<close>, and \<open>{:.prec}\<close> of a finite float.\<close>

definition pad_zeros :: "nat \<Rightarrow> nat \<Rightarrow> ustr" where
  "pad_zeros w n = replicate (w - length (dec n)) 48 @ dec n"

definition display_fixed :: "nat \<Rightarrow> rat \<Rightarrow> ustr" where
  "display_fixed prec x =
     (let n = nat (round_even (\<bar>x\<bar> * 10 ^ prec)) in
      (if x < 0 then [45] else []) @ dec (n div 10 ^ prec)
      @ (if prec = 0 then [] else 46 # pad_zeros prec (n mod 10 ^ prec)))"

text \<open>\<open>for _ in 0..scale { divisor *= 10.0 }\<close>\<close>

primrec scaled_divisor :: "nat \<Rightarrow> rat" where
  "scaled_divisor 0 = 1"
| "scaled_divisor (Suc n) = f64 (scaled_divisor n * 10)"

definition format_scaled :: "u8 \<Rightarrow> i16 \<Rightarrow> ustr" where
  "format_scaled scale mantissa =
     (let divisor = scaled_divisor (unat scale) in
      display_fixed (unat scale) (f64 (f64 (of_int (sint mantissa)) / divisor)))"

section \<open>The rounding error\<close>

lemma round_even_error: "\<bar>of_int (round_even q) - q\<bar> \<le> 1 / 2"
proof -
  have "of_int \<lfloor>q\<rfloor> \<le> q" "q < of_int \<lfloor>q\<rfloor> + 1" by linarith+
  then show ?thesis unfolding round_even_def Let_def by (simp add: abs_if) linarith
qed

lemma round_even_near:
  assumes "\<bar>q - of_int n\<bar> < 1 / 2"
  shows "round_even q = n"
proof -
  have "\<bar>of_int (round_even q) - of_int n\<bar> < (1 :: rat)" using round_even_error [of q] assms by linarith
  then have "\<bar>of_int (round_even q - n)\<bar> < (1 :: rat)" by simp
  then show ?thesis by linarith
qed

lemma binade_bounds:
  assumes "0 < x"
  shows "2 powi binade x \<le> x" and "x < 2 powi (binade x + 1)"
proof -
  obtain a b where q: "quotient_of x = (a, b)" by fastforce
  have b: "0 < b" using quotient_of_denom_pos [OF q] .
  have x: "x = of_int a / of_int b" by (rule quotient_of_div [OF q])
  then have a: "0 < a" using assms b by (simp add: zero_less_divide_iff)
  let ?la = "bitlen a" and ?lb = "bitlen b"
  have l: "1 \<le> ?la" "1 \<le> ?lb" using a b bitlen_eq_zero_iff [of a] bitlen_eq_zero_iff [of b]
      bitlen_nonneg [of a] bitlen_nonneg [of b] by linarith+
  have pow: "of_int (2 ^ nat k) = (2 powi k :: rat)" if "0 \<le> k" for k :: int
    using that by (simp add: power_int_def)
  have A: "2 powi (?la - 1) \<le> (of_int a :: rat)" "(of_int a :: rat) < 2 powi ?la"
    using bitlen_bounds [OF a] l pow [of "?la - 1"] pow [of ?la] by (metis diff_ge_0_iff_ge of_int_le_iff of_int_less_iff order_trans zero_le_one)+
  have B: "2 powi (?lb - 1) \<le> (of_int b :: rat)" "(of_int b :: rat) < 2 powi ?lb"
    using bitlen_bounds [OF b] l pow [of "?lb - 1"] pow [of ?lb] by (metis diff_ge_0_iff_ge of_int_le_iff of_int_less_iff order_trans zero_le_one)+
  have up: "x < 2 powi (?la - ?lb + 1)"
  proof -
    have "x < 2 powi ?la / of_int b" using A(2) b by (simp add: x divide_strict_right_mono)
    also have "\<dots> \<le> 2 powi ?la / 2 powi (?lb - 1)" using B(1) by (intro divide_left_mono) (simp_all add: b)
    also have "\<dots> = 2 powi (?la - (?lb - 1))" by (simp add: power_int_diff)
    finally show ?thesis by (simp add: algebra_simps)
  qed
  have low: "2 powi (?la - ?lb - 1) \<le> x"
  proof -
    have "2 powi (?la - ?lb - 1) = 2 powi (?la - 1) / (2 powi ?lb :: rat)"
      by (simp add: power_int_diff)
    also have "\<dots> \<le> 2 powi (?la - 1) / of_int b" using B(2) b by (intro divide_left_mono) simp_all
    also have "\<dots> \<le> x" using A(1) b by (simp add: x divide_right_mono)
    finally show ?thesis .
  qed
  show "2 powi binade x \<le> x" "x < 2 powi (binade x + 1)"
    using up low by (auto simp: binade_def q Let_def algebra_simps not_le)
qed

lemma fp_round_error: "\<bar>fp_round p x - x\<bar> \<le> \<bar>x\<bar> / 2 ^ p"
proof (cases "x = 0")
  case False
  let ?e = "binade \<bar>x\<bar>"
  let ?u = "2 powi (?e - int p + 1) :: rat"
  have u: "0 < ?u" by simp
  have "sgn x * \<bar>x\<bar> = x" by (simp add: mult_sgn_abs)
  then have "fp_round p x - x = sgn x * ((of_int (round_even (\<bar>x\<bar> / ?u)) - \<bar>x\<bar> / ?u) * ?u)"
    using False by (simp add: fp_round_def Let_def algebra_simps)
  then have "\<bar>fp_round p x - x\<bar> = \<bar>of_int (round_even (\<bar>x\<bar> / ?u)) - \<bar>x\<bar> / ?u\<bar> * ?u"
    using False by (simp add: abs_mult abs_sgn_eq)
  also have "\<dots> \<le> 1 / 2 * ?u" using round_even_error u by (intro mult_right_mono) simp_all
  also have "\<dots> = 2 powi ?e / 2 ^ p"
    by (simp add: power_int_add power_int_diff)
  also have "\<dots> \<le> \<bar>x\<bar> / 2 ^ p" using binade_bounds(1) [of "\<bar>x\<bar>"] False by (intro divide_right_mono) simp_all
  finally show ?thesis .
qed (simp add: fp_round_def)

text \<open>Integers of at most \<open>p\<close> bits are exact.\<close>

lemma fp_round_int:
  assumes "\<bar>i\<bar> < 2 ^ p"
  shows "fp_round p (of_int i) = of_int i"
proof (cases "i = 0")
  case False
  let ?x = "\<bar>of_int i\<bar> :: rat"
  let ?e = "binade ?x"
  have x: "0 < ?x" using False by simp
  have "2 powi ?e < (2 powi int p :: rat)"
  proof -
    have "of_int \<bar>i\<bar> < (of_int (2 ^ p) :: rat)" using assms by (simp only: of_int_less_iff)
    then have "?x < 2 powi int p" by simp
    with binade_bounds(1) [OF x] show ?thesis by simp
  qed
  then have e: "?e < int p" using power_int_increasing [of "int p" ?e "2 :: rat"] by fastforce
  define k where "k = nat (int p - 1 - ?e)"
  have u: "2 powi (?e - int p + 1) = (1 / 2 ^ k :: rat)"
  proof -
    have "?e - int p + 1 = - int k" using e by (simp add: k_def)
    then show ?thesis by (simp add: power_int_minus divide_inverse)
  qed
  have r: "round_even (?x * 2 ^ k) = \<bar>i\<bar> * 2 ^ k"
    by (intro round_even_near) simp
  have "sgn (of_int i) * ?x = (of_int i :: rat)" by (simp add: mult_sgn_abs)
  then have s: "sgn (of_int i) * of_int (\<bar>i\<bar> * 2 ^ k) * (1 / 2 ^ k) = (of_int i :: rat)" by simp
  have "fp_round p (of_int i) = sgn (of_int i) * of_int (round_even (?x / (1 / 2 ^ k))) * (1 / 2 ^ k)"
    using False by (simp only: fp_round_def u Let_def of_int_eq_0_iff if_False)
  also have "?x / (1 / 2 ^ k) = ?x * 2 ^ k" by simp
  finally show ?thesis using s by (simp only: r)
qed (simp add: fp_round_def)

section \<open>Exact decimals\<close>

text \<open>The number \<open>m * 10 ^ - s\<close> in decimal, by integer arithmetic.\<close>

definition decimal :: "nat \<Rightarrow> int \<Rightarrow> ustr" where
  "decimal s m =
     (let n = nat \<bar>m\<bar> in
      (if m < 0 then [45] else []) @ dec (n div 10 ^ s)
      @ (if s = 0 then [] else 46 # pad_zeros s (n mod 10 ^ s)))"

lemma display_fixed_near:
  assumes "\<bar>x * 10 ^ s - of_int m\<bar> < 1 / 2" and "x < 0 \<longleftrightarrow> m < 0"
  shows "display_fixed s x = decimal s m"
proof -
  have "\<bar>\<bar>x\<bar> * 10 ^ s - of_int \<bar>m\<bar>\<bar> < 1 / 2"
  proof (cases "m < 0")
    case True
    with assms(2) have "\<bar>x\<bar> * 10 ^ s - of_int \<bar>m\<bar> = - (x * 10 ^ s - of_int m)" by (simp add: abs_if)
    with assms(1) show ?thesis by (simp only: abs_minus_cancel)
  next
    case False
    with assms show ?thesis by (simp add: abs_if)
  qed
  then have "round_even (\<bar>x\<bar> * 10 ^ s) = \<bar>m\<bar>" by (rule round_even_near)
  with assms(2) show ?thesis by (simp add: display_fixed_def decimal_def Let_def)
qed

lemma near_sign:
  fixes x y :: rat
  assumes "\<bar>y - x\<bar> \<le> \<bar>x\<bar> / 2"
  shows "y < 0 \<longleftrightarrow> x < 0"
  using assms by arith

text \<open>One rounded division of a small integer by a power of ten displays exactly.\<close>

lemma display_division:
  assumes "\<bar>m\<bar> * 2 < 2 ^ p" and "0 < p"
  shows "display_fixed s (fp_round p (of_int m / 10 ^ s)) = decimal s m"
proof (rule display_fixed_near)
  let ?x = "of_int m / 10 ^ s :: rat" and ?y = "fp_round p (of_int m / 10 ^ s)"
  have err: "\<bar>?y - ?x\<bar> \<le> \<bar>?x\<bar> / 2 ^ p" by (rule fp_round_error)
  have small: "\<bar>of_int m\<bar> / 2 ^ p < (1 / 2 :: rat)"
  proof -
    have "of_int (\<bar>m\<bar> * 2) < (of_int (2 ^ p) :: rat)" using assms(1) by (simp only: of_int_less_iff)
    then show ?thesis by (simp add: divide_simps)
  qed
  have "?y * 10 ^ s - of_int m = (?y - ?x) * 10 ^ s" by (simp add: left_diff_distrib)
  then have "\<bar>?y * 10 ^ s - of_int m\<bar> = \<bar>?y - ?x\<bar> * 10 ^ s" by (simp add: abs_mult)
  also have "\<dots> \<le> \<bar>?x\<bar> / 2 ^ p * 10 ^ s" using err by (intro mult_right_mono) simp_all
  also have "\<dots> = \<bar>of_int m\<bar> / 2 ^ p" by (simp add: abs_divide)
  finally show "\<bar>?y * 10 ^ s - of_int m\<bar> < 1 / 2" using small by linarith
  have "(2 :: rat) ^ 1 \<le> 2 ^ p" using assms(2) by (intro power_increasing) simp_all
  then have "\<bar>?x\<bar> / 2 ^ p \<le> \<bar>?x\<bar> / 2" by (intro divide_left_mono) simp_all
  with err have near: "\<bar>?y - ?x\<bar> \<le> \<bar>?x\<bar> / 2" by linarith
  have "?x < 0 \<longleftrightarrow> m < 0" by (simp add: divide_less_0_iff)
  moreover have "?y < 0 \<longleftrightarrow> ?x < 0" using near by (rule near_sign)
  ultimately show "?y < 0 \<longleftrightarrow> m < 0" by simp
qed

lemma scaled_divisor_exact: "n \<le> 15 \<Longrightarrow> scaled_divisor n = 10 ^ n"
proof (induction n)
  case (Suc n)
  have "(10 :: int) ^ Suc n \<le> 10 ^ 15" using Suc.prems by (intro power_increasing) simp_all
  then have "\<bar>(10 :: int) ^ Suc n\<bar> < 2 ^ 53" by simp
  then have "f64 (of_int (10 ^ Suc n)) = of_int (10 ^ Suc n)" unfolding f64_def by (rule fp_round_int)
  with Suc show ?case by (simp add: mult.commute)
qed simp

lemma format_scaled_decimal:
  assumes "unat scale \<le> 15"
  shows "format_scaled scale m = decimal (unat scale) (sint m)"
proof -
  have m: "\<bar>sint m\<bar> * 2 < 2 ^ 53" using sint_greater_eq [of m] sint_less [of m] by simp
  then have "f64 (of_int (sint m)) = of_int (sint m)" unfolding f64_def by (intro fp_round_int) simp
  with display_division [OF m, of "unat scale"] show ?thesis
    by (simp add: format_scaled_def scaled_divisor_exact [OF assms] f64_def)
qed

section \<open>Lengths and characters\<close>

definition printable :: "ustr \<Rightarrow> bool" where
  "printable s \<longleftrightarrow> list_all (\<lambda>c. 32 \<le> c \<and> c \<le> 126) s"

lemma printable_simps [simp]:
  "printable []" "printable (c # s) \<longleftrightarrow> 32 \<le> c \<and> c \<le> 126 \<and> printable s"
  "printable (s @ t) \<longleftrightarrow> printable s \<and> printable t"
  "printable (replicate n 32)" "printable (replicate n 48)"
  by (auto simp: printable_def list_all_iff)

lemma printable_lit: "printable (lit s) \<longleftrightarrow> list_all (\<lambda>c. 32 \<le> (of_char c :: nat) \<and> of_char c \<le> (126 :: nat)) s"
  by (simp add: printable_def lit_def list_all_iff)

lemma printable_dec [simp]: "printable (dec n)"
  unfolding printable_def list_all_iff using dec_digits by fastforce

lemma printable_numbers [simp]:
  "printable (dec_int i)" "printable (pad_zeros w n)" "printable (display_fixed prec x)"
  "printable (format_scaled scale m)"
  by (simp_all add: dec_int_def pad_zeros_def display_fixed_def format_scaled_def Let_def)

lemma printable_pad [simp]:
  "printable (pad_left w s) \<longleftrightarrow> printable s" "printable (pad_right w s) \<longleftrightarrow> printable s"
  by (simp_all add: pad_left_def pad_right_def)

lemma printable_ascii: "printable s \<Longrightarrow> \<forall>c \<in> set s. c < 128"
  by (auto simp: printable_def list_all_iff)

lemma as_bytes_printable: "printable s \<Longrightarrow> as_bytes s = map byte s"
  by (intro as_bytes_ascii printable_ascii)

lemma length_dec: "n < 10 ^ k \<Longrightarrow> 0 < k \<Longrightarrow> length (dec n) \<le> k"
proof (induction k arbitrary: n)
  case (Suc k)
  show ?case
  proof (cases "n < 10")
    case True
    then show ?thesis by (subst dec.simps) simp
  next
    case False
    then have "0 < k" using Suc.prems by (cases k) auto
    moreover have "n div 10 < 10 ^ k" using Suc.prems by (simp add: div_less_iff_less_mult mult.commute)
    ultimately have "length (dec (n div 10)) \<le> k" by (intro Suc.IH)
    with False show ?thesis by (subst dec.simps) simp
  qed
qed simp

lemma length_pad_zeros: "n < 10 ^ w \<Longrightarrow> 0 < w \<Longrightarrow> length (pad_zeros w n) = w"
  using length_dec [of n w] by (simp add: pad_zeros_def)

lemma length_decimal:
  assumes "\<bar>m\<bar> < 10 ^ 5"
  shows "length (decimal s m) \<le> s + 7"
proof -
  have "nat \<bar>m\<bar> div 10 ^ s \<le> nat \<bar>m\<bar>" by simp
  also have "\<dots> < 10 ^ 5" using assms by simp
  finally have "length (dec (nat \<bar>m\<bar> div 10 ^ s)) \<le> 5" by (rule length_dec) simp
  moreover have "length (pad_zeros s (nat \<bar>m\<bar> mod 10 ^ s)) = s" if "s \<noteq> 0"
    using that by (intro length_pad_zeros) simp_all
  moreover have "length (decimal s m) = (if m < 0 then 1 else 0)
      + length (dec (nat \<bar>m\<bar> div 10 ^ s)) + (if s = 0 then 0 else Suc (length (pad_zeros s (nat \<bar>m\<bar> mod 10 ^ s))))"
    by (simp add: decimal_def Let_def)
  ultimately show ?thesis by (cases "s = 0") (simp_all split: if_splits)
qed

section \<open>Properties\<close>

text \<open>C13: \<open>format_scaled\<close> computes in binary floating point and yet displays exactly: for each of the seven
  scales and every mantissa it prints the decimal number \<open>mantissa * 10 ^ - scale\<close> with \<open>scale\<close> decimals,
  as integer arithmetic does.\<close>

theorem format_scaled_exact:
  assumes "scale_is_valid scale"
  shows "format_scaled scale m = decimal (unat scale) (sint m)"
proof (rule format_scaled_decimal)
  have "scale \<le> 7" using assms by (simp add: scale_is_valid_def)
  then show "unat scale \<le> 15" by (simp add: word_le_nat_alt)
qed

theorem format_scaled_exact_witness: "format_scaled 2 2350 = lit ''23.50''"
proof -
  have "scale_is_valid 2" by (simp add: scale_is_valid_def)
  from format_scaled_exact [OF this, of 2350] show ?thesis
    by (simp add: decimal_def dec.simps pad_zeros_def lit_def)
qed

end
