(* ===== verification/Catp_Sender.thy ===== *)
theory Catp_Sender
  imports Catp_Display Catp_Decode
begin

text \<open>
  The demonstration sender, \<open>tools/src/bin/sender.rs\<close>: synthetic readings, the five datagrams it
  builds from them, and its main loop as a step on the pacer, the sequence number and the count of
  shed ticks. The clock reading and the outcome of \<open>send_to\<close> are the input of a step.
\<close>

section \<open>Constants\<close>

definition SENDER_ID :: u32 where "SENDER_ID = 0x1234"
definition SECRET :: device_secret where "SECRET = replicate 32 0x5A"
definition CIPHER :: cipher_id where "CIPHER = HmacSha256T32"
definition SENSOR_SCHEMA :: u8 where "SENSOR_SCHEMA = 1"
definition EVENT_SCHEMA :: u8 where "EVENT_SCHEMA = 2"
definition ALARM_SCHEMA :: u8 where "ALARM_SCHEMA = 3"
definition SENSOR_SCALE :: u8 where "SENSOR_SCALE = 2"
definition UNSTRUCTURED :: u8 where "UNSTRUCTURED = SCHEMA_UNSTRUCTURED"

lemmas sender_consts =
  SENDER_ID_def CIPHER_def SENSOR_SCHEMA_def EVENT_SCHEMA_def ALARM_SCHEMA_def SENSOR_SCALE_def
  UNSTRUCTURED_def SCHEMA_UNSTRUCTURED_def

datatype message_kind = KMessage | KNumber | KSeries | KEvent | KAlarm

primrec kind_name :: "message_kind \<Rightarrow> ustr" where
  "kind_name KMessage = lit ''MESSAGE''"
| "kind_name KNumber = lit ''NUMBER ''"
| "kind_name KSeries = lit ''SERIES ''"
| "kind_name KEvent = lit ''EVENT  ''"
| "kind_name KAlarm = lit ''ALERT  ''"

section \<open>Synthetic readings\<close>

definition mix :: "u32 \<Rightarrow> u32" where
  "mix x =
     (let x = x XOR drop_bit 16 x;
          x = x * 0x7FEB352D;
          x = x XOR drop_bit 15 x;
          x = x * 0x846CA68B
      in x XOR drop_bit 16 x)"

definition choose_kind :: "u32 \<Rightarrow> message_kind" where
  "choose_kind seq =
     (let k = mix seq mod 16 in
      if k \<le> 6 then KMessage else if k \<le> 9 then KNumber else if k \<le> 11 then KSeries
      else if k \<le> 13 then KEvent else KAlarm)"

text \<open>Temperature, humidity, pressure, battery, signal.\<close>

type_synonym sensor = "i16 \<times> u16 \<times> u16 \<times> u16 \<times> i16"

definition sensor_values :: "u32 \<Rightarrow> sensor" where
  "sensor_values seq =
     (let r1 = mix seq;
          r2 = mix (seq + 0x1000);
          r3 = mix (seq + 0x2000);
          r4 = mix (seq + 0x3000);
          temp = 1500 + ucast (r1 mod 1500);
          humidity = 350 + ucast (r2 mod 550);
          pressure = 9800 + ucast (r3 mod 600);
          battery = 20 + ucast (r4 mod 80);
          signal = - 95 + ucast (mix (seq XOR 0xA5A5A5A5) mod 50)
      in (temp, humidity, pressure, battery, signal))"

text \<open>\<open>v as f32 / d\<close> with \<open>prec\<close> decimals, for a signed and an unsigned value.\<close>

definition show_i16 :: "nat \<Rightarrow> i16 \<Rightarrow> rat \<Rightarrow> ustr" where
  "show_i16 prec v d = display_fixed prec (f32 (f32 (of_int (sint v)) / d))"

definition show_u16 :: "nat \<Rightarrow> u16 \<Rightarrow> rat \<Rightarrow> ustr" where
  "show_u16 prec v d = display_fixed prec (f32 (f32 (of_nat (unat v)) / d))"

definition reading_text :: "sensor \<Rightarrow> ustr" where
  "reading_text v =
     (case v of (temp, humidity, pressure, battery, signal) \<Rightarrow>
        lit ''temp='' @ show_i16 2 temp 100 @ lit ''C humidity='' @ show_u16 1 humidity 10
        @ lit ''% pressure='' @ show_u16 1 pressure 10 @ lit ''hPa battery='' @ dec (unat battery)
        @ lit ''% rssi='' @ dec_int (sint signal) @ lit ''dBm'')"

section \<open>Datagrams\<close>

definition sensor_bytes :: "sensor \<Rightarrow> bytes" where
  "sensor_bytes v =
     (case v of (temp, humidity, pressure, battery, signal) \<Rightarrow>
        be_bytes 2 temp @ be_bytes 2 humidity @ be_bytes 2 pressure @ be_bytes 2 battery
        @ be_bytes 2 signal)"

definition make_records :: "u32 \<Rightarrow> catp_record list" where
  "make_records seq =
     (let values = sensor_values seq in
      [record_new FmtNone SENSOR_SCHEMA (sensor_bytes values),
       record_new FmtNone UNSTRUCTURED (as_bytes (reading_text values))])"

definition make_number :: "u32 \<Rightarrow> u8 \<times> i16" where
  "make_number seq = (case sensor_values seq of (temp, _) \<Rightarrow> (SENSOR_SCALE, temp))"

definition make_readings :: "u32 \<Rightarrow> u32 \<Rightarrow> (u32 \<times> i16) list" where
  "make_readings seq offset =
     map (\<lambda>i. case sensor_values (seq + i) of (temp, _) \<Rightarrow> (offset + i * 200, temp)) [0, 1, 2]"

definition event_payload :: "u32 \<Rightarrow> ustr" where
  "event_payload seq =
     (let k = mix seq mod 10 in
      if k = 0 then lit ''boot''
      else if k = 1 then lit ''sensor_attached''
      else if k = 2 then lit ''sensor_detached''
      else if k = 3 then lit ''configuration_changed''
      else if k = 4 then lit ''network_up''
      else if k = 5 then lit ''network_down''
      else if k = 6 then lit ''time_synchronized''
      else if k = 7 then lit ''battery_recovered''
      else if k = 8 then lit ''maintenance_started''
      else lit ''maintenance_finished'')"

definition alarm_payload :: "u32 \<Rightarrow> ustr \<times> ustr" where
  "alarm_payload seq =
     (let k = mix seq mod 12 in
      if k = 0 then (lit ''INFO'', lit ''battery_recovered'')
      else if k = 1 then (lit ''INFO'', lit ''signal_restored'')
      else if k = 2 then (lit ''NOTICE'', lit ''sensor_reconnected'')
      else if k = 3 then (lit ''NOTICE'', lit ''clock_drift_detected'')
      else if k = 4 then (lit ''WARNING'', lit ''battery_low'')
      else if k = 5 then (lit ''WARNING'', lit ''signal_degraded'')
      else if k = 6 then (lit ''WARNING'', lit ''temperature_high'')
      else if k = 7 then (lit ''WARNING'', lit ''sensor_stale'')
      else if k = 8 then (lit ''CRITICAL'', lit ''battery_critical'')
      else if k = 9 then (lit ''CRITICAL'', lit ''temperature_critical'')
      else if k = 10 then (lit ''CRITICAL'', lit ''sensor_failure'')
      else (lit ''CRITICAL'', lit ''collector_unreachable''))"

definition event_body :: "u32 \<Rightarrow> bytes" where
  "event_body seq = be_bytes 2 (ucast seq :: u16) @ as_bytes (event_payload seq)"

definition alarm_body :: "u32 \<Rightarrow> bytes" where
  "alarm_body seq =
     (case alarm_payload seq of (severity, message) \<Rightarrow>
        be_bytes 2 (ucast seq :: u16) @ [of_nat (length (as_bytes severity))]
        @ as_bytes severity @ as_bytes message)"

definition make_datagram ::
  "message_kind \<Rightarrow> u32 \<Rightarrow> u32 \<Rightarrow> u32 \<Rightarrow> (datagram, error) result" where
  "make_datagram kind seq epoch offset =
     (case kind of
        KMessage \<Rightarrow> data_datagram Message CIPHER SENDER_ID epoch offset (make_records seq)
      | KNumber \<Rightarrow>
          (case make_number seq of (scale, mantissa) \<Rightarrow>
             number_datagram CIPHER SENDER_ID epoch offset scale mantissa)
      | KSeries \<Rightarrow> series_datagram CIPHER SENDER_ID epoch SENSOR_SCALE (make_readings seq offset)
      | KEvent \<Rightarrow>
          data_datagram Event CIPHER SENDER_ID epoch offset
            [record_new FmtNone EVENT_SCHEMA (event_body seq)]
      | KAlarm \<Rightarrow>
          data_datagram Alarm CIPHER SENDER_ID epoch offset
            [record_new FmtNone ALARM_SCHEMA (alarm_body seq)])"

section \<open>The main loop\<close>

definition join_with :: "ustr \<Rightarrow> ustr list \<Rightarrow> ustr" where
  "join_with sep ss = (case ss of [] \<Rightarrow> [] | s # ss \<Rightarrow> s @ concat (map (\<lambda>t. sep @ t) ss))"

definition sent_detail :: "message_kind \<Rightarrow> u32 \<Rightarrow> u32 \<Rightarrow> ustr" where
  "sent_detail kind seq offset =
     (case kind of
        KMessage \<Rightarrow>
          lit ''records=2 (v'' @ dec (unat SENSOR_SCHEMA) @ lit '' structured + v''
          @ dec (unat UNSTRUCTURED) @ lit '' unstructured) '' @ reading_text (sensor_values seq)
      | KNumber \<Rightarrow>
          (case make_number seq of (scale, mantissa) \<Rightarrow> lit ''value='' @ format_scaled scale mantissa)
      | KSeries \<Rightarrow>
          (let readings = make_readings seq offset;
               values = map (\<lambda>(_, m). format_scaled SENSOR_SCALE m) readings
           in lit ''readings='' @ dec (length readings) @ lit '' values=['' @ join_with (lit '', '') values
              @ lit '']'')
      | KEvent \<Rightarrow> lit ''event='' @ event_payload seq
      | KAlarm \<Rightarrow>
          (case alarm_payload seq of (severity, message) \<Rightarrow>
             lit ''severity='' @ severity @ lit '' alarm='' @ message))"

record sender_state =
  sn_pacer :: pacer
  sn_seq :: u32
  sn_shed :: u64

definition sender_start :: sender_state where
  "sender_start = \<lparr>sn_pacer = pacer_new, sn_seq = 0, sn_shed = 0\<rparr>"

definition sent_line :: "message_kind \<Rightarrow> u32 \<Rightarrow> u32 \<Rightarrow> nat \<Rightarrow> sender_state \<Rightarrow> ustr" where
  "sent_line kind epoch offset len st =
     lit ''sent '' @ kind_name kind @ lit '' epoch='' @ dec (unat epoch)
     @ lit '' offset='' @ dec (unat offset) @ lit '' bytes='' @ dec len
     @ lit '' seq='' @ dec (unat (sn_seq st)) @ lit '' '' @ sent_detail kind (sn_seq st) offset
     @ lit '' shed='' @ dec (unat (sn_shed st))"

text \<open>
  One turn of the loop: the tick is shed, construction or encoding fails with a message, the send
  fails and the program ends, or the datagram is sent and a line printed.
\<close>

datatype sender_event =
  Shed | NoDatagram error | NoEncoding error | SendFailed bytes | Sent bytes ustr

definition sender_step ::
  "crypto \<Rightarrow> sender_state \<Rightarrow> u64 \<Rightarrow> u32 \<Rightarrow> bool \<Rightarrow> (sender_event, unit) result \<times> sender_state" where
  "sender_step C st secs nanos send_ok =
     (case claim (sn_pacer st) secs nanos of
        (Err e, p) \<Rightarrow> (Ok Shed, st\<lparr>sn_pacer := p, sn_shed := sn_shed st + 1\<rparr>)
      | (Panic, p) \<Rightarrow> (Panic, st\<lparr>sn_pacer := p\<rparr>)
      | (Ok (epoch, offset), p) \<Rightarrow>
          (let seq = sn_seq st + 1;
               st = st\<lparr>sn_pacer := p, sn_seq := seq\<rparr>;
               kind = choose_kind seq
           in case make_datagram kind seq epoch offset of
                Err e \<Rightarrow> (Ok (NoDatagram e), st)
              | Panic \<Rightarrow> (Panic, st)
              | Ok dg \<Rightarrow>
                  (case encode C dg SECRET epoch NodeToCollector MAX_DATAGRAM_IPV4 of
                     Err e \<Rightarrow> (Ok (NoEncoding e), st)
                   | Panic \<Rightarrow> (Panic, st)
                   | Ok wire \<Rightarrow>
                       if send_ok
                       then (Ok (Sent wire (sent_line kind epoch offset (length wire) st)), st)
                       else (Ok (SendFailed wire), st))))"

text \<open>The pause after a turn, in milliseconds, from the rate argument.\<close>

definition rate_hz :: "ustr option \<Rightarrow> (u64, unit) result" where
  "rate_hz arg =
     (case arg of
        None \<Rightarrow> Ok 4
      | Some s \<Rightarrow> (case from_str_radix 10 64 s of Some n \<Rightarrow> Ok (of_nat n) | None \<Rightarrow> Err ()))"

definition pause_ms :: "u64 \<Rightarrow> u64" where
  "pause_ms rate = 1000 div max rate 1"

section \<open>What is sent\<close>

text \<open>The texts are printable, and the \<open>f32\<close> divisions display exactly.\<close>

lemma show_i16_decimal: "d = 10 ^ prec \<Longrightarrow> show_i16 prec v d = decimal prec (sint v)"
proof -
  have m: "\<bar>sint v\<bar> * 2 < 2 ^ 24" using sint_greater_eq [of v] sint_less [of v] by simp
  then have "f32 (of_int (sint v)) = of_int (sint v)" unfolding f32_def by (intro fp_round_int) simp
  with display_division [OF m, of prec] show "d = 10 ^ prec \<Longrightarrow> show_i16 prec v d = decimal prec (sint v)"
    by (simp add: show_i16_def f32_def)
qed

lemma show_u16_decimal: "d = 10 ^ prec \<Longrightarrow> show_u16 prec v d = decimal prec (int (unat v))"
proof -
  have m: "\<bar>int (unat v)\<bar> * 2 < 2 ^ 24" using uint_lt2p [of v] by simp
  have "f32 (of_int (int (unat v))) = of_int (int (unat v))"
    unfolding f32_def using m by (intro fp_round_int) simp
  with display_division [OF m, of prec]
  show "d = 10 ^ prec \<Longrightarrow> show_u16 prec v d = decimal prec (int (unat v))"
    by (simp add: show_u16_def f32_def)
qed

lemma reading_text_decimal:
  "reading_text (temp, humidity, pressure, battery, signal) =
     lit ''temp='' @ decimal 2 (sint temp) @ lit ''C humidity='' @ decimal 1 (int (unat humidity))
     @ lit ''% pressure='' @ decimal 1 (int (unat pressure)) @ lit ''hPa battery='' @ dec (unat battery)
     @ lit ''% rssi='' @ dec_int (sint signal) @ lit ''dBm''"
  by (simp add: reading_text_def show_i16_decimal show_u16_decimal)

lemma printable_reading_text [simp]: "printable (reading_text v)"
  by (simp add: reading_text_def show_i16_def show_u16_def printable_lit split: prod.split)

lemma length_dec_int_i16: "length (dec_int (sint (v :: i16))) \<le> 6"
proof -
  have "nat \<bar>sint v\<bar> < 10 ^ 5" using sint_greater_eq [of v] sint_less [of v] by simp
  then have "length (dec (nat \<bar>sint v\<bar>)) \<le> 5" by (rule length_dec) simp
  then show ?thesis by (auto simp: dec_int_def)
qed

lemma length_reading_text: "length (reading_text v) \<le> 90"
proof -
  obtain t h p b s where v: "v = (t, h, p, b, s)" by (cases v)
  have dec5: "length (decimal k m) \<le> n" if "\<bar>m\<bar> < 10 ^ 5" "k + 7 = n" for k n m
    using length_decimal [OF that(1), of k] that(2) by simp
  have "length (decimal 2 (sint t)) \<le> 9"
    using sint_greater_eq [of t] sint_less [of t] by (intro dec5) simp_all
  moreover have "length (decimal 1 (int (unat h))) \<le> 8" "length (decimal 1 (int (unat p))) \<le> 8"
    using uint_lt2p [of h] uint_lt2p [of p] by (auto intro: dec5)
  moreover have "length (dec (unat b)) \<le> 5" using unat_u16_less [of b] by (intro length_dec) simp_all
  moreover have "length (lit l) = length l" for l by (simp add: lit_def)
  ultimately show ?thesis using length_dec_int_i16 [of s] by (simp add: v reading_text_decimal)
qed

lemma payload_texts [simp]:
  "printable (event_payload seq)" "event_payload seq \<noteq> []" "length (event_payload seq) \<le> 21"
  "printable (fst (alarm_payload seq))" "printable (snd (alarm_payload seq))"
  "length (fst (alarm_payload seq)) \<le> 8" "length (snd (alarm_payload seq)) \<le> 21"
  by (simp_all add: event_payload_def alarm_payload_def Let_def printable_lit lit_def)

lemma length_sensor_bytes [simp]: "length (sensor_bytes v) = 10"
  by (simp add: sensor_bytes_def split: prod.split)

lemma body_lengths:
  "length (event_body seq) \<le> 23" "length (alarm_body seq) \<le> 32" "event_body seq \<noteq> []" "alarm_body seq \<noteq> []"
  "length (as_bytes (reading_text v)) \<le> 90"
  using payload_texts(3,6,7) [of seq] length_reading_text [of v]
  by (simp_all del: payload_texts(3,6,7) add: event_body_def alarm_body_def as_bytes_printable split_beta)

text \<open>The type a kind is sent as, and the readings of a series: 400 ticks from first to last.\<close>

primrec kind_type :: "message_kind \<Rightarrow> msg_type" where
  "kind_type KMessage = Message"
| "kind_type KNumber = Number"
| "kind_type KSeries = Series"
| "kind_type KEvent = Event"
| "kind_type KAlarm = Alarm"

definition fits_epoch :: "message_kind \<Rightarrow> u32 \<Rightarrow> bool" where
  "fits_epoch kind offset \<longleftrightarrow> (kind = KSeries \<longrightarrow> unat offset + 400 < 524288)"

definition sender_datagram :: "message_kind \<Rightarrow> u32 \<Rightarrow> u32 \<Rightarrow> datagram \<Rightarrow> bool" where
  "sender_datagram kind epoch offset d \<longleftrightarrow>
     datagram_wf (kind_type kind) d \<and> d_sender_id d = SENDER_ID \<and> d_cipher_id d = cipher_u8 CIPHER
     \<and> d_epoch_low d = ucast (epoch AND 0x0F) \<and> d_offset d = offset \<and> payload_len d \<le> 200"

lemma record_ok_new:
  "body \<noteq> [] \<Longrightarrow> length body \<le> 4095 \<Longrightarrow> v \<noteq> 0 \<Longrightarrow> record_ok (record_new FmtNone v body)"
  by (simp add: record_ok_def body_ok_def record_new_def)

lemma make_records_ok:
  "r \<in> set (make_records seq) \<Longrightarrow> record_ok r"
  using body_lengths(5) [of "sensor_values seq"] length_sensor_bytes [of "sensor_values seq"]
  by (auto simp: make_records_def Let_def sender_consts as_bytes_printable simp del: length_sensor_bytes
      intro!: record_ok_new) (simp_all add: reading_text_def lit_def split: prod.splits)

lemma data_datagram_ok:
  assumes "is_record_framed mt" and "recs \<noteq> []" and "mt = Event \<or> mt = Alarm \<longrightarrow> length recs = 1"
    and "offset < TICKS_PER_EPOCH" and "\<And>r. r \<in> set recs \<Longrightarrow> record_ok r"
  shows "data_datagram mt c s e offset recs = Ok ((base mt c s e offset)\<lparr>d_records := recs\<rparr>)"
    and "datagram_wf mt ((base mt c s e offset)\<lparr>d_records := recs\<rparr>)"
proof -
  show "data_datagram mt c s e offset recs = Ok ((base mt c s e offset)\<lparr>d_records := recs\<rparr>)"
    using assms by (auto simp: data_datagram_def not_le)
  have "mt \<noteq> TimeAnnounce \<and> mt \<noteq> TimeRequest" using assms(1) by (auto simp: is_record_framed_def)
  then show "datagram_wf mt ((base mt c s e offset)\<lparr>d_records := recs\<rparr>)"
    using assms by (simp add: datagram_wf_def frame_wf_def)
qed

lemma make_readings_list:
  "make_readings seq offset =
     [(offset, fst (sensor_values seq)), (offset + 200, fst (sensor_values (seq + 1))),
      (offset + 400, fst (sensor_values (seq + 2)))]"
  by (simp add: make_readings_def split_beta)

lemma offset_word:
  assumes "offset < TICKS_PER_EPOCH" and "n \<le> 400"
  shows "unat (offset + of_nat n) = unat offset + n"
proof -
  have "unat offset < 524288" using assms(1) by (simp add: word_less_nat_alt)
  then show ?thesis using assms(2) by (simp add: unat_word_ariths(1) unat_of_nat)
qed

lemma make_readings_batch:
  assumes "offset < TICKS_PER_EPOCH"
  shows "batch_ok (make_readings seq offset) \<longleftrightarrow> unat offset + 400 < 524288"
proof -
  have "unat (offset + 200) = unat offset + 200" "unat (offset + 400) = unat offset + 400"
    using offset_word [OF assms, of 200] offset_word [OF assms, of 400] by simp_all
  moreover have "unat offset < 524288" using assms by (simp add: word_less_nat_alt)
  ultimately show ?thesis by (auto simp: make_readings_list word_less_nat_alt)
qed

lemma make_datagram_ok:
  assumes off: "offset < TICKS_PER_EPOCH" and fits: "fits_epoch kind offset"
  shows "\<exists>d. make_datagram kind seq epoch offset = Ok d \<and> sender_datagram kind epoch offset d"
proof (cases kind)
  case KMessage
  have ne: "make_records seq \<noteq> []" by (simp add: make_records_def Let_def)
  note dd = data_datagram_ok [OF _ ne _ off make_records_ok,
      where mt = Message and c = CIPHER and s = SENDER_ID and e = epoch]
  have len: "sum_list (map wire_len (make_records seq)) \<le> 200"
    using body_lengths(5) [of "sensor_values seq"]
    by (simp add: make_records_def Let_def wire_len_def record_new_def)
  show ?thesis using KMessage dd ne len
    by (simp add: make_datagram_def is_record_framed_def sender_datagram_def payload_len_def)
next
  case KNumber
  have v: "validate_number (2 # be_bytes 2 m) = Ok (2, m)" for m
    by (simp add: validate_number_Ok scale_is_valid_def)
  show ?thesis using KNumber off v
    by (simp add: make_datagram_def make_number_def number_datagram_def sender_consts scale_is_valid_def
        not_le split_beta sender_datagram_def payload_len_def datagram_wf_def frame_wf_def
        is_record_framed_def is_ok_iff)
next
  case KSeries
  have b: "batch_ok (make_readings seq offset)"
    using KSeries fits off by (simp add: make_readings_batch fits_epoch_def)
  have s2: "scale_is_valid 2" by (simp add: scale_is_valid_def)
  have hd: "fst (hd (make_readings seq offset)) = offset" by (simp add: make_readings_list)
  have l: "length (batch_bytes 2 (make_readings seq offset)) = 11" by (simp add: make_readings_list)
  from validate_series_encode [OF s2 b] hd l show ?thesis
    using KSeries off b s2 series_datagram_iff [of CIPHER SENDER_ID epoch 2 "make_readings seq offset"]
    by (simp add: make_datagram_def sender_consts(6) sender_datagram_def payload_len_def
        datagram_wf_def frame_wf_def is_record_framed_def is_ok_iff)
next
  case KEvent
  note dd = data_datagram_ok [of Event "[record_new FmtNone EVENT_SCHEMA (event_body seq)]" offset
      CIPHER SENDER_ID epoch]
  have "record_ok (record_new FmtNone EVENT_SCHEMA (event_body seq))"
    using body_lengths(1,3) [of seq] by (intro record_ok_new) (simp_all add: sender_consts)
  with KEvent off dd body_lengths(1) [of seq] show ?thesis
    by (simp add: make_datagram_def is_record_framed_def sender_datagram_def payload_len_def wire_len_def
        record_new_def)
next
  case KAlarm
  note dd = data_datagram_ok [of Alarm "[record_new FmtNone ALARM_SCHEMA (alarm_body seq)]" offset
      CIPHER SENDER_ID epoch]
  have "record_ok (record_new FmtNone ALARM_SCHEMA (alarm_body seq))"
    using body_lengths(2,4) [of seq] by (intro record_ok_new) (simp_all add: sender_consts)
  with KAlarm off dd body_lengths(2) [of seq] show ?thesis
    by (simp add: make_datagram_def is_record_framed_def sender_datagram_def payload_len_def wire_len_def
        record_new_def)
qed

lemma make_datagram_late:
  assumes off: "offset < TICKS_PER_EPOCH" and late: "\<not> fits_epoch kind offset"
  shows "make_datagram kind seq epoch offset = Err (BadSeries ''reading instant crosses the epoch boundary'')"
proof -
  have k: "kind = KSeries" "524288 \<le> unat offset + 400" using late by (auto simp: fits_epoch_def)
  have u: "unat offset < 524288" using off by (simp add: word_less_nat_alt)
  have o: "unat (offset + 200) = unat offset + 200" "unat (offset + 400) = unat offset + 400"
    using offset_word [OF off, of 200] offset_word [OF off, of 400] by simp_all
  have lt: "offset < offset + 200" "offset + 200 < offset + 400" "\<not> offset + 400 < TICKS_PER_EPOCH"
    using o k(2) by (simp_all add: word_less_nat_alt)
  have gap: "\<not> 65535 < offset + 200 - offset" "\<not> 65535 < offset + 400 - (offset + 200)" by simp_all
  show ?thesis
    using k(1) off lt gap
    by (simp add: make_datagram_def series_datagram_def make_readings_list sender_consts scale_is_valid_def
        not_le not_less)
qed

section \<open>A turn of the loop\<close>

lemma sender_datagram_encodes:
  assumes "sender_datagram kind epoch offset d"
  shows "encode C d SECRET epoch NodeToCollector MAX_DATAGRAM_IPV4
    = Ok (wire_image C CIPHER d SECRET epoch NodeToCollector)"
proof -
  have "cipher_from_u8 (cipher_u8 CIPHER) = Some CIPHER" by (simp add: CIPHER_def cipher_from_u8_def)
  moreover have "\<forall>r \<in> set (d_records d). body_ok r"
    using assms by (auto simp: sender_datagram_def datagram_wf_def frame_wf_def record_ok_def split: if_splits)
  ultimately show ?thesis
    using assms by (simp add: encode_Ok sender_datagram_def mac_fits_def CIPHER_def)
qed

text \<open>The state after a turn, and its outcome.\<close>

definition sender_next :: "sender_state \<Rightarrow> pacer \<Rightarrow> sender_state" where
  "sender_next st p = st\<lparr>sn_pacer := p, sn_seq := sn_seq st + 1\<rparr>"

definition sent_as :: "crypto \<Rightarrow> sender_state \<Rightarrow> u32 \<Rightarrow> u32 \<Rightarrow> bytes \<Rightarrow> bool" where
  "sent_as C st epoch offset wire \<longleftrightarrow>
     (\<exists>d. make_datagram (choose_kind (sn_seq st)) (sn_seq st) epoch offset = Ok d
        \<and> sender_datagram (choose_kind (sn_seq st)) epoch offset d
        \<and> wire = wire_image C CIPHER d SECRET epoch NodeToCollector)"

lemma claim_offset: "claim p secs nanos = (Ok (e, off), p') \<Longrightarrow> off < TICKS_PER_EPOCH"
  using epoch_offset_bound [of secs nanos] by (auto dest!: claim_Ok simp: word_less_nat_alt)

lemma sender_step_cases:
  assumes "sender_step C st secs nanos send_ok = (r, st')"
  obtains (shed) e p where "claim (sn_pacer st) secs nanos = (Err e, p)" "r = Ok Shed"
      "st' = st\<lparr>sn_pacer := p, sn_shed := sn_shed st + 1\<rparr>"
    | (late) e off p where "claim (sn_pacer st) secs nanos = (Ok (e, off), p)"
      "\<not> fits_epoch (choose_kind (sn_seq st + 1)) off" "st' = sender_next st p"
      "r = Ok (NoDatagram (BadSeries ''reading instant crosses the epoch boundary''))"
    | (sent) e off p wire where "claim (sn_pacer st) secs nanos = (Ok (e, off), p)"
      "fits_epoch (choose_kind (sn_seq st + 1)) off" "st' = sender_next st p" "sent_as C st' e off wire"
      "r = Ok (if send_ok
               then Sent wire (sent_line (choose_kind (sn_seq st')) e off (length wire) st')
               else SendFailed wire)"
proof -
  obtain c p where c: "claim (sn_pacer st) secs nanos = (c, p)" by fastforce
  show ?thesis
  proof (cases c)
    case (Ok eo)
    obtain e off where eo: "eo = (e, off)" by (cases eo)
    have off: "off < TICKS_PER_EPOCH" using c unfolding Ok eo by (rule claim_offset)
    let ?kind = "choose_kind (sn_seq st + 1)"
    show ?thesis
    proof (cases "fits_epoch ?kind off")
      case True
      obtain d where d: "make_datagram ?kind (sn_seq st + 1) e off = Ok d" "sender_datagram ?kind e off d"
        using make_datagram_ok [OF off True] by blast
      have "sent_as C (sender_next st p) e off (wire_image C CIPHER d SECRET e NodeToCollector)"
        using d by (auto simp: sent_as_def sender_next_def)
      with c Ok eo True d(1) sender_datagram_encodes [OF d(2), of C] assms show ?thesis
        by (intro sent) (auto simp: sender_step_def sender_next_def Let_def split: if_splits)
    next
      case False
      with c Ok eo make_datagram_late [OF off False] assms show ?thesis
        by (intro late) (auto simp: sender_step_def sender_next_def Let_def)
    qed
  next
    case (Err e)
    with c assms show ?thesis by (intro shed) (auto simp: sender_step_def)
  next
    case Panic
    with c claim_not_Panic [of "sn_pacer st" secs nanos] show ?thesis by simp
  qed
qed

section \<open>The offsets of sent datagrams rise\<close>

definition sender_filter ::
  "crypto \<Rightarrow> sender_state \<Rightarrow> u64 \<times> u32 \<times> bool \<Rightarrow> sender_state \<times> (u32 \<times> u32) option" where
  "sender_filter C st i =
     (case i of (secs, nanos, send_ok) \<Rightarrow>
        (case sender_step C st secs nanos send_ok of
           (Ok (Sent wire line), st') \<Rightarrow> (st', pacer_floor (sn_pacer st'))
         | (_, st') \<Rightarrow> (st', None)))"

definition sender_clock_ok :: "sender_state \<Rightarrow> u64 \<times> u32 \<times> bool \<Rightarrow> bool" where
  "sender_clock_ok st i \<longleftrightarrow> pacer_clock_ok (sn_pacer st) (fst i, fst (snd i))"

lemma claim_floor:
  assumes "claim p secs nanos = (Ok (e, off), p')"
  shows "pacer_floor p' = Some (e, off)"
    and "pacer_clock_ok p (secs, nanos) \<Longrightarrow> pacer_floor p = Some f \<Longrightarrow> f < (e, off)"
proof -
  show "pacer_floor p' = Some (e, off)" using claim_Ok [OF assms] by (simp add: pacer_floor_def)
  have "pacer_step p (secs, nanos) = (p', Some (e, off))" using assms by (simp add: pacer_step_def)
  then show "pacer_clock_ok p (secs, nanos) \<Longrightarrow> pacer_floor p = Some f \<Longrightarrow> f < (e, off)"
    using pacer.admit_above by blast
qed

interpretation sender: monotone_filter "sender_filter C" sender_clock_ok "\<lambda>st. pacer_floor (sn_pacer st)" for C
proof
  fix st i st' k
  assume a: "sender_clock_ok st i" "sender_filter C st i = (st', Some k)"
  obtain secs nanos ok where i: "i = (secs, nanos, ok)" by (cases i)
  obtain r st1 where s: "sender_step C st secs nanos ok = (r, st1)" by fastforce
  from s show "pacer_floor (sn_pacer st') = Some k \<and> (\<forall>f. pacer_floor (sn_pacer st) = Some f \<longrightarrow> f < k)"
  proof (cases rule: sender_step_cases)
    case (sent e off p wire)
    with a s i claim_floor [OF sent(1)] show ?thesis
      by (auto simp: sender_filter_def sender_next_def sender_clock_ok_def split: if_splits)
  qed (use a s i in \<open>simp_all add: sender_filter_def\<close>)
next
  fix st i st' f
  assume a: "sender_clock_ok st i" "sender_filter C st i = (st', None)" "pacer_floor (sn_pacer st) = Some f"
  obtain secs nanos ok where i: "i = (secs, nanos, ok)" by (cases i)
  obtain r st1 where s: "sender_step C st secs nanos ok = (r, st1)" by fastforce
  from s show "\<exists>f'. pacer_floor (sn_pacer st') = Some f' \<and> f \<le> f'"
  proof (cases rule: sender_step_cases)
    case (shed e p)
    with a s i claim_Err [OF shed(1)] have "pacer_floor (sn_pacer st') = Some f"
      by (auto simp: sender_filter_def)
    then show ?thesis by blast
  next
    case (late e off p)
    with a s i claim_floor [OF late(1)] show ?thesis
      by (auto simp: sender_filter_def sender_next_def sender_clock_ok_def intro: less_imp_le)
  next
    case (sent e off p wire)
    with a s i claim_floor [OF sent(1)] show ?thesis
      by (auto simp: sender_filter_def sender_next_def sender_clock_ok_def split: if_splits)
  qed
qed

section \<open>Properties\<close>

text \<open>C25: A turn of the sender's loop has one of three outcomes. If the pacer refuses the tick, nothing is
  sent. If the turn is a series whose last reading would fall beyond the epoch, the datagram is not
  built. Otherwise the datagram is built, always encodes into at most 213 bytes, and is sent as the
  well-formed datagram of its kind at the claimed epoch and offset.\<close>

theorem sender_turn_outcome:
  "case (fst (claim (sn_pacer st) secs nanos), sender_step C st secs nanos send_ok) of
     (Ok (e, off), r, st') \<Rightarrow>
       if fits_epoch (choose_kind (sn_seq st + 1)) off
       then (\<exists>wire. sent_as C st' e off wire \<and> length wire \<le> 213
         \<and> r = Ok (if send_ok
                   then Sent wire (sent_line (choose_kind (sn_seq st')) e off (length wire) st')
                   else SendFailed wire))
       else r = Ok (NoDatagram (BadSeries ''reading instant crosses the epoch boundary''))
   | (_, r, st') \<Rightarrow> r = Ok Shed"
proof -
  obtain r st' where step: "sender_step C st secs nanos send_ok = (r, st')" by fastforce
  from step show ?thesis
  proof (cases rule: sender_step_cases)
    case (sent e off p wire)
    then have "length wire \<le> 213"
      by (auto simp: sent_as_def sender_datagram_def length_wire_image CIPHER_def)
    with sent step show ?thesis by auto
  qed (use step in simp_all)
qed

text \<open>The sender never reuses an instant: while its clock does not step back across an epoch boundary,
  the (epoch, offset) pairs of the datagrams it sends strictly increase, whatever it had to skip.\<close>

lemma sender_offsets_rise:
  assumes "run_allowed (sender_filter C) sender_clock_ok sender_start inputs"
  shows "sorted_wrt (<) (run_keys (sender_filter C) sender_start inputs)"
  using sender.run_above_floor [OF assms] by simp

end
