(* ===== verification/Catp_Collector.thy ===== *)
theory Catp_Collector
  imports Catp_Peer "HOL-Library.AList" "HOL-Library.Multiset"
begin

text \<open>
  The multi-peer registry of \<open>src/peer.rs\<close>: \<open>Collector\<close>. The hash map from sender ids to peers is an
  association list with distinct keys; a hash map iterates in no fixed order, and the one operation
  that iterates (\<open>stats\<close>) is shown not to depend on it. The life of a collector is the step relation
  \<open>reachable\<close>.
\<close>

section \<open>The registry\<close>

record collector =
  co_peers :: "(u32 \<times> peer_state) list"
  co_own_stats :: stats

definition collector_new :: collector where
  "collector_new = \<lparr>co_peers = [], co_own_stats = stats_default\<rparr>"

definition provision :: "peer_config \<Rightarrow> collector \<Rightarrow> (unit, error) result \<times> collector" where
  "provision config c =
     (let sender_id = p_sender_id config in
      case peer_new config of
        Ok p \<Rightarrow> (Ok (), c\<lparr>co_peers := AList.update sender_id p (co_peers c)\<rparr>)
      | Err e \<Rightarrow> (Err e, c)
      | Panic \<Rightarrow> (Panic, c))"

definition peer_mut :: "u32 \<Rightarrow> collector \<Rightarrow> peer_state option" where
  "peer_mut sender_id c = map_of (co_peers c) sender_id"

definition header_sender :: "bytes \<Rightarrow> (u32, error) result" where
  "header_sender buf =
     rbind (idx buf 5) (\<lambda>b5. rbind (idx buf 6) (\<lambda>b6. rbind (idx buf 7) (\<lambda>b7.
     rbind (idx buf 8) (\<lambda>b8. Ok (from_be [b5, b6, b7, b8])))))"

definition collector_accept ::
  "crypto \<Rightarrow> bytes \<Rightarrow> u32 \<Rightarrow> direction \<Rightarrow> u64 \<Rightarrow> collector
   \<Rightarrow> (accepted, error) result \<times> collector" where
  "collector_accept C buf local_epoch dir now_ms c =
     (if length buf < HEADER_LEN
      then (Err TooShort,
            c\<lparr>co_own_stats := (co_own_stats c)
               \<lparr>st_too_short := st_too_short (co_own_stats c) + 1\<rparr>\<rparr>)
      else case header_sender buf of
        Err e \<Rightarrow> (Err e, c)
      | Panic \<Rightarrow> (Panic, c)
      | Ok sender_id \<Rightarrow>
          (case map_of (co_peers c) sender_id of
             None \<Rightarrow> (Err (UnknownSender sender_id),
               c\<lparr>co_own_stats := (co_own_stats c)
                  \<lparr>st_unknown_sender := st_unknown_sender (co_own_stats c) + 1\<rparr>\<rparr>)
           | Some peer \<Rightarrow>
               (case peer_accept C buf local_epoch dir now_ms peer of
                  (r, peer) \<Rightarrow>
                    (r, c\<lparr>co_peers := AList.update sender_id peer (co_peers c)\<rparr>))))"

text \<open>\<open>Collector::stats\<close>, with the values of the map in the order the iterator yields them.\<close>

definition merge_all :: "stats \<Rightarrow> peer_state list \<Rightarrow> stats" where
  "merge_all own peers = foldl (\<lambda>total peer. stats_merge total (ps_stats peer)) own peers"

definition collector_stats :: "collector \<Rightarrow> stats" where
  "collector_stats c = merge_all (co_own_stats c) (map snd (co_peers c))"

section \<open>Invariant\<close>

definition collector_ok :: "collector \<Rightarrow> bool" where
  "collector_ok c \<longleftrightarrow> distinct (map fst (co_peers c)) \<and>
     (\<forall>i p. map_of (co_peers c) i = Some p \<longrightarrow>
        slots_ok (ps_windows p) \<and> p_sender_id (ps_config p) = i
        \<and> (requires_inbound_rate_limit (p_cipher (ps_config p)) \<longrightarrow> ps_limiter p \<noteq> None))"

lemma header_sender_ok:
  "9 \<le> length buf \<Longrightarrow> header_sender buf = Ok (from_be [buf ! 5, buf ! 6, buf ! 7, buf ! 8])"
  by (simp add: header_sender_def)

lemma map_of_update [simp]: "map_of (AList.update k v al) i = (if i = k then Some v else map_of al i)"
  by (simp add: update_conv')

lemma distinct_update [simp]: "distinct (map fst al) \<Longrightarrow> distinct (map fst (AList.update k v al))"
  by (rule distinct_update)

lemma accept_limiter_kept:
  assumes "peer_accept C buf local dir now s = (r, s')" and "ps_limiter s \<noteq> None"
  shows "ps_limiter s' \<noteq> None"
  using assms
  by (auto simp: peer_accept_def accept_inner_def
      split: prod.splits result.splits option.splits if_splits)

lemma collector_accept_cases:
  assumes "collector_accept C buf local dir now c = (r, c')"
  obtains (short) "length buf < 9" "r = Err TooShort" "co_peers c' = co_peers c"
      "co_own_stats c' = (co_own_stats c)\<lparr>st_too_short := st_too_short (co_own_stats c) + 1\<rparr>"
    | (unknown) i where "9 \<le> length buf" "i = from_be [buf ! 5, buf ! 6, buf ! 7, buf ! 8]"
      "map_of (co_peers c) i = None" "r = Err (UnknownSender i)" "co_peers c' = co_peers c"
      "co_own_stats c' = (co_own_stats c)\<lparr>st_unknown_sender := st_unknown_sender (co_own_stats c) + 1\<rparr>"
    | (peer) i p p' where "9 \<le> length buf" "i = from_be [buf ! 5, buf ! 6, buf ! 7, buf ! 8]"
      "map_of (co_peers c) i = Some p" "peer_accept C buf local dir now p = (r, p')"
      "co_peers c' = AList.update i p' (co_peers c)" "co_own_stats c' = co_own_stats c"
proof (cases "length buf < 9")
  case True
  with assms show ?thesis by (intro short) (auto simp: collector_accept_def)
next
  case False
  then have len: "9 \<le> length buf" by simp
  let ?i = "from_be [buf ! 5, buf ! 6, buf ! 7, buf ! 8] :: u32"
  show ?thesis
  proof (cases "map_of (co_peers c) ?i")
    case None
    with len assms show ?thesis
      by (intro unknown [of ?i]) (auto simp: collector_accept_def header_sender_ok)
  next
    case (Some p)
    obtain r' p' where "peer_accept C buf local dir now p = (r', p')" by fastforce
    with len assms Some show ?thesis
      by (intro peer [of ?i p p']) (auto simp: collector_accept_def header_sender_ok)
  qed
qed

lemma collector_ok_accept:
  assumes "collector_ok c" and "collector_accept C buf local dir now c = (r, c')"
  shows "collector_ok c'"
  using assms(2)
proof (cases rule: collector_accept_cases)
  case (peer i p p')
  have p: "slots_ok (ps_windows p)" "p_sender_id (ps_config p) = i"
    "requires_inbound_rate_limit (p_cipher (ps_config p)) \<longrightarrow> ps_limiter p \<noteq> None"
    using assms(1) peer(3) by (auto simp: collector_ok_def)
  from peer_accept_spec [OF p(1) peer(4)] accept_limiter_kept [OF peer(4)] p peer(5) assms(1)
  show ?thesis by (auto simp: collector_ok_def)
qed (use assms(1) in \<open>simp_all add: collector_ok_def\<close>)

lemma collector_ok_provision:
  assumes "collector_ok c" and "provision config c = (r, c')"
  shows "collector_ok c'"
  using assms
  by (auto simp: provision_def peer_new_def collector_ok_def slots_ok_def Let_def split: if_splits)

section \<open>The life of a collector\<close>

inductive reachable :: "crypto \<Rightarrow> collector \<Rightarrow> bool" for C where
  start: "reachable C collector_new"
| provisioned: "reachable C c \<Longrightarrow> provision config c = (r, c') \<Longrightarrow> reachable C c'"
| received:
    "reachable C c \<Longrightarrow> collector_accept C buf local_epoch dir now_ms c = (r', c') \<Longrightarrow> reachable C c'"
| announced:
    "reachable C c \<Longrightarrow> peer_mut i c = Some p \<Longrightarrow> accept_epoch_announce target p = (r, p') \<Longrightarrow>
     reachable C (c\<lparr>co_peers := AList.update i p' (co_peers c)\<rparr>)"

lemma reachable_ok: "reachable C c \<Longrightarrow> collector_ok c"
proof (induction rule: reachable.induct)
  case start
  then show ?case by (simp add: collector_ok_def collector_new_def)
next
  case (announced c i p target r p')
  then show ?case
    by (auto simp: collector_ok_def peer_mut_def accept_epoch_announce_def
        split: option.splits if_splits)
qed (auto intro: collector_ok_provision collector_ok_accept)

section \<open>Counters\<close>

lemma stats_merge_total: "stats_total (stats_merge a b) = stats_total a + stats_total b"
  by (simp add: stats_total_def stats_merge_def ac_simps)

lemma stats_merge_swap: "stats_merge (stats_merge t a) b = stats_merge (stats_merge t b) a"
  by (simp add: stats_merge_def ac_simps)

lemma merge_all_perm: "mset ps = mset qs \<Longrightarrow> merge_all own ps = merge_all own qs"
proof -
  let ?f = "\<lambda>peer total. stats_merge total (ps_stats peer)"
  have fold: "merge_all own xs = fold ?f xs own" for xs
    by (simp add: merge_all_def foldl_conv_fold)
  have "?f x \<circ> ?f y = ?f y \<circ> ?f x" for x y
    by (auto simp: stats_merge_swap)
  then show "mset ps = mset qs \<Longrightarrow> merge_all own ps = merge_all own qs"
    unfolding fold by (metis fold_multiset_equiv)
qed

lemma merge_all_total:
  "stats_total (merge_all own ps) = stats_total own + sum_list (map (stats_total \<circ> ps_stats) ps)"
  unfolding merge_all_def
  by (induction ps arbitrary: own) (simp_all add: stats_merge_total add.assoc)

lemma sum_update:
  "distinct (map fst al) \<Longrightarrow> map_of al k = Some v \<Longrightarrow>
   sum_list (map (\<lambda>x. g (snd x)) (AList.update k v' al)) + g v
   = sum_list (map (\<lambda>x. g (snd x)) al) + (g v' :: 'a::len word)"
  by (induction al) (auto simp: add_ac)

lemma collector_stats_total:
  "stats_total (collector_stats c)
   = stats_total (co_own_stats c) + sum_list (map (\<lambda>x. stats_total (ps_stats (snd x))) (co_peers c))"
  by (simp add: collector_stats_def merge_all_total comp_def)

section \<open>At most once across the fleet\<close>

definition collector_step ::
  "crypto \<Rightarrow> collector \<times> u32 \<Rightarrow> bytes \<times> u32 \<times> direction \<times> u64
   \<Rightarrow> (collector \<times> u32) \<times> (u32 \<times> u32 \<times> u32) option" where
  "collector_step C cl i =
     (case i of (buf, local_epoch, dir, now_ms) \<Rightarrow>
        (case collector_accept C buf local_epoch dir now_ms (fst cl) of
           (r, c) \<Rightarrow> ((c, local_epoch),
             case r of
               Ok a \<Rightarrow> Some (d_sender_id (a_datagram a), a_epoch_id a, a_datagram_offset a)
             | _ \<Rightarrow> None)))"

definition collector_clock_ok :: "collector \<times> u32 \<Rightarrow> bytes \<times> u32 \<times> direction \<times> u64 \<Rightarrow> bool" where
  "collector_clock_ok cl i \<longleftrightarrow> snd cl \<le> fst (snd i)"

text \<open>Every provisioned peer represents its share of the accepted triples.\<close>

definition share_ok :: "collector \<Rightarrow> u32 \<Rightarrow> (u32 \<times> u32 \<times> u32) set \<Rightarrow> u32 \<Rightarrow> bool" where
  "share_ok c l S i \<longleftrightarrow>
     (case map_of (co_peers c) i of
        Some p \<Rightarrow> peer_rep (p, l) {k. (i, k) \<in> S}
      | None \<Rightarrow> {k. (i, k) \<in> S} = {})"

definition collector_rep :: "collector \<times> u32 \<Rightarrow> (u32 \<times> u32 \<times> u32) set \<Rightarrow> bool" where
  "collector_rep cl S \<longleftrightarrow> (\<forall>i. share_ok (fst cl) (snd cl) S i)"

lemma peer_rep_later: "peer_rep (p, l) S \<Longrightarrow> l \<le> l' \<Longrightarrow> peer_rep (p, l') S"
proof -
  assume "peer_rep (p, l) S" and le: "l \<le> l'"
  then obtain T where "S \<subseteq> T" "store_rep slots_ok slot_get (ps_windows p) l T"
    by (auto simp: peer_rep_def)
  with store_rep_later [OF this(2) le] show "peer_rep (p, l') S" by (auto simp: peer_rep_def)
qed

lemma share_ok_later: "share_ok c l S i \<Longrightarrow> l \<le> l' \<Longrightarrow> share_ok c l' S i"
  unfolding share_ok_def
  by (cases "map_of (co_peers c) i") (auto intro: peer_rep_later)

lemma share_ok_peers: "co_peers c' = co_peers c \<Longrightarrow> share_ok c' l S i = share_ok c l S i"
  by (simp add: share_ok_def)

lemma collector_rep_later: "collector_rep (c, l) S \<Longrightarrow> l \<le> l' \<Longrightarrow> collector_rep (c, l') S"
  using share_ok_later unfolding collector_rep_def fst_conv snd_conv by blast

lemma peer_accept_Ok_sender:
  assumes "slots_ok (ps_windows p)" and "peer_accept C buf local dir now p = (Ok a, p')"
  shows "d_sender_id (a_datagram a) = from_be [buf ! 5, buf ! 6, buf ! 7, buf ! 8]"
proof -
  have "peer_verdict C buf local dir now p = Ok a"
    using peer_accept_spec [OF assms] by simp
  then obtain e w where "fst (decode C buf (ps_config p) local dir w) = Ok a"
    by (auto simp: peer_verdict_def split: if_splits option.splits)
  then obtain w' where "decode C buf (ps_config p) local dir w = (Ok a, w')"
    by (metis prod.collapse)
  then show ?thesis by (rule decode_Ok_effect(4))
qed

lemma collector_rep_peer:
  assumes rep: "collector_rep (c, l) S" and le: "l \<le> local"
    and p: "peer_rep (p', local) {k. (i, k) \<in> S'}"
    and other: "\<And>j k. j \<noteq> i \<Longrightarrow> (j, k) \<in> S' \<longleftrightarrow> (j, k) \<in> S"
    and peers: "co_peers c' = AList.update i p' (co_peers c)"
  shows "collector_rep (c', local) S'"
proof -
  have "share_ok c' local S' j" for j
  proof (cases "j = i")
    case True
    with p peers show ?thesis by (simp add: share_ok_def)
  next
    case False
    have S: "{k. (j, k) \<in> S'} = {k. (j, k) \<in> S}" using other [OF False] by simp
    have "share_ok c local S j"
      using collector_rep_later [OF rep le] by (simp add: collector_rep_def)
    with False peers show ?thesis by (simp only: share_ok_def S) simp
  qed
  then show ?thesis by (simp add: collector_rep_def)
qed

lemma collector_accept_rep:
  assumes rep: "collector_rep (c, l) S" and le: "l \<le> local"
    and acc: "collector_accept C buf local dir now c = (r, c')"
  shows "case r of
      Ok a \<Rightarrow> (d_sender_id (a_datagram a), a_epoch_id a, a_datagram_offset a) \<notin> S
        \<and> collector_rep (c', local)
            (insert (d_sender_id (a_datagram a), a_epoch_id a, a_datagram_offset a) S)
    | _ \<Rightarrow> collector_rep (c', local) S"
  using acc
proof (cases rule: collector_accept_cases)
  case (peer i p p')
  have prep: "peer_rep (p, l) {k. (i, k) \<in> S}"
  proof -
    have "share_ok c l S i" using rep by (simp add: collector_rep_def)
    then show ?thesis using peer(3) by (simp add: share_ok_def)
  qed
  note step = peer_accept_rep [OF prep le peer(4)]
  have slots: "slots_ok (ps_windows p)"
    using prep by (auto simp: peer_rep_def store_rep_def)
  show ?thesis
  proof (cases r)
    case (Ok a)
    have i: "d_sender_id (a_datagram a) = i"
      using peer_accept_Ok_sender [OF slots] peer(2,4) Ok by simp
    let ?k = "(a_epoch_id a, a_datagram_offset a)"
    have "{k. (i, k) \<in> insert (i, ?k) S} = insert ?k {k. (i, k) \<in> S}" by auto
    with step Ok have "(i, ?k) \<notin> S" "peer_rep (p', local) {k. (i, k) \<in> insert (i, ?k) S}" by auto
    with collector_rep_peer [OF rep le, of p' i "insert (i, ?k) S"] peer(5)
    show ?thesis by (simp add: Ok i)
  next
    case (Err x)
    with step have "peer_rep (p', local) {k. (i, k) \<in> S}" by simp
    with collector_rep_peer [OF rep le this _ peer(5)] Err show ?thesis by simp
  next
    case Panic
    with step have "peer_rep (p', local) {k. (i, k) \<in> S}" by simp
    with collector_rep_peer [OF rep le this _ peer(5)] Panic show ?thesis by simp
  qed
next
  case short
  with collector_rep_later [OF rep le] share_ok_peers [OF short(3)] show ?thesis
    by (simp add: short(2) collector_rep_def)
next
  case (unknown i)
  with collector_rep_later [OF rep le] share_ok_peers [OF unknown(5)] show ?thesis
    by (simp add: unknown(4) collector_rep_def)
qed

interpretation fleet: once_filter "collector_step C" collector_clock_ok collector_rep for C
proof
  fix cl S i cl' k
  assume a: "collector_rep cl S" "collector_clock_ok cl i" "collector_step C cl i = (cl', Some k)"
  obtain c l buf local dir now where eq: "cl = (c, l)" "i = (buf, local, dir, now)"
    by (cases cl, cases i) auto
  obtain r c' where acc: "collector_accept C buf local dir now c = (r, c')" by fastforce
  have le: "l \<le> local" using a(2) by (simp add: collector_clock_ok_def eq)
  from a(3) acc obtain x where "r = Ok x" "cl' = (c', local)"
    "k = (d_sender_id (a_datagram x), a_epoch_id x, a_datagram_offset x)"
    by (auto simp: collector_step_def eq split: result.splits)
  with collector_accept_rep [OF a(1) [unfolded eq] le acc]
  show "k \<notin> S \<and> collector_rep cl' (insert k S)" by simp
next
  fix cl S i cl'
  assume a: "collector_rep cl S" "collector_clock_ok cl i" "collector_step C cl i = (cl', None)"
  obtain c l buf local dir now where eq: "cl = (c, l)" "i = (buf, local, dir, now)"
    by (cases cl, cases i) auto
  obtain r c' where acc: "collector_accept C buf local dir now c = (r, c')" by fastforce
  have le: "l \<le> local" using a(2) by (simp add: collector_clock_ok_def eq)
  from a(3) acc have "\<not> is_ok r" "cl' = (c', local)"
    by (auto simp: collector_step_def eq split: result.splits)
  with collector_accept_rep [OF a(1) [unfolded eq] le acc]
  show "collector_rep cl' S" by (cases r) simp_all
qed

text \<open>A registry built by provisioning alone represents the empty set of accepted triples.\<close>

definition provision_all :: "peer_config list \<Rightarrow> collector \<Rightarrow> collector" where
  "provision_all configs c = fold (\<lambda>config c. snd (provision config c)) configs c"

lemma provision_rep: "collector_rep (c, l) {} \<Longrightarrow> collector_rep (snd (provision config c), l) {}"
  using peer_new_rep [of config _ l]
  by (cases "peer_new config")
    (simp_all add: provision_def collector_rep_def share_ok_def Let_def)

lemma provision_all_rep: "collector_rep (c, l) {} \<Longrightarrow> collector_rep (provision_all configs c, l) {}"
  unfolding provision_all_def
  by (induction configs arbitrary: c) (simp_all add: provision_rep)

section \<open>A freshly provisioned sender\<close>

text \<open>
  What a collector makes of the first datagram of a sender it has just been provisioned with: the
  verdict of \<open>decode\<close>, whatever the rate limit.
\<close>

lemma fresh_peer_accepts:
  assumes "peer_new cfg = Ok p" and d: "decode C buf cfg local dir one_second = (r, w')"
    and "9 \<le> length buf" and "reconstruct_epoch local (buf ! 1 AND 0x0F) = Some e"
  shows "fst (peer_accept C buf local dir now p) = r"
proof -
  have p: "ps_config p = cfg" "ps_windows p = [None, None]"
    "ps_limiter p = map_option limiter_new (p_inbound_rate_limit cfg)"
    using assms(1) by (auto simp: peer_new_def split: if_splits)
  obtain r' p' where r': "peer_accept C buf local dir now p = (r', p')" by fastforce
  have "slots_ok (ps_windows p)" by (simp add: p slots_ok_def)
  from peer_accept_spec [OF this r'] have "r' = peer_verdict C buf local dir now p" by simp
  also have "\<dots> = r"
    using assms(3,4)
    by (cases r) (auto simp: peer_verdict_def p window_at_def slot_get_def slot_is_def d limiter_new_grants not_less
        split: option.split)
  finally show ?thesis by (simp add: r')
qed

lemma encoded_header:
  assumes "builder_made (p_cipher cfg) (p_sender_id cfg) e d" and "encode C d secret e dir max_size = Ok buf"
    and "in_epoch_window local e"
  shows "9 \<le> length buf" and "from_be [buf ! 5, buf ! 6, buf ! 7, buf ! 8] = p_sender_id cfg"
    and "reconstruct_epoch local (buf ! 1 AND 0x0F) = Some e"
proof -
  obtain c where buf: "buf = wire_image C c d secret e dir" using assms(2) by (auto simp: encode_Ok)
  have "hdr_wf d" using built_has_form(1) [OF assms(1)] by (auto simp: built_form_def)
  then have h: "parse_header buf = Ok (bare d)"
    by (simp add: buf wire_image_def parse_header_bytes masked_header_wf bare_def)
  show len: "9 \<le> length buf" by (simp add: buf length_wire_image)
  note n = parse_header_nth [OF h len] and b = built_has_form(2-4) [OF assms(1)]
  show "from_be [buf ! 5, buf ! 6, buf ! 7, buf ! 8] = p_sender_id cfg" using n(2) b(1) by simp
  show "reconstruct_epoch local (buf ! 1 AND 0x0F) = Some e"
    unfolding n(1) [symmetric] bare_simps b(3) using assms(3)
    by (simp add: reconstruct_epoch_Some unat_epoch_low)
qed

lemma provisioned_peer_hears:
  assumes "ct_eq_decides C" and "builder_made (p_cipher cfg) (p_sender_id cfg) e d"
    and "requires_inbound_rate_limit (p_cipher cfg) \<longrightarrow> p_inbound_rate_limit cfg \<noteq> None"
    and "encode C d (p_secret cfg) e dir max_size = Ok buf" and "in_epoch_window local e"
  shows "fst (provision cfg c) = Ok ()"
    and "fst (collector_accept C buf local dir now (snd (provision cfg c))) = built_verdict cfg e d"
proof -
  obtain p where p: "peer_new cfg = Ok p" using assms(3) by (auto simp: peer_new_def)
  obtain w where "check_and_set one_second (d_offset d) = (Ok (), w)" using fresh_window_admits by blast
  from decode_built [OF assms(1,2,4,5) this] obtain w'
    where d: "decode C buf cfg local dir one_second = (built_verdict cfg e d, w')" by blast
  note h = encoded_header [OF assms(2,4,5)]
  have "fst (peer_accept C buf local dir now p) = built_verdict cfg e d"
    using p d h(1,3) by (rule fresh_peer_accepts)
  moreover have "provision cfg c = (Ok (), c\<lparr>co_peers := AList.update (p_sender_id cfg) p (co_peers c)\<rparr>)"
    using p by (simp add: provision_def Let_def)
  ultimately show "fst (provision cfg c) = Ok ()"
    "fst (collector_accept C buf local dir now (snd (provision cfg c))) = built_verdict cfg e d"
    using h by (auto simp: collector_accept_def header_sender_ok split: prod.split)
qed

section \<open>Properties\<close>

text \<open>C6: No (sender, epoch, offset) is ever accepted twice by a collector, whatever the traffic of the
  whole fleet, as long as the collector's local epoch does not go back.\<close>

theorem fleet_accepts_once:
  assumes "run_allowed (collector_step C) collector_clock_ok (provision_all configs collector_new, l) inputs"
  shows "distinct (run_keys (collector_step C) (provision_all configs collector_new, l) inputs)"
proof -
  have "collector_rep (collector_new, l) {}"
    by (simp add: collector_rep_def share_ok_def collector_new_def)
  then have "collector_rep (provision_all configs collector_new, l) {}" by (rule provision_all_rep)
  from fleet.run_once [OF this assms] show ?thesis by simp
qed

text \<open>A datagram that arrives twice and some junk: the datagram is accepted, and only once.\<close>

theorem fleet_accepts_once_witness:
  "let buf = wire_image demo_crypto HmacSha256T64 demo_datagram (replicate 32 9) 3 NodeToCollector;
       accepted = run_keys (collector_step demo_crypto) (provision_all [demo_peer] collector_new, 3)
         [(buf, 3, NodeToCollector, 0), ([1, 2, 3], 4, CollectorToNode, 1), (buf, 4, NodeToCollector, 2)]
   in hd accepted = (7, 3, 9) \<and> (7, 3, 9) \<notin> set (tl accepted)"
proof -
  let ?buf = "wire_image demo_crypto HmacSha256T64 demo_datagram (replicate 32 9) 3 NodeToCollector"
  let ?c = "provision_all [demo_peer] collector_new"
  let ?rest = "[([1, 2, 3], 4, CollectorToNode, 1), (?buf, 4, NodeToCollector, 2)]"
  let ?run = "run_keys (collector_step demo_crypto) (?c, 3) ((?buf, 3, NodeToCollector, 0) # ?rest)"
  have peer: "p_cipher demo_peer = HmacSha256T64" "p_sender_id demo_peer = 7" "p_secret demo_peer = replicate 32 9"
    by (simp_all add: demo_peer_def)
  have enc: "encode demo_crypto demo_datagram (p_secret demo_peer) 3 NodeToCollector 512 = Ok ?buf"
    by (auto simp: encode_eq demo_datagram_def mac_fits_def payload_len_def cipher_from_u8_def peer)
  have "builder_made (p_cipher demo_peer) (p_sender_id demo_peer) 3 demo_datagram"
    using demo_built(1) by (simp add: peer)
  from provisioned_peer_hears(2) [OF demo_crypto_ct_eq this _ enc, of 3 0 collector_new]
  have "fst (collector_accept demo_crypto ?buf 3 NodeToCollector 0 ?c)
      = Ok \<lparr>a_datagram = demo_datagram, a_epoch_id = 3, a_datagram_offset = 9, a_skipped = []\<rparr>"
    by (simp add: provision_all_def demo_verdicts peer in_epoch_window_def)
  then obtain c1 where "collector_accept demo_crypto ?buf 3 NodeToCollector 0 ?c
      = (Ok \<lparr>a_datagram = demo_datagram, a_epoch_id = 3, a_datagram_offset = 9, a_skipped = []\<rparr>, c1)"
    by (metis prod.collapse)
  then have "collector_step demo_crypto (?c, 3) (?buf, 3, NodeToCollector, 0) = ((c1, 3), Some (7, 3, 9))"
    by (simp add: collector_step_def) (simp add: demo_datagram_def)
  then have run: "?run = (7, 3, 9) # run_keys (collector_step demo_crypto) (c1, 3) ?rest"
    by (simp only: run_keys.simps(2) [of _ _ "(?buf, 3, NodeToCollector, 0)"] prod.case option.case)
  have "distinct ?run"
    by (rule fleet_accepts_once) (simp add: collector_clock_ok_def collector_step_def split: prod.splits)
  then show ?thesis unfolding Let_def run by simp
qed

text \<open>A collector routes by the sender id of the header alone: the verdict is the verdict of that
  sender's peer, only that peer changes, and a sender that is not provisioned is refused without
  any cryptography (the outcome is the same for all primitives) and changes no peer.\<close>

lemma collector_routes:
  assumes "9 \<le> length buf" and "i = from_be [buf ! 5, buf ! 6, buf ! 7, buf ! 8]"
    and "collector_accept C buf local dir now c = (r, c')"
  shows "(case map_of (co_peers c) i of
      Some p \<Rightarrow> (r, the (map_of (co_peers c') i)) = peer_accept C buf local dir now p
    | None \<Rightarrow> r = Err (UnknownSender i) \<and> co_peers c' = co_peers c
        \<and> collector_accept D buf local dir now c = (r, c'))
    \<and> (j \<noteq> i \<longrightarrow> map_of (co_peers c') j = map_of (co_peers c) j)"
  using assms(3)
proof (cases rule: collector_accept_cases)
  case (peer k p p')
  with assms(2) show ?thesis by simp
next
  case (unknown k)
  with assms show ?thesis by (auto simp: collector_accept_def header_sender_ok)
qed (use assms(1) in simp)

text \<open>C32: Every reachable collector keeps one entry per sender, under the id of its own configuration, with
  a well-formed peer, and never holds a peer of a suite that requires an inbound rate limit without
  a limiter.\<close>

theorem reachable_collectors_ok:
  assumes "reachable C c"
  shows "collector_ok c"
  using assms by (rule reachable_ok)

theorem reachable_collectors_ok_witness:
  "collector_ok (snd (provision demo_peer collector_new))"
  by (rule reachable_collectors_ok [of demo_crypto])
    (metis reachable.start reachable.provisioned prod.collapse)

text \<open>Collector-wide statistics count every call exactly once (or not at all, when it is refused as
  \<open>Oversize\<close>), and do not depend on the order in which the hash map yields its peers.\<close>

lemma collector_counts_every_call:
  assumes "collector_ok c" and "collector_accept C buf local dir now c = (r, c')"
    and "mset peers = mset (map snd (co_peers c'))"
  shows "stats_total (merge_all (co_own_stats c') peers)
    = stats_total (collector_stats c) + (if \<exists>n. r = Err (Oversize n) then 0 else 1)"
proof -
  have perm: "merge_all (co_own_stats c') peers = collector_stats c'"
    unfolding collector_stats_def by (rule merge_all_perm) (rule assms(3))
  have "stats_total (collector_stats c')
      = stats_total (collector_stats c) + (if \<exists>n. r = Err (Oversize n) then 0 else 1)"
    using assms(2)
  proof (cases rule: collector_accept_cases)
    case (peer i p p')
    have p: "slots_ok (ps_windows p)" and d: "distinct (map fst (co_peers c))"
      using assms(1) peer(3) by (auto simp: collector_ok_def)
    have r: "r = peer_verdict C buf local dir now p" "ps_stats p' = record_result r (ps_stats p)"
      using peer_accept_spec [OF p peer(4)] by auto
    have "stats_total (ps_stats p') = stats_total (ps_stats p)
        + (if \<exists>n. r = Err (Oversize n) then 0 else 1)"
      unfolding r(2)
      by (rule record_result_total) (simp_all add: r(1) rx_peer_verdict peer_verdict_not_Panic)
    with sum_update [OF d peer(3), of "\<lambda>p. stats_total (ps_stats p)" p'] peer(5,6)
    show ?thesis by (simp add: collector_stats_total algebra_simps)
  next
    case short
    then show ?thesis by (simp add: collector_stats_total) (simp add: stats_total_def)
  next
    case (unknown i)
    then show ?thesis by (simp add: collector_stats_total) (simp add: stats_total_def)
  qed
  then show ?thesis by (simp only: perm)
qed

end
