(* ===== verification/Catp_Console.thy ===== *)
theory Catp_Console
  imports Catp_Display Catp_Collector Catp_Files
begin

text \<open>
  The demonstration collector, \<open>tools/src/bin/collector.rs\<close>: how it fills its registry at the start
  and what it prints for each datagram. One turn of the loop is a step on the registry and the
  count of datagrams; its input is what \<open>recv_from\<close> and the clock yield, its output the lines for
  standard output and standard error.
\<close>

section \<open>Constants and provisioning\<close>

definition co_SENDER_ID :: u32 where "co_SENDER_ID = 0x1234"
definition co_SECRET :: device_secret where "co_SECRET = replicate 32 0x5A"
definition co_CIPHER :: cipher_id where "co_CIPHER = HmacSha256T32"
definition co_SENSOR_SCHEMA :: u8 where "co_SENSOR_SCHEMA = 1"
definition co_EVENT_SCHEMA :: u8 where "co_EVENT_SCHEMA = 2"
definition co_ALARM_SCHEMA :: u8 where "co_ALARM_SCHEMA = 3"
definition co_UNSTRUCTURED :: u8 where "co_UNSTRUCTURED = SCHEMA_UNSTRUCTURED"

lemmas co_consts =
  co_SENDER_ID_def co_CIPHER_def co_SENSOR_SCHEMA_def co_EVENT_SCHEMA_def co_ALARM_SCHEMA_def
  co_UNSTRUCTURED_def SCHEMA_UNSTRUCTURED_def

definition demo_config :: peer_config where
  "demo_config =
     \<lparr>p_sender_id = co_SENDER_ID, p_secret = co_SECRET, p_cipher = co_CIPHER,
      p_layouts =
        [(format_u8 FmtNone, co_SENSOR_SCHEMA), (format_u8 FmtNone, co_EVENT_SCHEMA),
         (format_u8 FmtNone, co_ALARM_SCHEMA), (format_u8 FmtNone, co_UNSTRUCTURED)],
      p_inbound_rate_limit = Some RECOMMENDED_DEFAULT\<rparr>"

text \<open>What makes the program end before its loop.\<close>

datatype setup_error = BundleError provision_error | ConfigError error

fun provision_bundles :: "prov_bundle list \<Rightarrow> collector \<Rightarrow> (collector, setup_error) result" where
  "provision_bundles [] c = Ok c"
| "provision_bundles (b # bs) c =
     (case into_peer_config b (Some RECOMMENDED_DEFAULT) of
        Err e \<Rightarrow> Err (ConfigError e)
      | Panic \<Rightarrow> Panic
      | Ok cfg \<Rightarrow> (case provision cfg c of (Ok u, c) \<Rightarrow> provision_bundles bs c | _ \<Rightarrow> Panic))"

definition open_collector ::
  "io_env \<Rightarrow> path option \<Rightarrow> file_system \<Rightarrow> (collector, setup_error) result" where
  "open_collector env bundle_dir fs =
     (case bundle_dir of
        Some dir \<Rightarrow>
          (case load_bundles_dir env dir fs of
             Ok bundles \<Rightarrow> provision_bundles bundles collector_new
           | Err e \<Rightarrow> Err (BundleError e)
           | Panic \<Rightarrow> Panic)
      | None \<Rightarrow> (case provision demo_config collector_new of (Ok u, c) \<Rightarrow> Ok c | _ \<Rightarrow> Panic))"

section \<open>Rendering\<close>

definition at_text :: "u32 \<Rightarrow> u32 \<Rightarrow> ustr" where
  "at_text epoch_id offset =
     (let epoch_base = ucast epoch_id * EPOCH_SECS;
          off = ucast offset :: u64;
          secs = epoch_base + off div TICKS_PER_SEC;
          ms = ((off mod TICKS_PER_SEC) * 1000) div TICKS_PER_SEC
      in lit ''t='' @ dec (unat secs) @ lit ''.'' @ pad_zeros 3 (unat ms))"

primrec type_label :: "msg_type \<Rightarrow> ustr" where
  "type_label Message = lit ''MESSAGE''"
| "type_label Event = lit ''EVENT''"
| "type_label Alarm = lit ''ALARM''"
| "type_label Number = lit ''NUMBER''"
| "type_label Series = lit ''SERIES''"
| "type_label EpochAnnounce = lit ''EPOCH''"
| "type_label TimeAnnounce = lit ''TIME_ANN''"
| "type_label TimeRequest = lit ''TIME_REQ''"
| "type_label Heartbeat = lit ''HEARTBEAT''"
| "type_label CapabilityAdvertise = lit ''CAPS''"

text \<open>\<open>escape\<close>; 92 is the backslash, 34 the double quote.\<close>

definition escape_byte :: "u8 \<Rightarrow> ustr" where
  "escape_byte b =
     (if b = 92 then [92, 92]
      else if 0x20 \<le> b \<and> b \<le> 0x7E then [unat b]
      else [92, 120] @ hex2_upper b)"

definition escape :: "bytes \<Rightarrow> ustr" where
  "escape body = concat (map escape_byte body)"

definition be16_at :: "bytes \<Rightarrow> nat \<Rightarrow> (u16, unit) result" where
  "be16_at body i = rbind (idx body i) (\<lambda>a. rbind (idx body (i + 1)) (\<lambda>b. Ok (from_be [a, b])))"

definition f32_over :: "nat \<Rightarrow> int \<Rightarrow> rat \<Rightarrow> ustr" where
  "f32_over prec v d = display_fixed prec (f32 (f32 (of_int v) / d))"

definition render_sensor :: "bytes \<Rightarrow> (ustr, unit) result" where
  "render_sensor body =
     rbind (be16_at body 0) (\<lambda>temp. rbind (be16_at body 2) (\<lambda>humidity.
     rbind (be16_at body 4) (\<lambda>pressure. rbind (be16_at body 6) (\<lambda>battery.
     rbind (be16_at body 8) (\<lambda>signal.
       Ok (lit ''temp='' @ f32_over 2 (sint temp) 100 @ lit ''C humidity=''
           @ f32_over 1 (int (unat humidity)) 10 @ lit ''% pressure=''
           @ f32_over 1 (int (unat pressure)) 10 @ lit ''hPa battery='' @ dec (unat battery)
           @ lit ''% rssi='' @ dec_int (sint signal) @ lit ''dBm''))))))"

definition render_event :: "bytes \<Rightarrow> (ustr, unit) result" where
  "render_event body =
     rbind (be16_at body 0) (\<lambda>seq. rbind (subslice body 2 (length body)) (\<lambda>name.
       Ok (lit ''seq='' @ pad_right 5 (dec (unat seq)) @ lit '' '' @ from_utf8_lossy name)))"

definition render_alarm :: "bytes \<Rightarrow> (ustr, unit) result" where
  "render_alarm body =
     rbind (idx body 2) (\<lambda>n. let n = unat n in
       if length body < 3 + n
       then Ok (lit ''MALFORMED alarm: severity length '' @ dec n @ lit '' overruns ''
                @ dec (length body) @ lit '' bytes'')
       else rbind (be16_at body 0) (\<lambda>seq. rbind (subslice body 3 (3 + n)) (\<lambda>severity.
            rbind (subslice body (3 + n) (length body)) (\<lambda>message.
              Ok (lit ''seq='' @ pad_right 5 (dec (unat seq)) @ lit '' ['' @ from_utf8_lossy severity
                  @ lit ''] '' @ from_utf8_lossy message)))))"

definition render :: "catp_record \<Rightarrow> (ustr, unit) result" where
  "render r =
     (let f = r_format r; v = r_schema_version r; body = r_body r; none = format_u8 FmtNone in
      if v = co_UNSTRUCTURED
      then Ok (lit ''unstructured('' @ pad_left 3 (dec (length body)) @ lit ''B) '' @ [34]
               @ escape body @ [34])
      else if f = none \<and> v = co_SENSOR_SCHEMA \<and> 10 \<le> length body then render_sensor body
      else if f = none \<and> v = co_EVENT_SCHEMA \<and> 3 \<le> length body then render_event body
      else if f = none \<and> v = co_ALARM_SCHEMA \<and> 3 \<le> length body then render_alarm body
      else if f = none \<and> v \<in> {co_SENSOR_SCHEMA, co_EVENT_SCHEMA, co_ALARM_SCHEMA}
      then Ok (lit ''MALFORMED record for schema_version='' @ dec (unat v) @ lit '': only ''
               @ dec (length body) @ lit '' bytes'')
      else Ok (lit ''unhandled layout (format=0x'' @ hex2_upper f @ lit '', schema_version=''
               @ dec (unat v) @ lit ''), '' @ dec (length body) @ lit '' bytes''))"

section \<open>One datagram\<close>

text \<open>\<open>for r in records\<close>: one line each.\<close>

fun record_lines :: "ustr \<Rightarrow> catp_record list \<Rightarrow> (ustr list, unit) result" where
  "record_lines pre [] = Ok []"
| "record_lines pre (r # rs) =
     rbind (render r) (\<lambda>t. rmap (\<lambda>ls. (pre @ t) # ls) (record_lines pre rs))"

definition reading_line :: "ustr \<Rightarrow> u32 \<Rightarrow> u8 \<Rightarrow> u32 \<times> i16 \<Rightarrow> ustr" where
  "reading_line from epoch scale r =
     (case r of (offset, mantissa) \<Rightarrow>
        from @ lit ''  '' @ at_text epoch offset @ lit ''  SERIES   '' @ format_scaled scale mantissa)"

definition skip_line :: "ustr \<Rightarrow> catp_record \<Rightarrow> ustr" where
  "skip_line from r =
     from @ lit ''  SKIP record format=0x'' @ hex2_upper (r_format r) @ lit '' schema_version=''
     @ dec (unat (r_schema_version r)) @ lit '' ('' @ dec (length (r_body r))
     @ lit '' bytes) - no layout held''"

definition accepted_lines :: "ustr \<Rightarrow> accepted \<Rightarrow> (ustr list, unit) result" where
  "accepted_lines from acc =
     (let d = a_datagram acc;
          when = at_text (a_epoch_id acc) (a_datagram_offset acc)
      in rmap (\<lambda>ls. ls @ map (skip_line from) (a_skipped acc))
        (case msg_type_from_u8 (d_msg_type d) of
           None \<Rightarrow> Ok []
         | Some mt \<Rightarrow>
             if mt = Number then
               Ok [from @ lit ''  '' @ when @ lit ''  NUMBER   ''
                   @ (case number_value d of
                        Some (scale, mantissa) \<Rightarrow> format_scaled scale mantissa
                      | None \<Rightarrow> lit ''MALFORMED'')]
             else if mt = Series then
               (case series_values d of
                  Some (scale, readings) \<Rightarrow> Ok (map (reading_line from (a_epoch_id acc) scale) readings)
                | None \<Rightarrow> Ok [from @ lit ''  '' @ when @ lit ''  SERIES   MALFORMED''])
             else if mt = Message \<or> mt = Event \<or> mt = Alarm then
               record_lines (from @ lit ''  '' @ when @ lit ''  '' @ pad_right 8 (type_label mt) @ lit '' '')
                 (d_records d)
             else
               Ok [from @ lit ''  '' @ when @ lit ''  '' @ pad_right 8 (type_label mt) @ lit '' (''
                   @ dec (length (d_raw d)) @ lit '' bytes)'']))"

definition stats_line :: "stats \<Rightarrow> ustr" where
  "stats_line s =
     lit ''[stats] accepted='' @ dec (unat (st_accepted s))
     @ lit '' too_short='' @ dec (unat (st_too_short s))
     @ lit '' unsupported_version='' @ dec (unat (st_unsupported_version s))
     @ lit '' bad_msg_type='' @ dec (unat (st_bad_msg_type s))
     @ lit '' unknown_sender='' @ dec (unat (st_unknown_sender s))
     @ lit '' cipher_mismatch='' @ dec (unat (st_cipher_mismatch s))
     @ lit '' epoch_out_of_window='' @ dec (unat (st_epoch_out_of_window s))
     @ lit '' auth_failed='' @ dec (unat (st_auth_failed s))
     @ lit '' replay='' @ dec (unat (st_replay s))
     @ lit '' framing='' @ dec (unat (st_framing s))
     @ lit '' rate_limited='' @ dec (unat (st_rate_limited s))
     @ lit '' skipped_records='' @ dec (unat (st_skipped_records s))"

section \<open>The loop\<close>

record console =
  cn_collector :: collector
  cn_printed :: u64

record console_input =
  ci_datagram :: bytes
  ci_from :: ustr \<comment> \<open>the sender's address as it is displayed\<close>
  ci_secs :: u64 \<comment> \<open>\<open>now_secs()\<close>\<close>
  ci_ms :: u64 \<comment> \<open>\<open>now_ms()\<close>, read later\<close>

text \<open>\<open>recv_from\<close> keeps what fits the buffer. The lines are those of standard output and error.\<close>

definition RECV_BUFFER :: nat where "RECV_BUFFER = 2048"

definition console_step ::
  "crypto \<Rightarrow> console \<Rightarrow> console_input \<Rightarrow> (ustr list \<times> ustr list, unit) result \<times> console" where
  "console_step C st i =
     (let buf = take RECV_BUFFER (ci_datagram i);
          local_epoch = epoch_id_at (ci_secs i)
      in case collector_accept C buf local_epoch NodeToCollector (ci_ms i) (cn_collector st) of
           (Panic, c) \<Rightarrow> (Panic, st\<lparr>cn_collector := c\<rparr>)
         | (r, c) \<Rightarrow>
             (let printed = cn_printed st + 1;
                  st = st\<lparr>cn_collector := c, cn_printed := printed\<rparr>;
                  err = (if printed mod 20 = 0 then [stats_line (collector_stats c)] else [])
              in (rmap (\<lambda>out. (out, err))
                    (case r of Ok acc \<Rightarrow> accepted_lines (ci_from i) acc | _ \<Rightarrow> Ok []), st)))"

section \<open>Escaping\<close>

text \<open>Escaped text is printable, and a reader of the escapes gets the bytes back.\<close>

definition unescape_one :: "ustr \<Rightarrow> (u8 \<times> nat, unit) result" where
  "unescape_one s = (case s of
     [] \<Rightarrow> Err ()
   | c # r \<Rightarrow>
       if c \<noteq> 92 then Ok (byte c, 1)
       else (case r of
          [] \<Rightarrow> Err ()
        | k # r \<Rightarrow>
            if k = 92 then Ok (92, 2)
            else (case r of
               h # l # _ \<Rightarrow>
                 (case (hex_value h, hex_value l) of
                    (Some a, Some b) \<Rightarrow> Ok (byte (16 * a + b), 4) | _ \<Rightarrow> Err ())
             | _ \<Rightarrow> Err ())))"

lemma unescape_one_progress: "unescape_one s = Ok (b, n) \<Longrightarrow> 0 < n \<and> n \<le> length s"
  by (auto simp: unescape_one_def split: list.splits if_splits option.splits)

function unescape :: "ustr \<Rightarrow> (bytes, unit) result" where
  "unescape s =
     (if s = [] then Ok []
      else case unescape_one s of
        Ok (b, n) \<Rightarrow> rmap (\<lambda>bs. b # bs) (unescape (drop n s)) | Err e \<Rightarrow> Err e | Panic \<Rightarrow> Panic)"
  by pat_completeness auto
termination
  by (relation "measure length") (auto dest!: unescape_one_progress)

declare unescape.simps [simp del]

lemma hex_value_upper: "d < 16 \<Longrightarrow> hex_value (hex_digit_upper d) = Some d"
  by (auto simp: hex_value_def hex_digit_upper_def)

lemma byte_join: "byte (16 * (unat b div 16) + unat b mod 16) = b"
  by (simp only: mult_div_mod_eq byte_def) simp

lemma unescape_one_escape: "unescape_one (escape_byte b @ s) = Ok (b, length (escape_byte b))"
proof -
  have "unat b = 92 \<longleftrightarrow> b = 92" by (simp add: word_unat_eq_iff)
  then show ?thesis
    using byte_join [of b]
    by (simp add: escape_byte_def unescape_one_def hex2_upper_def hex_value_upper byte_def)
qed

interpretation escape: stream_decoder "\<lambda>_. True" escape_byte unescape_one unescape
proof
  show "unescape_one (escape_byte b @ s) = Ok (b, length (escape_byte b))" for b s
    by (rule unescape_one_escape)
  show "escape_byte b \<noteq> []" for b by (simp add: escape_byte_def)
  show "unescape [] = Ok []" by (simp add: unescape.simps)
  fix s :: ustr and b n
  assume "s \<noteq> []" "unescape_one s = Ok (b, n)"
  then show "unescape s = rmap (\<lambda>bs. b # bs) (unescape (drop n s))"
    by (subst unescape.simps) simp
qed

lemma hex_digit_upper_printable: "d < 16 \<Longrightarrow> 32 \<le> hex_digit_upper d \<and> hex_digit_upper d \<le> 126"
  by (simp add: hex_digit_upper_def)

lemma printable_hex2_upper [simp]: "printable (hex2_upper b)"
  by (simp add: hex2_upper_def hex_digit_upper_printable)

lemma printable_escape [simp]: "printable (escape bs)"
proof (induction bs)
  case (Cons b bs)
  have "printable (escape_byte b)"
    by (simp add: escape_byte_def word_le_nat_alt)
  with Cons show ?case by (simp add: escape_def)
qed (simp add: escape_def)

lemma escape_plain: "printable s \<Longrightarrow> 92 \<notin> set s \<Longrightarrow> escape (map byte s) = s"
proof (induction s)
  case (Cons c s)
  then have c: "32 \<le> c" "c \<le> 126" "c \<noteq> 92" by auto
  then have "byte c \<noteq> 92" "0x20 \<le> byte c" "byte c \<le> 0x7E"
    by (simp_all add: word_unat_eq_iff word_le_nat_alt)
  with c Cons show ?case by (simp add: escape_def escape_byte_def)
qed (simp add: escape_def)

section \<open>Nothing panics\<close>

lemma be16_at_ok: "Suc i < length body \<Longrightarrow> be16_at body i = Ok (from_be [body ! i, body ! Suc i])"
  by (simp add: be16_at_def)

lemma render_total: "\<exists>t. render r = Ok t"
  by (auto simp: render_def render_sensor_def render_event_def render_alarm_def be16_at_ok Let_def not_less
      rbind_eq_Panic)

lemma record_lines_total: "\<exists>ls. record_lines pre rs = Ok ls"
proof (induction rs)
  case (Cons r rs)
  obtain t where "render r = Ok t" using render_total by blast
  with Cons show ?case by auto
qed simp

lemma accepted_lines_total: "\<exists>ls. accepted_lines from acc = Ok ls"
proof -
  have "\<exists>ls. rmap f (record_lines pre rs) = Ok ls" for f :: "ustr list \<Rightarrow> ustr list" and pre rs
    using record_lines_total [of pre rs] by auto
  then show ?thesis by (auto simp: accepted_lines_def Let_def split: option.split)
qed

text \<open>The life of the program: its registry at the start, then one datagram after another.\<close>

inductive console_life :: "crypto \<Rightarrow> console \<Rightarrow> bool" for C where
  opened: "open_collector env dir fs = Ok c \<Longrightarrow> console_life C \<lparr>cn_collector = c, cn_printed = 0\<rparr>"
| turn: "console_life C st \<Longrightarrow> console_step C st i = (r, st') \<Longrightarrow> console_life C st'"

lemma provision_bundles_reachable:
  "provision_bundles bs c = Ok c' \<Longrightarrow> reachable C c \<Longrightarrow> reachable C c'"
proof (induction bs arbitrary: c)
  case (Cons b bs)
  from Cons.prems(1) obtain cfg c1 where
    "provision cfg c = (Ok (), c1)" "provision_bundles bs c1 = Ok c'"
    by (auto split: result.splits prod.splits)
  with Cons.IH Cons.prems(2) show ?case by (blast intro: reachable.provisioned)
qed simp

lemma open_collector_reachable: "open_collector env dir fs = Ok c \<Longrightarrow> reachable C c"
  by (auto simp: open_collector_def split: option.splits result.splits prod.splits
      intro: provision_bundles_reachable reachable.start reachable.provisioned)

lemma console_step_state:
  assumes "console_step C st i = (r, st')"
  shows "\<exists>r. collector_accept C (take 2048 (ci_datagram i)) (epoch_id_at (ci_secs i)) NodeToCollector
      (ci_ms i) (cn_collector st) = (r, cn_collector st')"
  using assms by (auto simp: console_step_def RECV_BUFFER_def Let_def split: prod.splits result.splits)

lemma console_life_reachable: "console_life C st \<Longrightarrow> reachable C (cn_collector st)"
proof (induction rule: console_life.induct)
  case (opened env dir fs c)
  then show ?case by (simp add: open_collector_reachable)
next
  case (turn st i r st')
  with console_step_state [OF turn(2)] show ?case by (auto intro: reachable.received)
qed

lemma collector_accept_not_Panic:
  assumes "collector_ok c" and "collector_accept C buf local dir now c = (r, c')"
  shows "r \<noteq> Panic"
  using assms(2)
proof (cases rule: collector_accept_cases)
  case (peer i p p')
  have "slots_ok (ps_windows p)" using assms(1) peer(3) by (auto simp: collector_ok_def)
  from peer_accept_spec [OF this peer(4)] show ?thesis using peer_verdict_not_Panic by metis
qed simp_all

lemma console_step_total:
  assumes "collector_ok (cn_collector st)"
  shows "\<exists>out. fst (console_step C st i) = Ok out"
proof -
  obtain r c where a: "collector_accept C (take RECV_BUFFER (ci_datagram i)) (epoch_id_at (ci_secs i))
      NodeToCollector (ci_ms i) (cn_collector st) = (r, c)" by fastforce
  show ?thesis
  proof (cases r)
    case (Ok acc)
    obtain ls where "accepted_lines (ci_from i) acc = Ok ls" using accepted_lines_total by blast
    with a Ok show ?thesis by (simp add: console_step_def Let_def)
  next
    case (Err e)
    with a show ?thesis by (simp add: console_step_def Let_def)
  next
    case Panic
    with collector_accept_not_Panic [OF assms a] show ?thesis by simp
  qed
qed

section \<open>The displayed instant\<close>

lemma at_text_eq:
  "at_text e off = lit ''t='' @ dec (unat e * 128 + unat off div 4096) @ lit ''.''
     @ pad_zeros 3 (unat off mod 4096 * 1000 div 4096)"
proof -
  have e: "unat e < 4294967296" and o: "unat off < 4294967296" by (rule unat_u32_less)+
  have q: "unat ((ucast off :: u64) div 4096) = unat off div 4096"
    using o by (simp add: unat_div unat_ucast_mod)
  have b: "unat ((ucast e :: u64) * 128) = unat e * 128"
    using e by (simp add: unat_word_ariths(2) unat_ucast_mod)
  have "unat (ucast e * 128 + (ucast off :: u64) div 4096) = unat e * 128 + unat off div 4096"
    unfolding unat_word_ariths(1) b q using e o by simp
  moreover have "unat (((ucast off :: u64) mod 4096) * 1000) = unat off mod 4096 * 1000"
    using mod_less_divisor [of 4096 "unat off"]
    using o by (simp add: unat_word_ariths(2) unat_mod unat_ucast_mod)
  then have "unat (((ucast off :: u64) mod 4096) * 1000 div 4096) = unat off mod 4096 * 1000 div 4096"
    by (simp add: unat_div)
  ultimately show ?thesis by (simp add: at_text_def Let_def)
qed

lemma printable_at_text [simp]: "printable (at_text e off)"
  by (simp add: at_text_eq printable_lit)

section \<open>Properties\<close>

text \<open>C23: \<open>escape\<close> is lossless and safe for a terminal: whatever the bytes, its output is printable ASCII,
  and reading the escapes gives exactly the bytes back.\<close>

theorem escape_lossless_printable: "printable (escape bs) \<and> unescape (escape bs) = Ok bs"
  using escape.dec_all_enc [of bs] by (simp add: escape_def [symmetric])

text \<open>C12: No datagram and no peer can stop the collector: at any point of its life, from either way of
  provisioning it, the next datagram, whatever its bytes, is handled and its lines are printed.\<close>

theorem console_never_panics:
  assumes "console_life C st"
  shows "\<exists>out. fst (console_step C st i) = Ok out"
  using console_step_total [OF reachable_ok [OF console_life_reachable [OF assms]]] .

lemma open_demo: "\<exists>c. open_collector env None fs = Ok c"
  by (simp add: open_collector_def provision_def demo_config_def peer_new_def Let_def)

theorem console_never_panics_witness:
  "\<forall>env fs. \<exists>c. open_collector env None fs = Ok c
     \<and> (\<exists>out. fst (console_step demo_crypto \<lparr>cn_collector = c, cn_printed = 0\<rparr>
                   \<lparr>ci_datagram = [1, 2], ci_from = lit ''peer'', ci_secs = 5, ci_ms = 6\<rparr>) = Ok out)"
proof (intro allI)
  fix env fs
  obtain c where c: "open_collector env None fs = Ok c" using open_demo by blast
  then show "\<exists>c. open_collector env None fs = Ok c
     \<and> (\<exists>out. fst (console_step demo_crypto \<lparr>cn_collector = c, cn_printed = 0\<rparr>
                   \<lparr>ci_datagram = [1, 2], ci_from = lit ''peer'', ci_secs = 5, ci_ms = 6\<rparr>) = Ok out)"
    using console_never_panics [OF console_life.opened [OF c]] by blast
qed

text \<open>C24: The instant the collector prints is the clock reading the offset was taken from: for epoch and
  offset of a reading it shows the same second, and the millisecond at or up to 1.245 ms before it.\<close>

theorem displayed_instant_close:
  assumes "unat s < 2 ^ 39" and "unat n < 1000000000"
  shows "\<exists>ms. at_text (epoch_id_at s) (epoch_offset_at s n)
      = lit ''t='' @ dec (unat s) @ lit ''.'' @ pad_zeros 3 ms
    \<and> ms < 1000 \<and> ms * 1000000 \<le> unat n \<and> unat n < ms * 1000000 + 1245000"
proof -
  define t where "t = unat n * 4096 div 1000000000"
  have t: "t < 4096" "t * 1000000000 \<le> unat n * 4096" "unat n * 4096 < 1000000000 + t * 1000000000"
    using assms(2) unfolding t_def by (auto simp: less_mult_imp_div_less intro: dividend_less_div_times)
  have off: "unat (epoch_offset_at s n) = unat s mod 128 * 4096 + t"
    using t(1) mod_less_divisor [of 128 "unat s"] by (simp add: unat_epoch_offset_at t_def [symmetric])
  have e: "unat (epoch_id_at s) = unat s div 128" using assms(1) by (simp add: unat_epoch_id_at)
  have "at_text (epoch_id_at s) (epoch_offset_at s n)
      = lit ''t='' @ dec (unat s) @ lit ''.'' @ pad_zeros 3 (t * 1000 div 4096)"
    using t(1) by (simp add: at_text_eq off e)
  then have at: "\<exists>ms. at_text (epoch_id_at s) (epoch_offset_at s n)
      = lit ''t='' @ dec (unat s) @ lit ''.'' @ pad_zeros 3 ms \<and> ms = t * 1000 div 4096" by blast
  define ms where "ms = t * 1000 div 4096"
  have "ms * 4096 \<le> t * 1000" unfolding ms_def by (rule div_times_less_eq_dividend)
  moreover have "t * 1000 \<le> 4096 + ms * 4096"
    unfolding ms_def by (intro less_imp_le dividend_less_div_times) simp
  ultimately have "ms < 1000" "ms * 1000000 \<le> unat n" "unat n < ms * 1000000 + 1245000"
    using t by linarith+
  with at show ?thesis unfolding ms_def by blast
qed

theorem displayed_instant_close_witness:
  "\<exists>ms. at_text (epoch_id_at 1700000000) (epoch_offset_at 1700000000 250000000)
      = lit ''t='' @ dec 1700000000 @ lit ''.'' @ pad_zeros 3 ms
    \<and> ms < 1000 \<and> ms * 1000000 \<le> 250000000 \<and> 250000000 < ms * 1000000 + 1245000"
  using displayed_instant_close [of 1700000000 250000000] by simp

end
