(* ===== verification/Catp_Demo.thy ===== *)
theory Catp_Demo
  imports Catp_Sender Catp_Console
begin

text \<open>
  The demonstration sender and the demonstration collector together: what the collector prints for a
  datagram of the sender, and the session of both, in which datagrams may be lost or come late but
  not overtake each other.
\<close>

section \<open>What the collector prints\<close>

definition shown_lines :: "ustr \<Rightarrow> message_kind \<Rightarrow> u32 \<Rightarrow> u32 \<Rightarrow> u32 \<Rightarrow> ustr list" where
  "shown_lines from kind seq epoch offset =
     (let head = (\<lambda>off. from @ lit ''  '' @ at_text epoch off @ lit ''  '');
          v = sensor_values seq;
          number = lit ''seq='' @ pad_right 5 (dec (unat (ucast seq :: u16)))
      in case kind of
        KMessage \<Rightarrow>
          [head offset @ lit ''MESSAGE  '' @ reading_text v,
           head offset @ lit ''MESSAGE  unstructured('' @ pad_left 3 (dec (length (reading_text v)))
           @ lit ''B) '' @ [34] @ reading_text v @ [34]]
      | KNumber \<Rightarrow> [head offset @ lit ''NUMBER   '' @ decimal 2 (sint (fst v))]
      | KSeries \<Rightarrow>
          map (\<lambda>i. head (offset + i * 200) @ lit ''SERIES   ''
                   @ decimal 2 (sint (fst (sensor_values (seq + i))))) [0, 1, 2]
      | KEvent \<Rightarrow> [head offset @ lit ''EVENT    '' @ number @ lit '' '' @ event_payload seq]
      | KAlarm \<Rightarrow>
          [head offset @ lit ''ALARM    '' @ number @ lit '' ['' @ fst (alarm_payload seq)
           @ lit ''] '' @ snd (alarm_payload seq)])"

lemma be16_at_prefix: "length p = i \<Longrightarrow> be16_at (p @ be_bytes 2 w @ r) i = Ok w"
proof -
  obtain a b where ab: "be_bytes 2 w = [a, b]" using be_bytes_2_conv by blast
  then have "from_be [a, b] = w" using from_be_2 [of w] by simp
  with ab show "length p = i \<Longrightarrow> be16_at (p @ be_bytes 2 w @ r) i = Ok w"
    by (simp add: be16_at_ok nth_append)
qed

lemma render_sensor_bytes: "render_sensor (sensor_bytes v) = Ok (reading_text v)"
proof -
  obtain t h p b s where v: "v = (t, h, p, b, s)" by (cases v)
  let ?b = "sensor_bytes v"
  have "be16_at ?b 0 = Ok t" "be16_at ?b 2 = Ok h" "be16_at ?b 4 = Ok p" "be16_at ?b 6 = Ok b"
    "be16_at ?b 8 = Ok s"
    using be16_at_prefix [of "[]" 0 t "be_bytes 2 h @ be_bytes 2 p @ be_bytes 2 b @ be_bytes 2 s"]
      be16_at_prefix [of "be_bytes 2 t" 2 h "be_bytes 2 p @ be_bytes 2 b @ be_bytes 2 s"]
      be16_at_prefix [of "be_bytes 2 t @ be_bytes 2 h" 4 p "be_bytes 2 b @ be_bytes 2 s"]
      be16_at_prefix [of "be_bytes 2 t @ be_bytes 2 h @ be_bytes 2 p" 6 b "be_bytes 2 s"]
      be16_at_prefix [of "be_bytes 2 t @ be_bytes 2 h @ be_bytes 2 p @ be_bytes 2 b" 8 s "[]"]
    by (simp_all add: v sensor_bytes_def)
  then show ?thesis
    by (simp add: render_sensor_def v reading_text_def f32_over_def show_i16_def show_u16_def)
qed

lemma no_backslash_dec: "92 \<notin> set (dec n)" "92 \<notin> set (dec_int i)" "92 \<notin> set (decimal s m)"
proof -
  show d: "92 \<notin> set (dec n)" for n using dec_digits [of 92 n] by auto
  show "92 \<notin> set (dec_int i)" "92 \<notin> set (decimal s m)"
    using d by (auto simp: dec_int_def decimal_def pad_zeros_def Let_def)
qed

lemma escape_reading_text: "escape (map byte (reading_text v)) = reading_text v"
proof -
  obtain t h p b s where v: "v = (t, h, p, b, s)" by (cases v)
  have "92 \<notin> set (lit ''temp='')" "92 \<notin> set (lit ''C humidity='')" "92 \<notin> set (lit ''% pressure='')"
    "92 \<notin> set (lit ''hPa battery='')" "92 \<notin> set (lit ''% rssi='')" "92 \<notin> set (lit ''dBm'')"
    by (simp_all add: lit_def)
  then have "92 \<notin> set (reading_text v)" by (simp add: v reading_text_decimal no_backslash_dec)
  then show ?thesis by (simp add: escape_plain)
qed

lemma lossy_printable: "printable s \<Longrightarrow> from_utf8_lossy (map byte s) = s"
  using from_utf8_lossy_as_bytes [of s] by (auto simp: as_bytes_printable dest!: printable_ascii intro: ascii_scalar)

lemma render_event_body: "render_event (event_body seq) =
    Ok (lit ''seq='' @ pad_right 5 (dec (unat (ucast seq :: u16))) @ lit '' '' @ event_payload seq)"
  using be16_at_prefix [of "[]" 0 "ucast seq" "map byte (event_payload seq)"]
  by (simp add: render_event_def event_body_def as_bytes_printable lossy_printable)

lemma render_alarm_body: "render_alarm (alarm_body seq) =
    Ok (lit ''seq='' @ pad_right 5 (dec (unat (ucast seq :: u16))) @ lit '' ['' @ fst (alarm_payload seq)
        @ lit ''] '' @ snd (alarm_payload seq))"
proof -
  let ?s = "fst (alarm_payload seq)" and ?m = "snd (alarm_payload seq)"
  define p where "p = be_bytes 2 (ucast seq :: u16) @ [of_nat (length ?s)]"
  have b: "alarm_body seq = p @ map byte ?s @ map byte ?m"
    by (simp add: p_def alarm_body_def split_beta as_bytes_printable)
  have p: "length p = 3" "p ! 2 = of_nat (length ?s)" by (simp_all add: p_def nth_append)
  have n: "unat (of_nat (length ?s) :: u8) = length ?s"
    using payload_texts(6) [of seq] by (simp add: unat_of_nat del: payload_texts(6))
  have seq: "be16_at (p @ r) 0 = Ok (ucast seq)" for r
    using be16_at_prefix [of "[]" 0 "ucast seq" "of_nat (length ?s) # r"] by (simp add: p_def)
  show ?thesis
    by (simp add: render_alarm_def b p n seq Let_def nth_append lossy_printable)
qed

lemma demo_knows: "r_format r = 1 \<Longrightarrow> r_schema_version r \<in> {1, 2, 3, 0xFF} \<Longrightarrow> knows_layout demo_config r"
  by (auto simp: knows_layout_def demo_config_def co_consts)

lemma accepted_of_known:
  "\<forall>r \<in> set (d_records d). knows_layout demo_config r \<Longrightarrow>
   accepted_of demo_config e d
   = \<lparr>a_datagram = d, a_epoch_id = e, a_datagram_offset = d_offset d, a_skipped = []\<rparr>"
  by (cases d) (simp add: accepted_of_def)

lemma render_known:
  "render (record_new FmtNone 1 (sensor_bytes v)) = Ok (reading_text v)"
  "render (record_new FmtNone 2 (event_body seq)) = render_event (event_body seq)"
  "render (record_new FmtNone 3 (alarm_body seq)) = render_alarm (alarm_body seq)"
  "render (record_new FmtNone 0xFF body)
   = Ok (lit ''unstructured('' @ pad_left 3 (dec (length body)) @ lit ''B) '' @ [34] @ escape body @ [34])"
proof -
  have "3 \<le> length (event_body seq)"
    using payload_texts(2) [of seq]
    by (simp add: event_body_def as_bytes_printable Suc_le_eq del: payload_texts(2))
  moreover have "3 \<le> length (alarm_body seq)" by (simp add: alarm_body_def split_beta)
  ultimately show
    "render (record_new FmtNone 1 (sensor_bytes v)) = Ok (reading_text v)"
    "render (record_new FmtNone 2 (event_body seq)) = render_event (event_body seq)"
    "render (record_new FmtNone 3 (alarm_body seq)) = render_alarm (alarm_body seq)"
    "render (record_new FmtNone 0xFF body)
     = Ok (lit ''unstructured('' @ pad_left 3 (dec (length body)) @ lit ''B) '' @ [34] @ escape body @ [34])"
    by (simp_all add: render_def record_new_def co_consts Let_def render_sensor_bytes)
qed

lemma format_scaled_2: "format_scaled 2 m = decimal 2 (sint m)"
  using format_scaled_decimal [of 2 m] by simp

lemma head_labels:
  "pad_right 8 (lit ''MESSAGE'') @ lit '' '' @ t = lit ''MESSAGE  '' @ t"
  "pad_right 8 (lit ''EVENT'') @ lit '' '' @ t = lit ''EVENT    '' @ t"
  "pad_right 8 (lit ''ALARM'') @ lit '' '' @ t = lit ''ALARM    '' @ t"
  by (simp_all add: pad_right_def lit_def numeral_eq_Suc)

lemma unstructured_label: "lit ''MESSAGE  '' @ lit ''unstructured('' @ t = lit ''MESSAGE  unstructured('' @ t"
  by (simp add: lit_def)

lemma series_label: "lit ''  SERIES   '' @ t = lit ''  '' @ lit ''SERIES   '' @ t"
  "lit ''  NUMBER   '' @ t = lit ''  '' @ lit ''NUMBER   '' @ t"
  by (simp_all add: lit_def)

lemma accepted_lines_sent:
  assumes d: "make_datagram kind seq epoch offset = Ok d" and off: "offset < TICKS_PER_EPOCH"
  shows "accepted_lines from (accepted_of demo_config epoch d) = Ok (shown_lines from kind seq epoch offset)"
proof (cases kind)
  case KMessage
  with d off have dd: "d = (base Message CIPHER SENDER_ID epoch offset)\<lparr>d_records := make_records seq\<rparr>"
    by (auto simp: make_datagram_def data_datagram_def split: if_splits)
  have "\<forall>r \<in> set (d_records d). knows_layout demo_config r"
    by (auto simp: dd make_records_def Let_def sender_consts record_new_def intro!: demo_knows)
  from accepted_of_known [OF this] show ?thesis
    by (simp add: accepted_lines_def KMessage dd make_records_def Let_def sender_consts render_known
        shown_lines_def escape_reading_text head_labels unstructured_label as_bytes_printable
        msg_type_from_u8_def)
next
  case KNumber
  with d off have dd: "d = (base Number CIPHER SENDER_ID epoch offset)\<lparr>d_raw := 2 # be_bytes 2 (fst (sensor_values seq))\<rparr>"
    by (auto simp: make_datagram_def number_datagram_def make_number_def sender_consts split_beta split: if_splits)
  have "validate_number (2 # be_bytes 2 (fst (sensor_values seq))) = Ok (2, fst (sensor_values seq))"
    by (simp add: validate_number_Ok scale_is_valid_def)
  moreover have "\<forall>r \<in> set (d_records d). knows_layout demo_config r" by (simp add: dd)
  ultimately show ?thesis
    using accepted_of_known [of d epoch]
    by (simp add: accepted_lines_def KNumber dd number_value_def Let_def shown_lines_def format_scaled_2
        series_label msg_type_from_u8_def)
next
  case KSeries
  from d have b: "batch_ok (make_readings seq offset)"
    and dd: "d = (base Series CIPHER SENDER_ID epoch offset)\<lparr>d_raw := batch_bytes 2 (make_readings seq offset)\<rparr>"
    by (auto simp: KSeries make_datagram_def series_datagram_iff sender_consts make_readings_list)
  have "validate_series (batch_bytes 2 (make_readings seq offset)) offset = Ok (2, make_readings seq offset)"
    using validate_series_encode [OF _ b, of 2] by (simp add: scale_is_valid_def make_readings_list)
  moreover have "\<forall>r \<in> set (d_records d). knows_layout demo_config r" by (simp add: dd)
  ultimately show ?thesis
    using accepted_of_known [of d epoch]
    by (simp add: accepted_lines_def KSeries dd series_values_def Let_def shown_lines_def format_scaled_2
        series_label reading_line_def make_readings_list msg_type_from_u8_def)
next
  case KEvent
  with d off have dd: "d = (base Event CIPHER SENDER_ID epoch offset)
      \<lparr>d_records := [record_new FmtNone EVENT_SCHEMA (event_body seq)]\<rparr>"
    by (auto simp: make_datagram_def data_datagram_def split: if_splits)
  have "\<forall>r \<in> set (d_records d). knows_layout demo_config r"
    by (auto simp: dd sender_consts record_new_def intro!: demo_knows)
  from accepted_of_known [OF this] show ?thesis
    by (simp add: accepted_lines_def KEvent dd Let_def sender_consts render_known render_event_body
        shown_lines_def head_labels msg_type_from_u8_def)
next
  case KAlarm
  with d off have dd: "d = (base Alarm CIPHER SENDER_ID epoch offset)
      \<lparr>d_records := [record_new FmtNone ALARM_SCHEMA (alarm_body seq)]\<rparr>"
    by (auto simp: make_datagram_def data_datagram_def split: if_splits)
  have "\<forall>r \<in> set (d_records d). knows_layout demo_config r"
    by (auto simp: dd sender_consts record_new_def intro!: demo_knows)
  from accepted_of_known [OF this] show ?thesis
    by (simp add: accepted_lines_def KAlarm dd Let_def sender_consts render_known render_alarm_body
        shown_lines_def head_labels msg_type_from_u8_def)
qed

section \<open>One datagram at the collector\<close>

text \<open>A datagram on its way: the bytes, and the sequence number, epoch and offset they were made from.\<close>

type_synonym flight = "bytes \<times> u32 \<times> u32 \<times> u32"

fun flight_key :: "flight \<Rightarrow> u32 \<times> u32" where
  "flight_key (wire, seq, e, off) = (e, off)"

fun flight_ok :: "crypto \<Rightarrow> flight \<Rightarrow> bool" where
  "flight_ok C (wire, seq, e, off) =
     (off < TICKS_PER_EPOCH \<and>
      (\<exists>d. make_datagram (choose_kind seq) seq e off = Ok d \<and> sender_datagram (choose_kind seq) e off d
         \<and> wire = wire_image C CIPHER d SECRET e NodeToCollector))"

lemma same_constants:
  "co_SENDER_ID = SENDER_ID" "co_SECRET = SECRET" "co_CIPHER = CIPHER"
  by (simp_all add: co_SENDER_ID_def SENDER_ID_def co_SECRET_def SECRET_def co_CIPHER_def CIPHER_def)

lemma demo_config_simps [simp]:
  "p_sender_id demo_config = SENDER_ID" "p_secret demo_config = SECRET" "p_cipher demo_config = CIPHER"
  by (simp_all add: demo_config_def same_constants)

text \<open>The latest offset a window holds, per epoch.\<close>

definition window_tops :: "slots \<Rightarrow> (u32 \<times> u32) set" where
  "window_tops ws = {(e, hi). \<exists>w. slot_get ws e = Some w \<and> rw_high w = Some hi}"

lemma check_and_set_above:
  "\<forall>hi. rw_high w = Some hi \<longrightarrow> hi < off \<Longrightarrow>
   \<exists>w'. check_and_set w off = (Ok (), w') \<and> rw_high w' = Some off"
  by (cases "rw_high w") (auto simp: check_and_set_def Let_def)

lemma accept_inner_windows:
  assumes "9 \<le> length buf" and "reconstruct_epoch local (buf ! 1 AND 0x0F) = Some e"
  shows "ps_windows (snd (accept_inner C buf local dir now s))
    = snd (with_window local e (decode C buf (ps_config s) local dir) (ps_windows s))"
  using assms by (auto simp: accept_inner_def split: prod.splits result.splits option.splits)

definition granted :: "peer_state \<Rightarrow> u64 \<Rightarrow> bool" where
  "granted p now = (case ps_limiter p of None \<Rightarrow> True | Some l \<Rightarrow> fst (try_acquire l now))"

lemma peer_hears_flight:
  assumes C: "ct_eq_decides C" and f: "flight_ok C (wire, seq, e, off)"
    and p: "ps_config p = demo_config" "slots_ok (ps_windows p)" and local: "in_epoch_window local e"
    and tops: "\<forall>k \<in> window_tops (ps_windows p). k < (e, off)"
    and acc: "peer_accept C wire local NodeToCollector now p = (r, p')"
  shows "\<exists>d. make_datagram (choose_kind seq) seq e off = Ok d
      \<and> r = (if granted p now then Ok (accepted_of demo_config e d) else Err RateLimited)"
    and "ps_config p' = demo_config" and "slots_ok (ps_windows p')"
    and "window_tops (ps_windows p') \<subseteq> insert (e, off) (window_tops (ps_windows p))"
    and "9 \<le> length wire" and "from_be [wire ! 5, wire ! 6, wire ! 7, wire ! 8] = SENDER_ID"
proof -
  obtain d where d: "make_datagram (choose_kind seq) seq e off = Ok d"
    "sender_datagram (choose_kind seq) e off d" "wire = wire_image C CIPHER d SECRET e NodeToCollector"
    using f by auto
  let ?w = "window_at slot_get (ps_windows p) e"
  have "hi < off" if "rw_high ?w = Some hi" for hi
  proof -
    have "slot_get (ps_windows p) e = Some ?w"
      using that by (auto simp: window_at_def one_second_def window_new_def split: option.splits)
    with that have "(e, hi) \<in> window_tops (ps_windows p)" by (auto simp: window_tops_def)
    with tops show ?thesis by auto
  qed
  then obtain w' where w': "check_and_set ?w off = (Ok (), w')" "rw_high w' = Some off"
    using check_and_set_above [of ?w off] by blast
  have "decode C wire demo_config local NodeToCollector ?w = (Ok (accepted_of demo_config e d), w')"
  proof (rule decode_encoded [OF C])
    show "encode C d (p_secret demo_config) e NodeToCollector MAX_DATAGRAM_IPV4 = Ok wire"
      using sender_datagram_encodes [OF d(2)] d(3) by simp
    show "datagram_wf (kind_type (choose_kind seq)) d" using d(2) by (simp add: sender_datagram_def)
  qed (use d(2) w' local in \<open>simp_all add: sender_datagram_def\<close>)
  note dec = this
  note eff = decode_Ok_effect [OF dec]
  have rec: "reconstruct_epoch local (wire ! 1 AND 0x0F) = Some e" using eff(3) by (simp add: accepted_of_def)
  note spec = peer_accept_spec [OF p(2) acc]
  have "r = peer_verdict C wire local NodeToCollector now p" using spec by simp
  also have "\<dots> = (if granted p now then Ok (accepted_of demo_config e d) else Err RateLimited)"
    using eff(2) rec p(1) dec by (auto simp: peer_verdict_def granted_def split: option.split)
  finally show "\<exists>d. make_datagram (choose_kind seq) seq e off = Ok d
      \<and> r = (if granted p now then Ok (accepted_of demo_config e d) else Err RateLimited)"
    using d(1) by blast
  show "ps_config p' = demo_config" "slots_ok (ps_windows p')" using spec p(1) by simp_all
  show "9 \<le> length wire" by (rule eff(2))
  show "from_be [wire ! 5, wire ! 6, wire ! 7, wire ! 8] = SENDER_ID"
    using eff(4) d(2) by (simp add: accepted_of_def sender_datagram_def)
  obtain r' ws where ww: "with_window local e (decode C wire demo_config local NodeToCollector) (ps_windows p) = (r', ws)"
    by fastforce
  have "ps_windows p' = snd (with_window local e (decode C wire (ps_config p) local NodeToCollector) (ps_windows p))"
    using acc accept_inner_windows [OF eff(2) rec, of C NodeToCollector now p]
    by (auto simp: peer_accept_def split: prod.splits)
  then have "ps_windows p' = ws" by (simp add: p(1) ww)
  with with_window_spec [OF p(2) local ww] w'(2) dec
  show "window_tops (ps_windows p') \<subseteq> insert (e, off) (window_tops (ps_windows p))"
    by (auto simp: window_tops_def split: if_splits)
qed

section \<open>The session\<close>

text \<open>
  Sender, channel and collector. The channel keeps the order of the datagrams; it may lose any, and
  delays each at most until the end of its acceptance window. In between the collector receives
  anything that does not name the demonstration sender. The sender's clock does not step back
  across an epoch boundary; the collector's clock is arbitrary.
\<close>

inductive session :: "crypto \<Rightarrow> sender_state \<Rightarrow> flight list \<Rightarrow> console \<Rightarrow> bool" for C where
  start: "open_collector env None fs = Ok c \<Longrightarrow> session C sender_start [] \<lparr>cn_collector = c, cn_printed = 0\<rparr>"
| send:
    "session C st ch cn \<Longrightarrow> sender_clock_ok st (secs, nanos, True) \<Longrightarrow>
     sender_step C st secs nanos True = (Ok (Sent wire line), st') \<Longrightarrow>
     session C st' (ch @ [(wire, sn_seq st', epoch_id_at secs, epoch_offset_at secs nanos)]) cn"
| silent:
    "session C st ch cn \<Longrightarrow> sender_clock_ok st (secs, nanos, True) \<Longrightarrow>
     sender_step C st secs nanos True = (Ok r, st') \<Longrightarrow> \<nexists>wire line. r = Sent wire line \<Longrightarrow>
     session C st' ch cn"
| lose: "session C st (f # ch) cn \<Longrightarrow> session C st ch cn"
| deliver:
    "session C st ((wire, seq, e, off) # ch) cn \<Longrightarrow> ci_datagram i = wire \<Longrightarrow>
     in_epoch_window (epoch_id_at (ci_secs i)) e \<Longrightarrow> console_step C cn i = (r, cn') \<Longrightarrow>
     session C st ch cn'"
| foreign:
    "session C st ch cn \<Longrightarrow> header_sender (take RECV_BUFFER (ci_datagram i)) \<noteq> Ok co_SENDER_ID \<Longrightarrow>
     console_step C cn i = (r, cn') \<Longrightarrow> session C st ch cn'"

text \<open>
  In a session the keys of the windows, of the channel and of the pacer are in this order.
\<close>

definition keys_ordered :: "'a::linorder option \<Rightarrow> 'a list \<Rightarrow> 'a set \<Rightarrow> bool" where
  "keys_ordered bnd keys tops \<longleftrightarrow> sorted_wrt (<) keys
     \<and> (\<forall>t \<in> tops. \<forall>k \<in> set keys. t < k)
     \<and> (\<forall>x \<in> tops \<union> set keys. \<exists>f. bnd = Some f \<and> x \<le> f)"

definition in_session :: "crypto \<Rightarrow> sender_state \<Rightarrow> flight list \<Rightarrow> console \<Rightarrow> bool" where
  "in_session C st ch cn \<longleftrightarrow> list_all (flight_ok C) ch \<and>
     (\<exists>p. peer_mut SENDER_ID (cn_collector cn) = Some p \<and> ps_config p = demo_config
        \<and> slots_ok (ps_windows p)
        \<and> keys_ordered (pacer_floor (sn_pacer st)) (map flight_key ch) (window_tops (ps_windows p)))"

lemma in_session_cases:
  assumes "in_session C st ch cn"
  obtains p where "list_all (flight_ok C) ch" "peer_mut SENDER_ID (cn_collector cn) = Some p"
    "ps_config p = demo_config" "slots_ok (ps_windows p)"
    "keys_ordered (pacer_floor (sn_pacer st)) (map flight_key ch) (window_tops (ps_windows p))"
  using assms by (auto simp: in_session_def)

lemma keys_ordered_grow:
  assumes "keys_ordered bnd keys tops" and "\<And>f. bnd = Some f \<Longrightarrow> f < k"
  shows "keys_ordered (Some k) (keys @ [k]) tops"
proof -
  have "x < k" if "x \<in> tops \<union> set keys" for x
  proof -
    have "\<forall>x \<in> tops \<union> set keys. \<exists>f. bnd = Some f \<and> x \<le> f"
      using assms(1) unfolding keys_ordered_def by (elim conjE)
    with that obtain f where "bnd = Some f" "x \<le> f" by metis
    from this(2) assms(2) [OF this(1)] show ?thesis by (rule le_less_trans)
  qed
  with assms(1) show ?thesis
    by (auto simp: keys_ordered_def sorted_wrt_append intro: less_imp_le)
qed

lemma keys_ordered_floor:
  assumes "keys_ordered bnd keys tops" and "\<And>f. bnd = Some f \<Longrightarrow> \<exists>f'. bnd' = Some f' \<and> f \<le> f'"
  shows "keys_ordered bnd' keys tops"
  using assms unfolding keys_ordered_def by (meson order_trans)

lemma keys_ordered_drop: "keys_ordered bnd (k # keys) tops \<Longrightarrow> keys_ordered bnd keys tops"
  by (auto simp: keys_ordered_def)

lemma keys_ordered_take:
  assumes "keys_ordered bnd (k # keys) tops" and "tops' \<subseteq> insert k tops"
  shows "keys_ordered bnd keys tops'"
proof -
  have t: "t \<in> tops' \<Longrightarrow> t = k \<or> t \<in> tops" for t using assms(2) by auto
  show ?thesis using assms(1) by (auto simp: keys_ordered_def dest!: t)
qed

lemma sent_flight_ok:
  assumes "sender_step C st secs nanos ok = (Ok (Sent wire line), st')"
  shows "flight_ok C (wire, sn_seq st', epoch_id_at secs, epoch_offset_at secs nanos)"
    and "pacer_floor (sn_pacer st') = Some (epoch_id_at secs, epoch_offset_at secs nanos)"
    and "sender_clock_ok st (secs, nanos, ok) \<Longrightarrow> pacer_floor (sn_pacer st) = Some f \<Longrightarrow>
      f < (epoch_id_at secs, epoch_offset_at secs nanos)"
proof -
  from assms obtain e off p where c: "claim (sn_pacer st) secs nanos = (Ok (e, off), p)"
    and st: "st' = sender_next st p" and w: "sent_as C st' e off wire"
    by (cases rule: sender_step_cases) (auto split: if_splits)
  have eo: "e = epoch_id_at secs" "off = epoch_offset_at secs nanos" using claim_Ok [OF c] by simp_all
  show "flight_ok C (wire, sn_seq st', epoch_id_at secs, epoch_offset_at secs nanos)"
    using w claim_offset [OF c] by (auto simp: sent_as_def eo)
  show "pacer_floor (sn_pacer st') = Some (epoch_id_at secs, epoch_offset_at secs nanos)"
    using claim_floor(1) [OF c] by (simp add: st sender_next_def eo)
  show "sender_clock_ok st (secs, nanos, ok) \<Longrightarrow> pacer_floor (sn_pacer st) = Some f \<Longrightarrow>
      f < (epoch_id_at secs, epoch_offset_at secs nanos)"
    using claim_floor(2) [OF c] by (simp add: sender_clock_ok_def eo)
qed

lemma silent_floor:
  assumes "sender_step C st secs nanos ok = (Ok r, st')" and "\<nexists>wire line. r = Sent wire line"
    and "sender_clock_ok st (secs, nanos, ok)" and "pacer_floor (sn_pacer st) = Some f"
  shows "\<exists>f'. pacer_floor (sn_pacer st') = Some f' \<and> f \<le> f'"
proof (rule sender.refuse_floor [OF assms(3) _ assms(4)])
  show "sender_filter C st (secs, nanos, ok) = (st', None)"
    using assms(1,2) by (cases r) (auto simp: sender_filter_def)
qed

text \<open>Delivery of the oldest datagram.\<close>

lemma flight_short: "flight_ok C (wire, seq, e, off) \<Longrightarrow> take RECV_BUFFER wire = wire"
  by (auto simp: RECV_BUFFER_def length_wire_image sender_datagram_def CIPHER_def)

lemma session_delivery:
  assumes C: "ct_eq_decides C" and s: "in_session C st ((wire, seq, e, off) # ch) cn"
    and i: "ci_datagram i = wire" "in_epoch_window (epoch_id_at (ci_secs i)) e"
    and step: "console_step C cn i = (r, cn')"
  shows "in_session C st ch cn'"
    and "\<exists>p err. peer_mut SENDER_ID (cn_collector cn) = Some p \<and>
      r = Ok (if granted p (ci_ms i) then shown_lines (ci_from i) (choose_kind seq) seq e off else [], err)"
proof -
  obtain p where p: "peer_mut SENDER_ID (cn_collector cn) = Some p" "ps_config p = demo_config"
    "slots_ok (ps_windows p)"
    and ord: "keys_ordered (pacer_floor (sn_pacer st)) ((e, off) # map flight_key ch) (window_tops (ps_windows p))"
    using s by (auto simp: in_session_def)
  have f: "flight_ok C (wire, seq, e, off)" "list_all (flight_ok C) ch" using s by (auto simp: in_session_def)
  have tops: "\<forall>k \<in> window_tops (ps_windows p). k < (e, off)" using ord by (auto simp: keys_ordered_def)
  let ?local = "epoch_id_at (ci_secs i)"
  obtain v p' where acc: "peer_accept C wire ?local NodeToCollector (ci_ms i) p = (v, p')" by fastforce
  note h = peer_hears_flight [OF C f(1) p(2,3) i(2) tops acc]
  define c' where "c' = (cn_collector cn)\<lparr>co_peers := AList.update SENDER_ID p' (co_peers (cn_collector cn))\<rparr>"
  have ca: "collector_accept C (take RECV_BUFFER (ci_datagram i)) ?local NodeToCollector (ci_ms i)
      (cn_collector cn) = (v, c')"
    using h(5,6) p(1) acc
    by (simp add: i(1) flight_short [OF f(1)] collector_accept_def header_sender_ok peer_mut_def c'_def)
  obtain d where d: "make_datagram (choose_kind seq) seq e off = Ok d"
    and v: "v = (if granted p (ci_ms i) then Ok (accepted_of demo_config e d) else Err RateLimited)"
    using h(1) by blast
  have lines: "accepted_lines (ci_from i) (accepted_of demo_config e d)
      = Ok (shown_lines (ci_from i) (choose_kind seq) seq e off)"
    using d f(1) by (intro accepted_lines_sent) simp_all
  have cn': "cn_collector cn' = c'" using step ca v by (auto simp: console_step_def Let_def split: if_splits)
  show "in_session C st ch cn'"
    using f(2) h(2,3) keys_ordered_take [OF ord h(4)] by (simp add: in_session_def cn' c'_def peer_mut_def)
  show "\<exists>p err. peer_mut SENDER_ID (cn_collector cn) = Some p \<and>
      r = Ok (if granted p (ci_ms i) then shown_lines (ci_from i) (choose_kind seq) seq e off else [], err)"
    using step ca v lines p(1) by (auto simp: console_step_def Let_def split: if_splits)
qed

lemma foreign_keeps_peer:
  assumes "header_sender (take RECV_BUFFER (ci_datagram i)) \<noteq> Ok co_SENDER_ID"
    and "console_step C cn i = (r, cn')"
  shows "peer_mut SENDER_ID (cn_collector cn') = peer_mut SENDER_ID (cn_collector cn)"
proof -
  obtain v where "collector_accept C (take RECV_BUFFER (ci_datagram i)) (epoch_id_at (ci_secs i))
      NodeToCollector (ci_ms i) (cn_collector cn) = (v, cn_collector cn')"
    using console_step_state [OF assms(2)] by (auto simp: RECV_BUFFER_def)
  then show ?thesis
    using assms(1) by (cases rule: collector_accept_cases)
      (auto simp: peer_mut_def header_sender_ok same_constants)
qed

lemma session_in_session:
  assumes "ct_eq_decides C"
  shows "session C st ch cn \<Longrightarrow> in_session C st ch cn"
proof (induction rule: session.induct)
  case (start env fs c)
  then show ?case
    by (auto simp: open_collector_def provision_def peer_new_def in_session_def keys_ordered_def peer_mut_def
        slots_ok_def window_tops_def slot_get_def slot_is_def collector_new_def Let_def demo_config_def
        same_constants split: result.splits)
next
  case (send st ch cn secs nanos wire line st')
  note f = sent_flight_ok [OF send(3)]
  from send.IH obtain p where p: "list_all (flight_ok C) ch" "peer_mut SENDER_ID (cn_collector cn) = Some p"
    "ps_config p = demo_config" "slots_ok (ps_windows p)"
    and ord: "keys_ordered (pacer_floor (sn_pacer st)) (map flight_key ch) (window_tops (ps_windows p))"
    by (rule in_session_cases)
  from keys_ordered_grow [OF ord f(3) [OF send(2)]] p f(1) show ?case
    by (simp add: in_session_def f(2) del: flight_ok.simps)
next
  case (silent st ch cn secs nanos r st')
  from silent.IH obtain p where p: "list_all (flight_ok C) ch" "peer_mut SENDER_ID (cn_collector cn) = Some p"
    "ps_config p = demo_config" "slots_ok (ps_windows p)"
    and ord: "keys_ordered (pacer_floor (sn_pacer st)) (map flight_key ch) (window_tops (ps_windows p))"
    by (rule in_session_cases)
  from keys_ordered_floor [OF ord silent_floor [OF silent(3,4,2)]] p show ?case
    by (auto simp: in_session_def)
next
  case (lose st f ch cn)
  then show ?case by (auto simp: in_session_def dest: keys_ordered_drop)
next
  case (deliver st wire seq e off ch cn i r cn')
  from session_delivery(1) [OF assms deliver.IH deliver(2-4)] show ?case .
next
  case (foreign st ch cn i r cn')
  from foreign.IH foreign_keeps_peer [OF foreign(2,3)] show ?case by (simp add: in_session_def)
qed

section \<open>Properties\<close>

text \<open>C10: In a session of the demonstration sender and collector every datagram that arrives in its
  acceptance window is shown: unless the rate limit refuses it, the collector prints exactly the
  lines that name the sender's instants and its readings in exact decimals, whatever was lost before
  and whatever other traffic came in between. No datagram of the sender is taken for a replay,
  discarded or rendered differently.\<close>

theorem session_shows_datagrams:
  assumes "ct_eq_decides C" and "session C st ((wire, seq, e, off) # ch) cn"
    and "ci_datagram i = wire" and "in_epoch_window (epoch_id_at (ci_secs i)) e"
  shows "\<exists>p err. peer_mut SENDER_ID (cn_collector cn) = Some p \<and> fst (console_step C cn i)
    = Ok (if granted p (ci_ms i) then shown_lines (ci_from i) (choose_kind seq) seq e off else [], err)"
proof -
  obtain r cn' where step: "console_step C cn i = (r, cn')" by fastforce
  from session_delivery(2) [OF assms(1) session_in_session [OF assms(1,2)] assms(3,4) step] step
  show ?thesis by simp
qed

definition demo_console :: console where
  "demo_console = \<lparr>cn_collector = snd (provision demo_config collector_new), cn_printed = 0\<rparr>"

lemma demo_console_opened:
  "open_collector env None fs = Ok (cn_collector demo_console)"
  by (simp_all add: demo_console_def open_collector_def provision_def demo_config_def peer_new_def Let_def)

lemma first_turn:
  "\<exists>wire line st'. sender_step C sender_start 256 0 True = (Ok (Sent wire line), st') \<and> sn_seq st' = 1"
proof -
  obtain r st' where step: "sender_step C sender_start 256 0 True = (r, st')" by fastforce
  have off: "epoch_offset_at 256 0 = 0" by (simp add: epoch_offset_at_def Let_def)
  have claim: "fst (claim (sn_pacer sender_start) 256 0) = Ok (epoch_id_at 256, 0)"
    by (simp add: claim_def sender_start_def pacer_new_def Let_def off)
  from step show ?thesis
  proof (cases rule: sender_step_cases)
    case (sent e off p wire)
    with step show ?thesis by (simp add: sender_next_def sender_start_def)
  qed (use claim in \<open>auto simp: fits_epoch_def\<close>)
qed

theorem session_shows_datagrams_witness:
  "\<exists>wire line st' err. sender_step demo_crypto sender_start 256 0 True = (Ok (Sent wire line), st')
     \<and> fst (console_step demo_crypto demo_console
         \<lparr>ci_datagram = wire, ci_from = lit ''peer'', ci_secs = 300, ci_ms = 7\<rparr>)
       = Ok (shown_lines (lit ''peer'') (choose_kind 1) 1 2 0, err)"
proof -
  obtain wire line st' where turn: "sender_step demo_crypto sender_start 256 0 True = (Ok (Sent wire line), st')"
    and seq: "sn_seq st' = 1" using first_turn by blast
  have eo: "epoch_id_at 256 = 2" "epoch_offset_at 256 0 = 0" "epoch_id_at 300 = 2"
    by (simp_all add: epoch_id_at_def epoch_offset_at_def Let_def)
  let ?i = "\<lparr>ci_datagram = wire, ci_from = lit ''peer'', ci_secs = 300, ci_ms = 7\<rparr>"
  have "session demo_crypto sender_start [] demo_console"
    using session.start [OF demo_console_opened, of demo_crypto] by (simp add: demo_console_def)
  moreover have "sender_clock_ok sender_start (256, 0, True)"
    by (simp add: sender_clock_ok_def pacer_clock_ok_def sender_start_def pacer_new_def)
  ultimately have "session demo_crypto st' ([] @ [(wire, sn_seq st', epoch_id_at 256, epoch_offset_at 256 0)])
      demo_console" using turn by (rule session.send)
  then have "session demo_crypto st' [(wire, 1, 2, 0)] demo_console" by (simp add: seq eo)
  from session_shows_datagrams [OF demo_crypto_ct_eq this, of ?i]
  obtain p err where p: "peer_mut SENDER_ID (cn_collector demo_console) = Some p"
    and step: "fst (console_step demo_crypto demo_console ?i)
      = Ok (if granted p 7 then shown_lines (lit ''peer'') (choose_kind 1) 1 2 0 else [], err)"
    by (auto simp: eo in_epoch_window_def)
  have "granted p 7"
    using p by (auto simp: demo_console_def provision_def peer_new_def peer_mut_def granted_def
        collector_new_def Let_def demo_config_def same_constants limiter_new_grants)
  with step turn show ?thesis by auto
qed

end
