(* ===== verification/Catp_Agreement.thy ===== *)
theory Catp_Agreement
  imports Catp_Collector
begin

text \<open>
  What a collector may conclude from an accepted datagram, when anything may be delivered to it: that
  the node sent exactly this, and that no sending is counted twice (injective agreement). The one
  assumption on the cryptography is that no delivered tag is a forgery (\<open>unforged\<close>).
\<close>

section \<open>Runs against an attacker\<close>

type_synonym delivery = "bytes \<times> u32 \<times> direction \<times> u64" \<comment> \<open>buffer, local epoch, direction, clock\<close>
type_synonym sending = "u32 \<times> direction \<times> u32 \<times> datagram" \<comment> \<open>sender id, direction, epoch, content\<close>

text \<open>What a collector accepts while it is given these buffers.\<close>

fun run_accepts :: "crypto \<Rightarrow> collector \<Rightarrow> delivery list \<Rightarrow> (direction \<times> accepted) list" where
  "run_accepts C c [] = []"
| "run_accepts C c ((buf, local_epoch, dir, now_ms) # is) =
     (case collector_accept C buf local_epoch dir now_ms c of
        (Ok a, c) \<Rightarrow> (dir, a) # run_accepts C c is
      | (_, c) \<Rightarrow> run_accepts C c is)"

text \<open>The nodes send well-formed datagrams under the epoch their header names.\<close>

definition honest :: "sending set \<Rightarrow> bool" where
  "honest sent \<longleftrightarrow> (\<forall>(i, dir, e, d) \<in> sent.
     d_sender_id d = i \<and> d_epoch_low d = ucast (e AND 0x0F) \<and> (\<exists>mt. datagram_wf mt d))"

text \<open>
  Whenever the tag of a delivered buffer is the MAC of the header and payload before it, under the
  key of one of the collector's senders and the epoch the receiver takes the buffer to be of, that
  sender authenticated those very bytes for that epoch and direction.
\<close>

definition unforged :: "crypto \<Rightarrow> peer_config list \<Rightarrow> sending set \<Rightarrow> delivery list \<Rightarrow> bool" where
  "unforged C configs sent inputs \<longleftrightarrow>
     (\<forall>cfg \<in> set configs. \<forall>(buf, local_epoch, dir, now_ms) \<in> set inputs. \<forall>h e payload.
        hdr_wf h \<and> d_sender_id h = p_sender_id cfg \<and> d_cipher_id h = cipher_u8 (p_cipher cfg)
        \<and> reconstruct_epoch local_epoch (d_epoch_low h) = Some e
        \<and> buf = header_bytes h @ payload
            @ tag_of C (p_cipher cfg) (epoch_key C (p_secret cfg) (p_sender_id cfg) e dir)
                (auth_header h e @ payload) (d_offset h)
        \<longrightarrow> (\<exists>d. (p_sender_id cfg, dir, e, d) \<in> sent \<and> signed_message d e = auth_header h e @ payload))"

text \<open>The collector takes this sending for what it accepted.\<close>

definition agrees :: "peer_config list \<Rightarrow> direction \<times> accepted \<Rightarrow> sending \<Rightarrow> bool" where
  "agrees configs da s \<longleftrightarrow>
     (case s of (i, dir, e, d) \<Rightarrow> dir = fst da
        \<and> (\<exists>cfg \<in> set configs. p_sender_id cfg = i \<and> snd da = accepted_of cfg e d))"

section \<open>One datagram\<close>

lemma epoch_low_of:
  assumes "hdr_wf d" and "reconstruct_epoch local (d_epoch_low d) = Some e"
  shows "d_epoch_low d = ucast (e AND 0x0F)"
proof -
  have "d_epoch_low d AND 0x0F = d_epoch_low d" using assms(1) by (simp add: hdr_wf_def)
  then have "take_bit 4 (d_epoch_low d) = d_epoch_low d" by (simp only: mask_simps)
  then have "unat (take_bit 4 (d_epoch_low d)) = unat (d_epoch_low d)" by (rule arg_cong)
  then have low: "unat (d_epoch_low d) mod 16 = unat (d_epoch_low d)" by (simp add: unat_take_bit_mod)
  have "unat (ucast (e AND 0x0F) :: u8) = unat e mod 16"
    using mod_less_divisor [of 16 "unat e"]
    unfolding mask_simps unat_ucast_mod unat_take_bit_mod by simp
  with low assms(2) show ?thesis by (simp add: reconstruct_epoch_Some word_unat_eq_iff)
qed

text \<open>Two datagrams that travel with the same signed message are the same datagram.\<close>

lemma signed_message_datagram:
  assumes "datagram_wf mt d" and "datagram_wf mt' d'" and "signed_message d e = signed_message d' e"
    and "d_epoch_low d = d_epoch_low d'"
  shows "d = d'"
proof -
  have wf: "hdr_wf d" "hdr_wf d'" using assms(1,2) by (simp_all add: datagram_wf_def)
  note eq = signed_message_inj [OF wf assms(3)]
  then have bare: "bare d = bare d'" using assms(4) by (cases d, cases d') (simp add: bare_def)
  then have "d_msg_type d = d_msg_type d'" by (metis bare_simps(2))
  then have mt: "mt = mt'" using assms(1,2) by (metis datagram_wf_def msg_type_from_u8_u8 option.inject)
  have "decode_frame mt (payload_bytes d) (bare d) = Ok d"
    using assms(1) by (intro decode_frame_wf) (simp add: datagram_wf_def)
  moreover have "decode_frame mt (payload_bytes d') (bare d') = Ok d'"
    using assms(2) mt by (intro decode_frame_wf) (simp add: datagram_wf_def)
  moreover have "payload_bytes d = payload_bytes d'" using eq by (elim conjE)
  ultimately have "Ok d = (Ok d' :: (datagram, error) result)" by (simp only: bare)
  then show ?thesis by (rule result.inject(1) [THEN iffD1])
qed

lemma decode_agrees:
  assumes "ct_eq_decides C" and "honest sent" and "unforged C configs sent inputs"
    and "cfg \<in> set configs" and "(buf, local, dir, now) \<in> set inputs"
    and "decode C buf cfg local dir w = (Ok a, w')"
  obtains e d where "(p_sender_id cfg, dir, e, d) \<in> sent" and "a = accepted_of cfg e d"
proof -
  obtain mt e d where d: "datagram_wf mt d" "genuine C cfg local dir buf e d" "a = accepted_of cfg e d"
    using assms(6) by (auto simp: decode_Ok_iff [OF assms(1)])
  have wf: "hdr_wf d" using d(1) by (simp add: datagram_wf_def)
  have g: "d_sender_id d = p_sender_id cfg" "d_cipher_id d = cipher_u8 (p_cipher cfg)"
    "reconstruct_epoch local (d_epoch_low d) = Some e"
    "buf = header_bytes d @ payload_bytes d
       @ tag_of C (p_cipher cfg) (epoch_key C (p_secret cfg) (p_sender_id cfg) e dir)
           (auth_header d e @ payload_bytes d) (d_offset d)"
    using d(2) by (simp_all add: genuine_def wire_image_def datagram_tag_def signed_message_def)
  from assms(3) [unfolded unforged_def, rule_format, OF assms(4,5)] wf g
  obtain d' where d': "(p_sender_id cfg, dir, e, d') \<in> sent" "signed_message d' e = signed_message d e"
    unfolding signed_message_def [of d] by blast
  with assms(2) obtain mt' where h: "d_epoch_low d' = ucast (e AND 0x0F)" "datagram_wf mt' d'"
    by (auto simp: honest_def)
  have "d_epoch_low d' = d_epoch_low d" using h(1) epoch_low_of [OF wf g(3)] by simp
  then have "d' = d" by (rule signed_message_datagram [OF h(2) d(1) d'(2)])
  with d'(1) d(3) that show thesis by blast
qed

section \<open>A run\<close>

definition serves :: "peer_config list \<Rightarrow> collector \<Rightarrow> bool" where
  "serves configs c \<longleftrightarrow> (\<forall>i p. map_of (co_peers c) i = Some p \<longrightarrow>
     ps_config p \<in> set configs \<and> p_sender_id (ps_config p) = i \<and> slots_ok (ps_windows p))"

lemma serves_provision:
  "serves configs c \<Longrightarrow> config \<in> set configs \<Longrightarrow> serves configs (snd (provision config c))"
  by (auto simp: provision_def peer_new_def serves_def slots_ok_def Let_def)

lemma serves_provision_all: "serves configs (provision_all configs collector_new)"
proof -
  have "set cs \<subseteq> set configs \<Longrightarrow> serves configs c \<Longrightarrow> serves configs (provision_all cs c)" for cs c
    unfolding provision_all_def by (induction cs arbitrary: c) (simp_all add: serves_provision)
  moreover have "serves configs collector_new" by (simp add: serves_def collector_new_def)
  ultimately show ?thesis by blast
qed

lemma serves_accept:
  assumes "serves configs c" and "collector_accept C buf local dir now c = (r, c')"
  shows "serves configs c'"
  using assms(2)
proof (cases rule: collector_accept_cases)
  case (peer i p p')
  from assms(1) peer(3) have p: "ps_config p \<in> set configs" "p_sender_id (ps_config p) = i" "slots_ok (ps_windows p)"
    by (simp_all add: serves_def)
  from peer_accept_spec [OF p(3) peer(4)] p assms(1) peer(5) show ?thesis by (simp add: serves_def)
qed (use assms(1) in \<open>simp_all add: serves_def\<close>)

lemma accept_agrees:
  assumes "ct_eq_decides C" and "honest sent" and "unforged C configs sent inputs" and "serves configs c"
    and "(buf, local, dir, now) \<in> set inputs" and "collector_accept C buf local dir now c = (Ok a, c')"
  obtains s where "s \<in> sent" and "agrees configs (dir, a) s"
  using assms(6)
proof (cases rule: collector_accept_cases)
  case (peer i p p')
  from assms(4) peer(3) have p: "ps_config p \<in> set configs" "slots_ok (ps_windows p)"
    by (simp_all add: serves_def)
  have "peer_verdict C buf local dir now p = Ok a" using peer_accept_spec [OF p(2) peer(4)] by simp
  then obtain w where "fst (decode C buf (ps_config p) local dir w) = Ok a"
    by (auto simp: peer_verdict_def split: if_splits option.splits)
  then obtain w' where "decode C buf (ps_config p) local dir w = (Ok a, w')" by (metis prod.collapse)
  from decode_agrees [OF assms(1-3) p(1) assms(5) this] obtain e d where
    "(p_sender_id (ps_config p), dir, e, d) \<in> sent" "a = accepted_of (ps_config p) e d" .
  with p(1) show ?thesis by (intro that [of "(p_sender_id (ps_config p), dir, e, d)"]) (auto simp: agrees_def)
qed simp_all

lemma run_agrees:
  assumes "ct_eq_decides C" and "honest sent" and "unforged C configs sent inputs"
  shows "serves configs c \<Longrightarrow> set is \<subseteq> set inputs \<Longrightarrow>
    \<exists>ss. list_all2 (agrees configs) (run_accepts C c is) ss \<and> set ss \<subseteq> sent"
proof (induction "is" arbitrary: c)
  case (Cons i "is")
  obtain buf local dir now where i: "i = (buf, local, dir, now)" by (cases i)
  obtain r c' where acc: "collector_accept C buf local dir now c = (r, c')" by fastforce
  from Cons.IH [OF serves_accept [OF Cons.prems(1) acc]] Cons.prems(2) obtain ss where
    ss: "list_all2 (agrees configs) (run_accepts C c' is) ss" "set ss \<subseteq> sent" by auto
  show ?case
  proof (cases r)
    case (Ok a)
    have "(buf, local, dir, now) \<in> set inputs" using Cons.prems(2) by (simp add: i)
    from accept_agrees [OF assms Cons.prems(1) this acc [unfolded Ok]] obtain s where
      "s \<in> sent" "agrees configs (dir, a) s" .
    with ss Ok acc show ?thesis by (intro exI [of _ "s # ss"]) (simp add: i)
  qed (use ss acc in \<open>auto simp: i\<close>)
qed simp

text \<open>The key under which the collector remembers an acceptance is that of the sending.\<close>

definition sending_key :: "sending \<Rightarrow> u32 \<times> u32 \<times> u32" where
  "sending_key s = (case s of (i, dir, e, d) \<Rightarrow> (i, e, d_offset d))"

definition accepted_key :: "direction \<times> accepted \<Rightarrow> u32 \<times> u32 \<times> u32" where
  "accepted_key da = (d_sender_id (a_datagram (snd da)), a_epoch_id (snd da), a_datagram_offset (snd da))"

lemma run_keys_accepts: "run_keys (collector_step C) (c, l) is = map accepted_key (run_accepts C c is)"
proof (induction "is" arbitrary: c l)
  case (Cons i "is")
  then show ?case
    by (cases i) (auto simp: collector_step_def accepted_key_def split: prod.splits result.splits)
qed simp

lemma agrees_key:
  assumes "honest sent" and "list_all2 (agrees configs) as ss" and "set ss \<subseteq> sent"
  shows "map accepted_key as = map sending_key ss"
  using assms(2,3)
proof (induction rule: list_all2_induct)
  case (Cons a as s ss)
  then show ?case
    using assms(1) by (auto simp: agrees_def accepted_key_def sending_key_def accepted_of_def honest_def)
qed simp

section \<open>Properties\<close>

text \<open>C3: Injective agreement. Whatever an attacker delivers to a collector, in whatever order, with replays,
  reflections and changed bytes, and short of a forged MAC: each datagram the collector accepts was
  sent by the node it names, for that epoch and in that direction, with that content, and the
  acceptances belong to distinct sendings, as long as the collector's epoch does not go back.\<close>

theorem injective_agreement:
  assumes "ct_eq_decides C" and "honest sent" and "unforged C configs sent inputs"
    and "run_allowed (collector_step C) collector_clock_ok (provision_all configs collector_new, l) inputs"
  shows "\<exists>ss. list_all2 (agrees configs) (run_accepts C (provision_all configs collector_new) inputs) ss
    \<and> distinct ss \<and> set ss \<subseteq> sent"
proof -
  let ?c = "provision_all configs collector_new"
  obtain ss where ss: "list_all2 (agrees configs) (run_accepts C ?c inputs) ss" "set ss \<subseteq> sent"
    using run_agrees [OF assms(1-3) serves_provision_all subset_refl] by blast
  have "collector_rep (?c, l) {}"
    by (rule provision_all_rep) (simp add: collector_rep_def share_ok_def collector_new_def)
  from fleet.run_once [OF this assms(4)] have "distinct (map accepted_key (run_accepts C ?c inputs))"
    by (simp add: run_keys_accepts)
  then have "distinct (map sending_key ss)" by (simp only: agrees_key [OF assms(2) ss])
  then have "distinct ss" by (simp add: distinct_map)
  with ss show ?thesis by blast
qed

text \<open>What a node sent is no forgery, whenever and how often it is delivered.\<close>

lemma genuine_not_forged:
  assumes "hdr_wf d" and "genuine C cfg local dir buf e d" and "hdr_wf h"
    and "reconstruct_epoch local (d_epoch_low h) = Some e'" and "buf = header_bytes h @ payload @ t"
    and "length t = tag_len (p_cipher cfg)"
  shows "e' = e \<and> signed_message d e = auth_header h e' @ payload"
proof -
  let ?t = "datagram_tag C (p_cipher cfg) d (p_secret cfg) e dir"
  have b: "header_bytes h @ payload @ t = header_bytes d @ payload_bytes d @ ?t"
    using assms(2,5) by (simp add: genuine_def wire_image_def)
  have len: "length t = length ?t" using assms(6) by (simp add: datagram_tag_def)
  from b have hb: "header_bytes h = header_bytes d" and "payload @ t = payload_bytes d @ ?t"
    by (simp_all add: append_eq_append_conv)
  with len have pay: "payload = payload_bytes d" by (simp add: append_eq_append_conv)
  have "masked_header h = masked_header d"
    using parse_header_bytes [of h "[]"] parse_header_bytes [of d "[]"] hb by simp
  then have bare: "bare h = bare d"
    using masked_header_wf [OF assms(1)] masked_header_wf [OF assms(3)] by (simp add: bare_def)
  then have "d_epoch_low h = d_epoch_low d" "auth_header h e' = auth_header d e'"
    by (metis bare_simps(5), metis bare_simps(12))
  with assms(2,4) pay show ?thesis by (simp add: genuine_def signed_message_def)
qed

theorem injective_agreement_witness:
  "\<exists>ss. list_all2 (agrees [demo_peer])
      (run_accepts demo_crypto (provision_all [demo_peer] collector_new)
        [(wire_image demo_crypto HmacSha256T64 demo_datagram (replicate 32 9) 3 NodeToCollector, 3, NodeToCollector, 0),
         (wire_image demo_crypto HmacSha256T64 demo_datagram (replicate 32 9) 3 NodeToCollector, 3, NodeToCollector, 1),
         ([1, 2, 3], 3, CollectorToNode, 2)]) ss
    \<and> distinct ss \<and> set ss \<subseteq> {(7, NodeToCollector, 3, demo_datagram)}"
proof (rule injective_agreement [OF demo_crypto_ct_eq])
  let ?sent = "{(7, NodeToCollector, 3, demo_datagram)}"
  let ?buf = "wire_image demo_crypto HmacSha256T64 demo_datagram (replicate 32 9) 3 NodeToCollector"
  let ?in = "[(?buf, 3, NodeToCollector, 0), (?buf, 3, NodeToCollector, 1), ([1, 2, 3], 3, CollectorToNode, 2)]"
  have wf: "hdr_wf demo_datagram" using demo_datagram_wf by (simp add: datagram_wf_def)
  show "honest ?sent" using demo_datagram_wf by (auto simp: honest_def demo_datagram_def)
  have peer: "p_sender_id demo_peer = 7" by (simp add: demo_peer_def)
  have short: "[1, 2, 3] \<noteq> header_bytes h @ r" for h r
    by (auto dest!: arg_cong [where f = length])
  have good: "e = 3 \<and> signed_message demo_datagram 3 = auth_header h 3 @ payload"
    if "?buf = header_bytes h @ payload @ tag_of demo_crypto (p_cipher demo_peer) k m off"
      and "reconstruct_epoch 3 (d_epoch_low h) = Some e" and "hdr_wf h" for h e payload k m off
    using genuine_not_forged [OF wf demo_genuine that(3,2,1)] by auto
  show "unforged demo_crypto [demo_peer] ?sent ?in"
    unfolding unforged_def using short by (auto simp: peer dest!: good)
  show "run_allowed (collector_step demo_crypto) collector_clock_ok (provision_all [demo_peer] collector_new, 3) ?in"
    by (simp add: collector_clock_ok_def collector_step_def split: prod.splits)
qed

end
