(* ===== verification/Catp_Fuzz.thy ===== *)
theory Catp_Fuzz
  imports Catp_Vectors
begin

text \<open>
  The two fuzz targets, \<open>fuzz/fuzz_targets/decode.rs\<close> and \<open>fuzz/fuzz_targets/decode_roundtrip.rs\<close>, as
  functions of the input: a failing \<open>expect\<close> or \<open>assert_eq!\<close> is \<open>Panic\<close>, which is what the fuzzer looks
  for. The first never fails; the second fails exactly on the authentic datagrams that carry a record
  of a format above 6.
\<close>

section \<open>The targets\<close>

definition seed_secret :: device_secret where
  "seed_secret = fold (\<lambda>i s. s[i := of_nat i]) [0..<32] (replicate 32 0)"

definition fz_SENDER_ID :: u32 where "fz_SENDER_ID = 0x12345678"
definition fz_EPOCH :: u32 where "fz_EPOCH = 13281250"
definition fz_DIR :: direction where "fz_DIR = NodeToCollector"

definition fuzz_layouts :: "(u8 \<times> u8) list" where
  "fuzz_layouts = concat (map (\<lambda>f. map (\<lambda>s. (f, of_nat s)) [0..<256]) [1, 2, 3, 4, 5, 6])"

definition fuzz_peer :: peer_config where
  "fuzz_peer = \<lparr>p_sender_id = fz_SENDER_ID, p_secret = seed_secret, p_cipher = HmacSha256T64,
     p_layouts = fuzz_layouts, p_inbound_rate_limit = None\<rparr>"

definition fuzz_decode :: "crypto \<Rightarrow> bytes \<Rightarrow> (unit, error) result" where
  "fuzz_decode C data =
     (let peer = \<lparr>p_sender_id = 0x12345678, p_secret = seed_secret, p_cipher = HmacSha256T64,
            p_layouts = fuzz_layouts, p_inbound_rate_limit = None\<rparr>;
          window = one_second in
      case decode C data peer 13281250 NodeToCollector window of
        (Panic, _) \<Rightarrow> Panic
      | _ \<Rightarrow> Ok ())"

definition USIZE_MAX :: nat where "USIZE_MAX = 2 ^ 64 - 1"

definition fuzz_roundtrip :: "crypto \<Rightarrow> bytes \<Rightarrow> (unit, error) result" where
  "fuzz_roundtrip C data =
     (let secret = seed_secret; peer = fuzz_peer; window = one_second in
      case decode C data peer fz_EPOCH fz_DIR window of
        (Ok acc, _) \<Rightarrow>
          (case encode C (a_datagram acc) secret (a_epoch_id acc) fz_DIR USIZE_MAX of
             Ok again \<Rightarrow> if again = data then Ok () else Panic
           | _ \<Rightarrow> Panic)
      | (Err _, _) \<Rightarrow> Ok ()
      | (Panic, _) \<Rightarrow> Panic)"

section \<open>What they find\<close>

lemma seed_secret_bytes: "seed_secret = map of_nat [0..<32]"
proof -
  have "[0..<32] = [0, 1, 2, 3, 4, 5, 6, 7, 8, 9, 10, 11, 12, 13, 14, 15, 16, 17, 18, 19, 20, 21, 22,
      23, 24, 25, 26, 27, 28, 29, 30, 31 :: nat]"
    by (simp add: upt_conv_Cons)
  then show ?thesis unfolding seed_secret_def by (simp add: numeral_eq_Suc)
qed

lemma fuzz_layouts_set: "set fuzz_layouts = {1, 2, 3, 4, 5, 6} \<times> UNIV"
proof -
  have "fuzz_layouts = permissive_layouts"
    by (simp add: fuzz_layouts_def permissive_layouts_def comp_def)
  then show ?thesis by (simp add: permissive_layouts_set)
qed

lemma fuzz_peer_simps [simp]:
  "p_sender_id fuzz_peer = 0x12345678" "p_secret fuzz_peer = seed_secret"
  "p_cipher fuzz_peer = HmacSha256T64"
  by (simp_all add: fuzz_peer_def fz_SENDER_ID_def)

lemma small_format: "f \<in> {1, 2, 3, 4, 5, 6} \<longleftrightarrow> f \<noteq> 0 \<and> \<not> 6 < (f :: u8)"
proof
  assume f: "f \<noteq> 0 \<and> \<not> 6 < f"
  then have "unat f \<noteq> 0" "unat f \<le> 6" by (simp_all add: word_less_nat_alt unat_eq_0 not_less)
  then have "unat f \<in> {1, 2, 3, 4, 5, 6}" by auto
  moreover have "of_nat (unat f) = f" by simp
  ultimately show "f \<in> {1, 2, 3, 4, 5, 6}"
    by (metis (no_types, lifting) insert_iff empty_iff of_nat_1 of_nat_numeral)
qed auto

lemma fuzz_knows:
  "datagram_wf mt d \<Longrightarrow> r \<in> set (d_records d) \<Longrightarrow> knows_layout fuzz_peer r \<longleftrightarrow> \<not> 6 < r_format r"
proof -
  assume "datagram_wf mt d" "r \<in> set (d_records d)"
  then have "r_format r \<noteq> 0" by (auto simp: datagram_wf_def frame_wf_def record_ok_def split: if_splits)
  then show ?thesis using small_format [of "r_format r"]
    by (simp add: knows_layout_def fuzz_peer_def fuzz_layouts_set)
qed

text \<open>Dropping a record makes the payload shorter, so it cannot encode to the same bytes.\<close>

lemma filter_shorter:
  "sum_list (map wire_len (filter P rs)) \<le> sum_list (map wire_len rs)"
  "r \<in> set rs \<Longrightarrow> \<not> P r \<Longrightarrow> sum_list (map wire_len (filter P rs)) < sum_list (map wire_len rs)"
proof -
  show le: "sum_list (map wire_len (filter P rs)) \<le> sum_list (map wire_len rs)" for rs
    by (induction rs) (auto simp: add_increasing)
  have pos: "0 < wire_len s" for s by (simp add: wire_len_def)
  show "r \<in> set rs \<Longrightarrow> \<not> P r \<Longrightarrow> sum_list (map wire_len (filter P rs)) < sum_list (map wire_len rs)"
  proof (induction rs)
    case (Cons s rs)
    with le [of rs] pos [of s] show ?case by (cases "P s") auto
  qed simp
qed

lemma dropped_record_shorter:
  assumes "datagram_wf mt d" and "r \<in> set (d_records d)" and "\<not> P r"
  shows "payload_len (d\<lparr>d_records := filter P (d_records d)\<rparr>) < payload_len d"
proof -
  have raw: "d_raw d = []" and "r_body r \<noteq> []"
    using assms(1,2) by (auto simp: datagram_wf_def frame_wf_def record_ok_def body_ok_def split: if_splits)
  have "d_records d \<noteq> []" using assms(2) by auto
  then show ?thesis
    using filter_shorter(2) [of r "d_records d" P] assms(2,3) by (auto simp: payload_len_def raw)
qed

lemma reencode_dropped:
  assumes "datagram_wf mt d" and "genuine C peer local dir buf e d"
    and "r \<in> set (d_records d)" and "\<not> knows_layout peer r"
  shows "encode C (a_datagram (accepted_of peer e d)) secret e' dir' max_size \<noteq> Ok buf"
proof
  assume "encode C (a_datagram (accepted_of peer e d)) secret e' dir' max_size = Ok buf"
  then have "length buf = 9 + payload_len (d\<lparr>d_records := filter (knows_layout peer) (d_records d)\<rparr>)
      + tag_len (p_cipher peer)"
    using assms(2) by (auto simp: encode_Ok genuine_def accepted_of_def length_wire_image)
  moreover have "length buf = 9 + payload_len d + tag_len (p_cipher peer)"
    using assms(2) by (simp add: genuine_def length_wire_image)
  ultimately show False using dropped_record_shorter [of mt d r "knows_layout peer"] assms by simp
qed

lemma fuzz_roundtrip_rejected:
  assumes "\<And>acc w. decode C data fuzz_peer fz_EPOCH fz_DIR one_second \<noteq> (Ok acc, w)"
  shows "fuzz_roundtrip C data = Ok ()"
  using assms decode_not_Panic [of C data fuzz_peer fz_EPOCH fz_DIR one_second]
  by (auto simp: fuzz_roundtrip_def split: prod.split result.split)

lemma fuzz_decode_passes: "fuzz_decode C data = Ok ()"
  using decode_not_Panic [of C data fuzz_peer 13281250 NodeToCollector one_second]
  by (auto simp: fuzz_decode_def fuzz_peer_def fz_SENDER_ID_def split: prod.split result.split)

section \<open>Properties\<close>

text \<open>C19: The round-trip fuzz target, which asserts that every accepted input re-encodes to itself, fails
  exactly on the authentic encodings of a datagram with a record of a format above 6: such a record is
  accepted but moved to the skipped ones, so the re-encoding lacks it. On every other input, of any
  length a slice can have, the target passes.\<close>

theorem roundtrip_target_fails_exactly:
  assumes "ct_eq_decides C" and "length data < 2 ^ 63"
  shows "fuzz_roundtrip C data =
    (if \<exists>mt e d. datagram_wf mt d \<and> genuine C fuzz_peer fz_EPOCH fz_DIR data e d
          \<and> (\<exists>r \<in> set (d_records d). 6 < r_format r)
     then Panic else Ok ())"
proof (cases "\<exists>acc w. decode C data fuzz_peer fz_EPOCH fz_DIR one_second = (Ok acc, w)")
  case False
  moreover have "\<nexists>mt e d. datagram_wf mt d \<and> genuine C fuzz_peer fz_EPOCH fz_DIR data e d"
    using False fresh_window_admits by (metis decode_Ok_iff [OF assms(1)])
  ultimately show ?thesis by (auto intro: fuzz_roundtrip_rejected)
next
  case True
  then obtain acc w where dec: "decode C data fuzz_peer fz_EPOCH fz_DIR one_second = (Ok acc, w)" by blast
  then obtain mt e d where d: "datagram_wf mt d" "genuine C fuzz_peer fz_EPOCH fz_DIR data e d"
    and acc: "acc = accepted_of fuzz_peer e d"
    by (auto simp: decode_Ok_iff [OF assms(1)])
  have e: "a_epoch_id acc = e" by (simp add: acc accepted_of_def)
  have skip: "(\<exists>r \<in> set (d_records d'). 6 < r_format r) \<longleftrightarrow> a_skipped acc \<noteq> []"
    if "datagram_wf mt' d'" "genuine C fuzz_peer fz_EPOCH fz_DIR data e' d'" for mt' e' d'
  proof -
    obtain w' where "check_and_set one_second (d_offset d') = (Ok (), w')" using fresh_window_admits by blast
    with that have "decode C data fuzz_peer fz_EPOCH fz_DIR one_second = (Ok (accepted_of fuzz_peer e' d'), w')"
      by (auto simp: decode_Ok_iff [OF assms(1)])
    then have "acc = accepted_of fuzz_peer e' d'" using dec by simp
    then show ?thesis using fuzz_knows [OF that(1)] by (auto simp: accepted_of_def filter_empty_conv)
  qed
  show ?thesis
  proof (cases "a_skipped acc = []")
    case False
    with skip [OF d] obtain r where r: "r \<in> set (d_records d)" "\<not> knows_layout fuzz_peer r"
      using fuzz_knows [OF d(1)] by blast
    have "fuzz_roundtrip C data = Panic"
      using reencode_dropped [OF d r, of seed_secret e fz_DIR USIZE_MAX]
      by (auto simp: fuzz_roundtrip_def dec e acc [symmetric] split: result.split)
    with False skip [OF d] d show ?thesis by auto
  next
    case True
    have "length data \<le> USIZE_MAX" using assms(2) by (simp add: USIZE_MAX_def)
    with decode_reencode [OF assms(1) dec True] have "fuzz_roundtrip C data = Ok ()"
      by (simp add: fuzz_roundtrip_def dec)
    with True skip show ?thesis by auto
  qed
qed

text \<open>A message whose second record has the unassigned format 7.\<close>

definition future_message :: datagram where
  "future_message = (base Message HmacSha256T64 fz_SENDER_ID fz_EPOCH 9)
     \<lparr>d_records := [record_new FmtNone 1 [1, 2], \<lparr>r_format = 7, r_schema_version = 1, r_body = [5]\<rparr>]\<rparr>"

theorem roundtrip_target_fails_exactly_witness:
  "fuzz_roundtrip demo_crypto
     (wire_image demo_crypto HmacSha256T64 future_message seed_secret fz_EPOCH fz_DIR) = Panic"
proof -
  let ?data = "wire_image demo_crypto HmacSha256T64 future_message seed_secret fz_EPOCH fz_DIR"
  have "hdr_wf (base Message HmacSha256T64 fz_SENDER_ID fz_EPOCH 9)" by (rule base_wf) simp
  then have wf: "datagram_wf Message future_message"
    by (simp add: future_message_def datagram_wf_def frame_wf_def is_record_framed_def record_ok_def
        body_ok_def record_new_def)
  have gen: "genuine demo_crypto fuzz_peer fz_EPOCH fz_DIR ?data fz_EPOCH future_message"
    by (simp add: genuine_def future_message_def mac_fits_def reconstruct_epoch_def fz_EPOCH_def fz_SENDER_ID_def)
  have "length ?data < 2 ^ 63"
    by (simp add: length_wire_image payload_len_def future_message_def wire_len_def record_new_def)
  moreover have "\<exists>r \<in> set (d_records future_message). 6 < r_format r" by (simp add: future_message_def)
  ultimately show ?thesis
    using roundtrip_target_fails_exactly [OF demo_crypto_ct_eq, of ?data] wf gen by auto
qed

end
