(* ===== verification/Catp_Mem_Probe.thy ===== *)
theory Catp_Mem_Probe
  imports Catp_Collector Catp_Vector_File Catp_Display "HOL-Library.Sublist"
begin

text \<open>
  The memory probe, \<open>examples/mem_probe.rs\<close>: a collector with \<open>n\<close> peers, each brought to its steady
  state of two live replay windows. The texts of \<open>/proc/self/status\<close> before and after are inputs. \<open>main\<close>
  measures three sizes, none of them 0, so the mean per peer is never a division by 0.
\<close>

section \<open>The resident set size\<close>

function trim_end_matches :: "ustr \<Rightarrow> ustr \<Rightarrow> ustr" where
  "trim_end_matches pat s =
     (if pat \<noteq> [] \<and> suffix pat s then trim_end_matches pat (take (length s - length pat) s) else s)"
  by pat_completeness auto
termination
  by (relation "measure (\<lambda>(pat, s). length s)") (auto simp: suffix_def)

declare trim_end_matches.simps [simp del]

definition strip_prefix :: "ustr \<Rightarrow> ustr \<Rightarrow> ustr option" where
  "strip_prefix pat s = (if take (length pat) s = pat then Some (drop (length pat) s) else None)"

fun rss_lines :: "ustr list \<Rightarrow> (u64, unit) result" where
  "rss_lines [] = Ok 0"
| "rss_lines (line # ls) =
     (case strip_prefix (lit ''VmRSS:'') line of
        Some rest \<Rightarrow>
          (case from_str_radix 10 64 (trim (trim_end_matches (lit '' kB'') (trim rest))) of
             Some n \<Rightarrow> Ok (of_nat n)
           | None \<Rightarrow> Panic)
      | None \<Rightarrow> rss_lines ls)"

definition rss_kb :: "ustr \<Rightarrow> (u64, unit) result" where
  "rss_kb status = rss_lines (text_lines status)"

section \<open>The probe\<close>

definition probe_secret :: "u32 \<Rightarrow> device_secret" where
  "probe_secret i = replicate 32 (ucast (i AND 0xFF))"

definition probe_config :: "u32 \<Rightarrow> peer_config" where
  "probe_config i =
     \<lparr>p_sender_id = i, p_secret = probe_secret i, p_cipher = HmacSha256T64,
      p_layouts = [(format_u8 FmtNone, 1)], p_inbound_rate_limit = None\<rparr>"

definition probe_provision :: "u32 \<Rightarrow> collector \<Rightarrow> (collector, unit) result" where
  "probe_provision i c =
     (case provision (probe_config i) c of (r, c) \<Rightarrow> rbind (unwrap r) (\<lambda>_. Ok c))"

definition probe_send :: "crypto \<Rightarrow> u32 \<Rightarrow> u32 \<Rightarrow> collector \<Rightarrow> (collector, unit) result" where
  "probe_send C epoch i c =
     rbind (unwrap (number_datagram HmacSha256T64 i epoch 4096 1 5)) (\<lambda>dg.
     rbind (unwrap (encode C dg (probe_secret i) epoch NodeToCollector MAX_DATAGRAM_IPV4)) (\<lambda>w.
     case collector_accept C w epoch NodeToCollector 0 c of
       (r, c) \<Rightarrow> rbind (unwrap r) (\<lambda>_. Ok c)))"

text \<open>A \<open>for\<close> loop whose body may panic.\<close>

fun for_each :: "('i \<Rightarrow> 's \<Rightarrow> ('s, 'e) result) \<Rightarrow> 'i list \<Rightarrow> 's \<Rightarrow> ('s, 'e) result" where
  "for_each f [] s = Ok s"
| "for_each f (i # is) s = rbind (f i s) (for_each f is)"

definition upto_u32 :: "u32 \<Rightarrow> u32 list" where
  "upto_u32 n = map of_nat [0..<unat n]"

definition probe_line :: "u32 \<Rightarrow> u64 \<Rightarrow> u64 \<Rightarrow> ustr" where
  "probe_line n before after =
     println (lit ''n='' @ dec (unat n) @ lit '': RSS delta = '' @ dec (unat (after - before)) @ lit '' KiB (''
       @ display_fixed 1 (f64 (f64 (f64 (of_nat (unat (after - before))) * 1024) / f64 (of_nat (unat n))))
       @ lit '' bytes/peer)'')"

definition mem_probe :: "crypto \<Rightarrow> u32 \<Rightarrow> ustr \<Rightarrow> ustr \<Rightarrow> (collector \<times> ustr, unit) result" where
  "mem_probe C n status_before status_after =
     (let c = collector_new in
      rbind (rss_kb status_before) (\<lambda>before.
      rbind (for_each probe_provision (upto_u32 n) c) (\<lambda>c.
      rbind (for_each (\<lambda>epoch. for_each (probe_send C epoch) (upto_u32 n)) [1000, 1001] c) (\<lambda>c.
      rbind (rss_kb status_after) (\<lambda>after.
      Ok (c, probe_line n before after))))))"

fun mem_probe_sizes :: "crypto \<Rightarrow> u32 list \<Rightarrow> (nat \<Rightarrow> ustr) \<Rightarrow> nat \<Rightarrow> (collector list \<times> ustr, unit) result" where
  "mem_probe_sizes C [] statuses k = Ok ([], [])"
| "mem_probe_sizes C (n # ns) statuses k =
     rbind (mem_probe C n (statuses k) (statuses (k + 1))) (\<lambda>(c, line).
     rbind (mem_probe_sizes C ns statuses (k + 2)) (\<lambda>(cs, rest). Ok (c # cs, line @ rest)))"

definition mem_probe_main :: "crypto \<Rightarrow> (nat \<Rightarrow> ustr) \<Rightarrow> (collector list \<times> ustr, unit) result" where
  "mem_probe_main C statuses = mem_probe_sizes C [100, 1000, 10000] statuses 0"

section \<open>The steady state\<close>

text \<open>The epochs of a peer's two windows after \<open>s\<close> rounds.\<close>

definition stage_epochs :: "nat \<Rightarrow> u32 option list" where
  "stage_epochs s = (if s = 0 then [None, None] else if s = 1 then [Some 1000, None] else [Some 1000, Some 1001])"

definition probe_stage :: "nat \<Rightarrow> u32 \<Rightarrow> peer_state \<Rightarrow> bool" where
  "probe_stage s i p \<longleftrightarrow> ps_config p = probe_config i \<and> ps_limiter p = None
     \<and> map (map_option ew_epoch) (ps_windows p) = stage_epochs s"

lemma stage_windows:
  assumes "map (map_option ew_epoch) ws = stage_epochs s" and "s < 2"
  shows "\<exists>ws'. with_window (1000 + of_nat s) (1000 + of_nat s) f ws = (fst (f one_second), ws')
    \<and> map (map_option ew_epoch) ws' = stage_epochs (s + 1)"
proof -
  from assms consider "s = 0" "ws = [None, None]"
    | x where "s = 1" "ws = [Some x, None]" "ew_epoch x = 1000"
    by (cases s) (auto simp: stage_epochs_def map_eq_Cons_conv less_Suc_eq numeral_2_eq_2)
  then show ?thesis
    by cases (auto simp: with_window_def window_for_def prune_def slot_is_def saturating_add_u32_def
        stage_epochs_def split: prod.splits)
qed

lemma probe_datagram:
  obtains d buf where "number_datagram HmacSha256T64 i epoch 4096 1 5 = Ok d"
    and "encode C d (probe_secret i) epoch NodeToCollector MAX_DATAGRAM_IPV4 = Ok buf"
    and "datagram_wf Number d" and "d_sender_id d = i" and "d_cipher_id d = 1" and "d_offset d = 4096"
    and "d_epoch_low d = ucast (epoch AND 0x0F)"
proof -
  let ?d = "(base Number HmacSha256T64 i epoch 4096)\<lparr>d_raw := [1] @ be_bytes 2 (5 :: i16)\<rparr>"
  have "validate_number ([1] @ be_bytes 2 (5 :: i16)) = Ok (1, 5)"
    by (simp add: validate_number_Ok scale_is_valid_def)
  moreover have "hdr_wf (base Number HmacSha256T64 i epoch 4096)" by (rule base_wf) simp
  ultimately have "datagram_wf Number ?d"
    by (simp add: datagram_wf_def frame_wf_def is_record_framed_def is_ok_iff)
  moreover have "encode C ?d (probe_secret i) epoch NodeToCollector MAX_DATAGRAM_IPV4
      = Ok (wire_image C HmacSha256T64 ?d (probe_secret i) epoch NodeToCollector)"
    by (auto simp: encode_Ok mac_fits_def payload_len_def cipher_from_u8_def)
  ultimately show thesis
    by (intro that [of ?d]) (simp_all add: number_datagram_def scale_is_valid_def base_def)
qed

lemma probe_accepted:
  assumes "ct_eq_decides C" and "s < 2" and "probe_stage s i p"
    and "epoch = 1000 + of_nat s"
    and "encode C d (probe_secret i) epoch NodeToCollector MAX_DATAGRAM_IPV4 = Ok buf"
    and "datagram_wf Number d" and "d_sender_id d = i" and "d_cipher_id d = 1"
    and "d_epoch_low d = ucast (epoch AND 0x0F)"
  shows "9 \<le> length buf" and "from_be [buf ! 5, buf ! 6, buf ! 7, buf ! 8] = i"
    and "\<exists>a p'. peer_accept C buf epoch NodeToCollector 0 p = (Ok a, p') \<and> probe_stage (s + 1) i p'"
proof -
  obtain w where "check_and_set one_second (d_offset d) = (Ok (), w)" using fresh_window_admits by blast
  then have dec: "decode C buf (probe_config i) epoch NodeToCollector one_second
      = (Ok (accepted_of (probe_config i) epoch d), w)"
    using assms(5,7,8,9) by (intro decode_encoded [OF assms(1,6)]) (simp_all add: probe_config_def in_epoch_window_def)
  note eff = decode_Ok_effect [OF dec]
  show "9 \<le> length buf" by (rule eff(2))
  show "from_be [buf ! 5, buf ! 6, buf ! 7, buf ! 8] = i"
    using eff(4) assms(7) by (simp add: accepted_of_def)
  have r: "reconstruct_epoch epoch (buf ! 1 AND 0x0F) = Some epoch" using eff(3) by (simp add: accepted_of_def)
  from assms(3) have p: "ps_config p = probe_config i" "ps_limiter p = None"
    "map (map_option ew_epoch) (ps_windows p) = stage_epochs s" by (simp_all add: probe_stage_def)
  from stage_windows [OF p(3) assms(2), of "decode C buf (probe_config i) epoch NodeToCollector"]
  obtain ws where "with_window epoch epoch (decode C buf (probe_config i) epoch NodeToCollector) (ps_windows p)
      = (Ok (accepted_of (probe_config i) epoch d), ws)" "map (map_option ew_epoch) ws = stage_epochs (s + 1)"
    by (auto simp: dec assms(4) [symmetric])
  then show "\<exists>a p'. peer_accept C buf epoch NodeToCollector 0 p = (Ok a, p') \<and> probe_stage (s + 1) i p'"
    using eff(2) r p by (simp add: peer_accept_def accept_inner_def probe_stage_def not_less)
qed

text \<open>What the loops keep: the peers handled so far are one stage further.\<close>

definition probed :: "nat \<Rightarrow> u32 set \<Rightarrow> u32 set \<Rightarrow> collector \<Rightarrow> bool" where
  "probed s I J c \<longleftrightarrow> dom (map_of (co_peers c)) = I
     \<and> (\<forall>i p. map_of (co_peers c) i = Some p \<longrightarrow> probe_stage (if i \<in> J then s + 1 else s) i p)"

lemma probedD:
  "probed s I J c \<Longrightarrow> map_of (co_peers c) i = Some p \<Longrightarrow> probe_stage (if i \<in> J then s + 1 else s) i p"
  unfolding probed_def by blast

lemma probe_send_ok:
  assumes "ct_eq_decides C" and "s < 2" and "epoch = 1000 + of_nat s" and "probed s I J c"
    and "i \<in> I" and "i \<notin> J"
  shows "\<exists>c'. probe_send C epoch i c = Ok c' \<and> probed s I (insert i J) c'"
proof -
  obtain p where p: "map_of (co_peers c) i = Some p"
    using assms(4,5) by (auto simp: probed_def dom_def)
  then have stage: "probe_stage s i p"
    using probedD [OF assms(4)] assms(6) by fastforce
  obtain d buf where d: "number_datagram HmacSha256T64 i epoch 4096 1 5 = Ok d"
    "encode C d (probe_secret i) epoch NodeToCollector MAX_DATAGRAM_IPV4 = Ok buf"
    "datagram_wf Number d" "d_sender_id d = i" "d_cipher_id d = 1"
    "d_epoch_low d = ucast (epoch AND 0x0F)" by (rule probe_datagram)
  note acc = probe_accepted [OF assms(1,2) stage assms(3) d(2-6)]
  from acc(3) obtain a p' where a: "peer_accept C buf epoch NodeToCollector 0 p = (Ok a, p')"
    "probe_stage (s + 1) i p'" by blast
  have "collector_accept C buf epoch NodeToCollector 0 c
      = (Ok a, c\<lparr>co_peers := AList.update i p' (co_peers c)\<rparr>)"
    using acc(1,2) p a(1) by (simp add: collector_accept_def header_sender_ok)
  then have "probe_send C epoch i c = Ok (c\<lparr>co_peers := AList.update i p' (co_peers c)\<rparr>)"
    using d(2) by (simp add: probe_send_def d(1))
  moreover have "probed s I (insert i J) (c\<lparr>co_peers := AList.update i p' (co_peers c)\<rparr>)"
  proof -
    have "dom (map_of (co_peers c)) = I" using assms(4) by (simp add: probed_def)
    moreover have "probe_stage (if j \<in> insert i J then s + 1 else s) j q"
      if "map_of (AList.update i p' (co_peers c)) j = Some q" for j q
      using that a(2) probedD [OF assms(4), of j q] by (auto split: if_splits)
    ultimately show ?thesis using assms(5) by (auto simp: probed_def dom_def)
  qed
  ultimately show ?thesis by blast
qed

lemma probe_round:
  assumes "ct_eq_decides C" and "s < 2" and "epoch = 1000 + of_nat s"
  shows "probed s I J c \<Longrightarrow> set is \<subseteq> I \<Longrightarrow> set is \<inter> J = {} \<Longrightarrow> distinct is \<Longrightarrow>
    \<exists>c'. for_each (probe_send C epoch) is c = Ok c' \<and> probed s I (J \<union> set is) c'"
proof (induction "is" arbitrary: J c)
  case (Cons i "is")
  then obtain c1 where c1: "probe_send C epoch i c = Ok c1" "probed s I (insert i J) c1"
    using probe_send_ok [OF assms] by (metis IntI insert_disjoint(1) list.set_intros(1) list.simps(15) subsetD)
  from Cons.IH [OF c1(2)] Cons.prems obtain c' where
    "for_each (probe_send C epoch) is c1 = Ok c'" "probed s I (insert i J \<union> set is) c'" by auto
  with c1(1) show ?case by simp
qed simp

lemma probe_provisioned:
  "probed 0 I {} c \<Longrightarrow> \<exists>c'. for_each probe_provision is c = Ok c' \<and> probed 0 (I \<union> set is) {} c'"
proof (induction "is" arbitrary: I c)
  case (Cons i "is")
  obtain p where p: "peer_new (probe_config i) = Ok p" "probe_stage 0 i p"
    by (auto simp: peer_new_def probe_config_def probe_stage_def stage_epochs_def)
  let ?c = "c\<lparr>co_peers := AList.update i p (co_peers c)\<rparr>"
  have "probe_provision i c = Ok ?c"
    using p(1) by (simp add: probe_provision_def provision_def Let_def) (simp add: probe_config_def)
  moreover have "probed 0 (insert i I) {} ?c"
    using Cons.prems p(2) by (auto simp: probed_def dom_def)
  ultimately show ?case using Cons.IH [of "insert i I" ?c] by simp
qed simp

lemma probed_next:
  assumes "probed s I I c"
  shows "probed (s + 1) I {} c"
proof -
  have "dom (map_of (co_peers c)) = I" using assms by (simp add: probed_def)
  moreover from this have "probe_stage (s + 1) i p" if "map_of (co_peers c) i = Some p" for i p
    using probedD [OF assms that] that by (auto simp: dom_def split: if_splits)
  ultimately show ?thesis by (simp add: probed_def)
qed

lemma upto_u32_set: "distinct (upto_u32 n)" "set (upto_u32 n) = {i. i < n}"
proof -
  have lt: "k < unat n \<Longrightarrow> k < 2 ^ 32" for k using unat_u32_less [of n] by simp
  then have id: "k < unat n \<Longrightarrow> unat (of_nat k :: u32) = k" for k by (simp add: unat_of_nat)
  show "distinct (upto_u32 n)"
    unfolding upto_u32_def distinct_map by (auto intro!: inj_on_inverseI [where g = unat] simp: id)
  have "i \<in> of_nat ` {0..<unat n}" if "i < n" for i :: u32
    using that by (intro image_eqI [of _ _ "unat i"]) (simp_all add: word_less_nat_alt)
  then show "set (upto_u32 n) = {i. i < n}"
    by (auto simp: upto_u32_def word_less_nat_alt id)
qed

section \<open>Properties\<close>

text \<open>C40: The memory probe measures what it says: for any number of peers no provisioning, encoding or
  acceptance fails, and when it reads the memory the second time the collector has exactly the peers
  below \<open>n\<close>, each with two live replay windows.\<close>

theorem mem_probe_steady:
  assumes "ct_eq_decides C" and "rss_kb status_before = Ok before" and "rss_kb status_after = Ok after"
  shows "\<exists>c. mem_probe C n status_before status_after = Ok (c, probe_line n before after)
    \<and> (\<forall>i. peer_mut i c \<noteq> None \<longleftrightarrow> i < n) \<and> (\<forall>i p. peer_mut i c = Some p \<longrightarrow> live_windows p = 2)"
proof -
  let ?is = "upto_u32 n" and ?I = "{i. i < n}"
  have "probed 0 {} {} collector_new" by (simp add: probed_def collector_new_def)
  from probe_provisioned [OF this, of ?is] obtain c0 where
    c0: "for_each probe_provision ?is collector_new = Ok c0" "probed 0 ?I {} c0"
    by (auto simp: upto_u32_set)
  have round: "\<exists>c'. for_each (probe_send C (1000 + of_nat s)) ?is c = Ok c' \<and> probed (s + 1) ?I {} c'"
    if "probed s ?I {} c" "s < 2" for s c
    using probe_round [OF assms(1) that(2) refl that(1), of ?is] probed_next [of s ?I]
    by (auto simp: upto_u32_set)
  obtain c1 where c1: "for_each (probe_send C 1000) ?is c0 = Ok c1" "probed 1 ?I {} c1"
    using round [OF c0(2)] by auto
  obtain c2 where c2: "for_each (probe_send C 1001) ?is c1 = Ok c2" "probed 2 ?I {} c2"
    using round [OF c1(2)] by (auto simp: numeral_2_eq_2)
  have "mem_probe C n status_before status_after = Ok (c2, probe_line n before after)"
    by (simp add: mem_probe_def assms(2,3) c0(1) c1(1) c2(1) Let_def)
  moreover have "peer_mut i c2 \<noteq> None \<longleftrightarrow> i < n" for i
    using c2(2) by (auto simp: probed_def peer_mut_def dom_def)
  moreover have "live_windows p = 2" if "peer_mut i c2 = Some p" for i p
  proof -
    have "map (map_option ew_epoch) (ps_windows p) = [Some 1000, Some 1001]"
      using c2(2) that by (auto simp: probed_def peer_mut_def probe_stage_def stage_epochs_def)
    then show ?thesis by (auto simp: live_windows_def map_eq_Cons_conv)
  qed
  ultimately show ?thesis by blast
qed

theorem mem_probe_steady_witness:
  "\<exists>c. mem_probe demo_crypto 2 (lit ''Name: x'') (lit ''VmRSS: 10 kB'') = Ok (c, probe_line 2 0 10)
     \<and> (\<forall>i. peer_mut i c \<noteq> None \<longleftrightarrow> i < 2) \<and> (\<forall>i p. peer_mut i c = Some p \<longrightarrow> live_windows p = 2)"
proof (rule mem_probe_steady [OF demo_crypto_ct_eq])
  show "rss_kb (lit ''Name: x'') = Ok 0" 
    by (simp add: rss_kb_def text_lines.simps strip_cr_def strip_prefix_def lit_def)
  show "rss_kb (lit ''VmRSS: 10 kB'') = Ok 10"
    by (simp add: rss_kb_def text_lines.simps strip_cr_def strip_prefix_def lit_def trim_def trim_start_def
        is_ws_def trim_end_matches.simps suffix_def from_str_radix_def to_digit_def hex_value_def)
qed

end
