(* ===== verification/Spec2Isabelle.thy ===== *)
theory Spec2Isabelle
  imports Catp_Clock Catp_Time Catp_Provision_Tool Catp_Debug Catp_Vector_Check Catp_Demo
    Catp_Agreement Catp_Fuzz Catp_Mem_Probe
begin

text \<open>
  catp is a Rust library for authenticated telemetry over datagrams: small nodes send readings,
  messages and events to collectors; a datagram carries a 9-byte header, a payload and a MAC tag
  under a key derived per sender, epoch and direction. This development models the library, the
  five command line tools around it, its fuzz targets and its example, operation by operation, and proves what makes them correct. Paths below are relative to the repository's root.

  \<^bold>\<open>The program and its theories.\<close>
  \<^item> \<open>Catp_Prelude\<close>: what the theories share. \<open>('a, 'e) result\<close> is Rust's \<open>Result\<close> with a third value
    \<open>Panic\<close> for every index out of range, failed \<open>unwrap\<close> or slice that would panic; \<open>rbind\<close> is \<open>?\<close>.
    Byte strings, big-endian integers, checked indexing and slicing; the collections \<open>byte_simps\<close>,
    \<open>mask_simps\<close> and \<open>panic_free\<close>.
  \<^item> Interfaces: \<open>Catp_Codec\<close> (a decoder run until a stream is consumed: records of a payload, hex
    pairs, UTF-8), \<open>Catp_Filter\<close> (a filter that admits each key once, or only rising keys: replay
    window, peer, collector, pacer, epoch announcements) and \<open>Catp_Store\<close> (a store of one replay window
    per epoch: the two slots of a peer). Each is a locale, interpreted on the code's operations in
    the theory that defines them.
  \<^item> \<open>src/lib.rs\<close>: \<open>Catp_Types\<close> (constants, the registries of suites, message types and formats,
    \<open>Error\<close>), \<open>Catp_Keys\<close> (\<open>DeviceSecret\<close>, HKDF labels, \<open>mac_parts\<close>, \<open>ct_eq\<close>), \<open>Catp_Reading\<close>
    (\<open>validate_number\<close>, \<open>validate_series\<close>), \<open>Catp_Epoch\<close> (\<open>epoch_id_at\<close>, \<open>reconstruct_epoch\<close>),
    \<open>Catp_Replay\<close> (\<open>ReplayWindow\<close>), \<open>Catp_Pacing\<close> (\<open>Pacer\<close>, \<open>InboundLimiter\<close>).
  \<^item> \<open>src/wire.rs\<close>: \<open>Catp_Record\<close> (\<open>Record\<close>), \<open>Catp_Datagram\<close> (\<open>Datagram\<close>, its builders and
    \<open>encode_into\<close>), \<open>Catp_Decode\<close> (\<open>decode\<close>, ten steps), \<open>Catp_Time\<close> (the \<open>TIME_*\<close> datagrams).
  \<^item> \<open>src/control.rs\<close>: \<open>Catp_Control\<close>. \<open>src/peer.rs\<close>: \<open>Catp_Peer\<close> (\<open>Stats\<close>, \<open>PeerState\<close>),
    \<open>Catp_Collector\<close> (\<open>Collector\<close> and the step relation \<open>reachable\<close>), \<open>Catp_Clock\<close> (\<open>NodeClock\<close>).
  \<^item> \<open>src/provisioning.rs\<close>: \<open>Catp_Text\<close> and \<open>Catp_Utf8\<close> (the standard library's string operations it
    uses), \<open>Catp_Provisioning\<close> (\<open>Bundle\<close> as text), \<open>Catp_Debug\<close> (its redacted \<open>Debug\<close> text),
    \<open>Catp_Files\<close> (bundles in files).
  \<^item> \<open>tools/src/bin\<close>: \<open>Catp_Provision_Tool\<close> (\<open>provision.rs\<close>), \<open>Catp_Json\<close> and \<open>Catp_Conformance\<close>
    (\<open>conformance_iut.rs\<close>), \<open>Catp_Vectors\<close> and \<open>Catp_Vector_File\<close> (\<open>vectors.rs\<close>: the emitters and
    \<open>main\<close>); \<open>Catp_Vector_Check\<close> runs the one against the other. \<open>Catp_Sender\<close> (\<open>sender.rs\<close>) and
    \<open>Catp_Console\<close> (\<open>collector.rs\<close>): the demonstration pair, each loop a step on its state; \<open>Catp_Demo\<close>
    joins them by a channel that delays and loses datagrams. \<open>Catp_Display\<close>: floating point rounding
    and the format directives they print with, and \<open>format_scaled\<close> of \<open>src/lib.rs\<close>.
  \<^item> \<open>fuzz/fuzz_targets\<close>: \<open>Catp_Fuzz\<close>, both targets as functions of the input. \<open>examples/mem_probe.rs\<close>:
    \<open>Catp_Mem_Probe\<close>.
  \<^item> \<open>Catp_Agreement\<close>: the collector against an attacker who delivers any buffers; no code of its own.

  \<^bold>\<open>State and operations.\<close> A struct is a record with the fields of the source under a prefix
  (\<open>rw_\<close>, \<open>ps_\<close>, \<open>co_\<close>, \<open>nc_\<close>, \<open>d_\<close>), an enum a datatype, an integer a word of its width. A method
  on \<open>&mut self\<close> takes the state and returns result and new state, as \<open>check_and_set\<close>, \<open>decode\<close>,
  \<open>peer_accept\<close> and \<open>collector_accept\<close> do; they call each other as in the source: a collector finds
  the peer, the peer prunes its windows and hands the epoch's window to \<open>decode\<close>, which touches it
  only after the tag verifies. Overflow that the source does not check wraps, as in a release build.

  \<^bold>\<open>What is a parameter.\<close> The cryptographic primitives are the fields of \<open>crypto\<close>; the one law used is
  that the comparison of \<open>subtle\<close> decides equality (\<open>ct_eq_decides\<close>), which \<open>demo_crypto\<close> satisfies;
  \<open>injective_agreement\<close> also assumes of a run that no delivered tag is a forgery (\<open>unforged\<close>).
  Clocks are arguments. Random values are lists consumed in the order drawn; a command that needs
  more of them than given has the result \<open>None\<close>, and \<open>generate_ends\<close> says how many are enough. The
  file system is a map from paths to mode and contents, and every system call may fail as \<open>io_env\<close>
  says, reading the metadata of a file included.

  \<^bold>\<open>What the lemmas show.\<close>
  \<^item> Wire format: \<open>decode\<close> accepts exactly the authentic encodings, gives back what the builders built
    and \<open>encode\<close> encoded or one of two refusals (\<open>built_verdict\<close>), never panics and changes state only
    after authentication (\<open>Catp_Decode\<close>); \<open>encode_into\<close> equals a one-line reference
    encoding on every branch, and the signed image is unambiguous (\<open>Catp_Datagram\<close>); payload parsers
    accept exactly the encodings of legal contents (\<open>Catp_Record\<close>, \<open>Catp_Reading\<close>, \<open>Catp_Control\<close>,
    \<open>Catp_Time\<close>).
  \<^item> Replay: the bitmap refines the set of accepted offsets (\<open>Catp_Replay\<close>); the slots of a peer
    refine one such set per epoch (\<open>peer_spec\<close> in \<open>Catp_Peer\<close>); under the registry above them no
    (sender, epoch, offset) is accepted twice (\<open>Catp_Collector\<close>), and short of a forged MAC every acceptance is a sending of its
    own (\<open>Catp_Agreement\<close>).
  \<^item> Pacing, clock and counters: strictly rising claims, the limiter's bound on any stretch of a run
    and its burst, the floor of a clock, exactly when it may ask for the time again, statistics that count every call.
  \<^item> Provisioning: bundles survive text and files; a secret is never in a readable file; the tool
    never overwrites a bundle whose metadata can be read, ends, and hides secrets; what it generates
    loads and is heard
    (\<open>provisioned_node_is_heard\<close> below), also after a cold start (\<open>recovered_node_is_heard\<close>).
  \<^item> Conformance: the JSON reader inverts the JSON writer, and the implementation under test passes
    the whole generated vector file.
  \<^item> Display and demonstration: fixed decimals computed in binary floating point are exact; escaping is
    lossless and printable; the printed instant is within 1.245 ms of the clock; whatever arrives, the
    collector goes on; in a session of the pair every timely datagram is shown as it was made.
  \<^item> Harnesses: the decoding fuzz target never fails, the round-trip target fails exactly on authentic
    records of a reserved format; the memory probe reaches the state it measures for any size.
  Where the code departs from its comments the departure is itself a theorem
  (\<open>pacer_reuses_after_epoch_step_back\<close>, \<open>clock_floor_truncates\<close>, \<open>sender_id_of_any_width\<close>,
  \<open>encode_decode_roundtrip\<close>, \<open>generate_overwrites_unreadable\<close>,
  \<open>vectors_file_passes\<close>, \<open>roundtrip_target_fails_exactly\<close>).

  \<^bold>\<open>Termination.\<close> Loops over bytes, lines and records are recursions with a measure or over the
  structure, without fuel; the sampling loop of \<open>generate\<close> consumes the supply of random values.

  \<^bold>\<open>Not modelled.\<close> The derived \<open>Debug\<close> texts and the \<open>Display\<close> texts of errors, start-up and error
  messages on standard error and the reason of a conformance failure; zeroization; the branch of
  \<open>write_file\<close> for systems other than Unix; opening and binding the sockets, reading the system clock
  and sleeping in \<open>sender.rs\<close> and \<open>collector.rs\<close> (what these calls yield is the input of a step), and the
  exponent range, infinities and signed zeros of floats, which the code does not reach; the benchmark
  (\<open>benches/codec.rs\<close>), which only times the codec, and the tests. What is left of the source files
  beside these is test modules, imports, and getters, which are the selectors of the records.
\<close>

section \<open>From a bundle to an accepted datagram\<close>

text \<open>C7: A node and a collector provisioned from the same bundle text understand each other. Whatever
  collector the bundle's configuration is provisioned into, a datagram that the node makes with a
  builder and encodes with the bundle's secret and suite, both for an epoch in the collector's
  acceptance window, gets at once the verdict of \<open>built_verdict\<close>, also under an inbound rate limit: it is refused
  if it is of a type of time recovery or has a record of schema version 0, and is accepted otherwise.
  If the bundle lists the layouts of all its records, what is accepted is the datagram as it was
  built; records of other layouts are moved to \<open>skipped\<close>.\<close>

theorem provisioned_node_is_heard:
  assumes "ct_eq_decides C" and "bundle_parse s = Ok b" and "into_peer_config b limit = Ok cfg"
    and "builder_made (p_cipher cfg) (b_sender_id b) e d"
    and "encode C d (b_device_secret b) e dir max_size = Ok buf" and "in_epoch_window local e"
  shows "fst (provision cfg c) = Ok ()
    \<and> fst (collector_accept C buf local dir now (snd (provision cfg c))) = built_verdict cfg e d
    \<and> cipher_u8 (p_cipher cfg) = b_cipher_id b
    \<and> ((\<forall>r \<in> set (d_records d). (r_format r, r_schema_version r) \<in> set (b_layouts b)) \<longrightarrow>
         accepted_of cfg e d
         = \<lparr>a_datagram = d, a_epoch_id = e, a_datagram_offset = d_offset d, a_skipped = []\<rparr>)"
proof -
  have cfg: "p_sender_id cfg = b_sender_id b" "p_secret cfg = b_device_secret b"
    "cipher_u8 (p_cipher cfg) = b_cipher_id b" "p_layouts cfg = b_layouts b"
    "requires_inbound_rate_limit (p_cipher cfg) \<longrightarrow> p_inbound_rate_limit cfg \<noteq> None"
    using assms(3) by (auto simp: into_peer_config_def split: if_splits dest: cipher_from_u8_Some)
  with assms(4-6) have "fst (provision cfg c) = Ok ()"
    "fst (collector_accept C buf local dir now (snd (provision cfg c))) = built_verdict cfg e d"
    by (intro provisioned_peer_hears [OF assms(1)]; simp)+
  with cfg accepted_unchanged [of d cfg e] show ?thesis by (simp add: knows_layout_def)
qed


text \<open>A bundle for the peer the other witnesses use.\<close>

definition demo_node :: prov_bundle where
  "demo_node = \<lparr>b_sender_id = 7, b_device_secret = replicate 32 9, b_cipher_id = 1, b_layouts = []\<rparr>"

theorem provisioned_node_is_heard_witness:
  "\<exists>buf. encode demo_crypto demo_datagram (replicate 32 9) 3 NodeToCollector 512 = Ok buf
     \<and> fst (collector_accept demo_crypto buf 4 NodeToCollector 0 (snd (provision demo_peer collector_new)))
       = Ok \<lparr>a_datagram = demo_datagram, a_epoch_id = 3, a_datagram_offset = 9, a_skipped = []\<rparr>"
proof -
  let ?buf = "wire_image demo_crypto HmacSha256T64 demo_datagram (replicate 32 9) 3 NodeToCollector"
  have buf: "encode demo_crypto demo_datagram (replicate 32 9) 3 NodeToCollector 512 = Ok ?buf"
    by (auto simp: encode_eq demo_datagram_def mac_fits_def payload_len_def cipher_from_u8_def)
  have parsed: "bundle_parse (to_text demo_node) = Ok demo_node"
    by (simp add: bundle_parse_print demo_node_def)
  have cfg: "into_peer_config demo_node None = Ok demo_peer"
    by (simp add: into_peer_config_def demo_node_def demo_peer_def cipher_from_u8_def)
  have b: "builder_made (p_cipher demo_peer) (b_sender_id demo_node) 3 demo_datagram"
    using demo_built(1) by (simp add: demo_peer_def demo_node_def)
  have "b_device_secret demo_node = replicate 32 9" by (simp add: demo_node_def)
  with buf provisioned_node_is_heard [OF demo_crypto_ct_eq parsed cfg b,
      of NodeToCollector 512 ?buf 4 collector_new 0]
  show ?thesis by (simp add: demo_verdicts in_epoch_window_def)
qed

section \<open>From a cold start to an accepted datagram\<close>

lemma later_epoch_in_window:
  assumes "unat t + lag < 2 ^ 39" and "lag \<le> 128"
  shows "in_epoch_window (epoch_id_at (t + of_nat lag)) (epoch_id_at t)"
proof -
  have "unat (t + of_nat lag) = unat t + lag"
    using assms(1) by (simp add: unat_word_ariths(1) unat_of_nat)
  then have "unat (epoch_id_at (t + of_nat lag)) = (unat t + lag) div 128" "unat (epoch_id_at t) = unat t div 128"
    using assms(1) by (simp_all add: unat_epoch_id_at)
  moreover have "unat t div 128 \<le> (unat t + lag) div 128" by (intro div_le_mono) simp
  moreover have "(unat t + lag) div 128 \<le> (unat t + 128) div 128" using assms(2) by (intro div_le_mono) simp
  then have "(unat t + lag) div 128 \<le> Suc (unat t div 128)" by simp
  ultimately show ?thesis by (auto simp: in_epoch_window_iff)
qed

text \<open>C11: A node without a clock finds its way back. The collector's announcement of a time decodes at the
  node to that time, and \<open>accept_time_announce\<close> then does one of two things. A time not beyond the node's
  floor, the last epoch it acted on, is refused as a rollback and changes nothing. A time beyond the
  floor sets the clock, which from then on reads the collector's time whatever the platform clock
  showed; and a datagram the node builds and encodes for the epoch of such a reading gets the
  verdict of \<open>built_verdict\<close> from a collector whose clock is up to 128 seconds later (both times less
  than \<open>2 ^ 39\<close>, where the 32-bit epoch number ends) and which has been provisioned for the node, with a
  rate limit if the suite requires one: accepted, unless the datagram is of a type of time recovery or
  has a record of schema version 0.\<close>

theorem recovered_node_is_heard:
  assumes "ct_eq_decides C" and "\<not> nc_valid clk"
    and "requires_inbound_rate_limit (p_cipher cfg) \<longrightarrow> p_inbound_rate_limit cfg \<noteq> None"
    and "builder_made (p_cipher cfg) (p_sender_id cfg) (epoch_id_at (t + d)) dg"
    and "encode C dg (p_secret cfg) (epoch_id_at (t + d)) NodeToCollector max_size = Ok buf"
    and "unat (t + d) + lag < 2 ^ 39" and "lag \<le> 128"
    and "accept_time_announce t raw clk = (r, clk')"
  shows "(\<exists>ann. time_announce C (p_sender_id cfg) t (p_secret cfg) = Ok ann
           \<and> decode_time_announce C ann (p_sender_id cfg) (p_secret cfg) = Ok t)
    \<and> (if sint t \<le> int (unat (nc_last_epoch clk)) * 128
       then r = Err (TimeRollback t (time_floor clk)) \<and> clk' = clk
       else r = Ok () \<and> clock_now (raw + d) clk' = Ok (t + d)
         \<and> fst (collector_accept C buf (epoch_id_at (t + d + of_nat lag)) NodeToCollector now
                  (snd (provision cfg c))) = built_verdict cfg (epoch_id_at (t + d)) dg)"
proof -
  have "in_epoch_window (epoch_id_at (t + d + of_nat lag)) (epoch_id_at (t + d))"
    using assms(6,7) by (rule later_epoch_in_window)
  note heard = provisioned_peer_hears(2) [OF assms(1,4,3,5) this]
  have "decode_time_announce C (announce_image C 0 s t secret) s secret = Ok t" for s secret
    unfolding decode_time_announce_iff [OF assms(1)] by (rule exI [of _ 0]) simp
  then have ann: "\<exists>ann. time_announce C (p_sender_id cfg) t (p_secret cfg) = Ok ann
      \<and> decode_time_announce C ann (p_sender_id cfg) (p_secret cfg) = Ok t"
    using time_announce_eq by blast
  from assms(8) show ?thesis
  proof (cases rule: accept_time_announce_cases)
    case set
    then have "clock_now (raw + d) clk' = Ok (t + d)" by (simp add: clock_now_def)
    with set ann heard show ?thesis by simp
  qed (use assms(2) ann in simp_all)
qed

theorem recovered_node_is_heard_witness:
  "\<exists>buf clk'. encode demo_crypto demo_datagram (replicate 32 9) 3 NodeToCollector 512 = Ok buf
     \<and> accept_time_announce 390 5 (clockless 2) = (Ok (), clk') \<and> clock_now (5 + 60) clk' = Ok (390 + 60)
     \<and> fst (collector_accept demo_crypto buf 4 NodeToCollector 0 (snd (provision demo_peer collector_new)))
       = Ok \<lparr>a_datagram = demo_datagram, a_epoch_id = 3, a_datagram_offset = 9, a_skipped = []\<rparr>"
proof -
  let ?buf = "wire_image demo_crypto HmacSha256T64 demo_datagram (replicate 32 9) 3 NodeToCollector"
  have buf: "encode demo_crypto demo_datagram (replicate 32 9) 3 NodeToCollector 512 = Ok ?buf"
    by (auto simp: encode_eq demo_datagram_def mac_fits_def payload_len_def cipher_from_u8_def)
  have e: "epoch_id_at (390 + 60) = 3" "epoch_id_at (390 + 60 + of_nat 100) = 4"
    by (simp_all add: epoch_id_at_def)
  have clk: "\<not> nc_valid (clockless 2)" by (simp add: clockless_def)
  have peer: "p_secret demo_peer = replicate 32 9" by (simp add: demo_peer_def)
  have b: "builder_made (p_cipher demo_peer) (p_sender_id demo_peer) (epoch_id_at (390 + 60)) demo_datagram"
    using demo_built(1) by (simp only: e) (simp add: demo_peer_def)
  have lim: "requires_inbound_rate_limit (p_cipher demo_peer) \<longrightarrow> p_inbound_rate_limit demo_peer \<noteq> None"
    by (simp add: demo_peer_def)
  obtain r clk' where a: "accept_time_announce 390 5 (clockless 2) = (r, clk')" by fastforce
  have bnd: "unat (390 + 60 :: i64) + 100 < 2 ^ 39" "(100 :: nat) \<le> 128" by simp_all
  have "encode demo_crypto demo_datagram (p_secret demo_peer) (epoch_id_at (390 + 60)) NodeToCollector 512 = Ok ?buf"
    by (simp only: e peer buf)
  from recovered_node_is_heard [OF demo_crypto_ct_eq clk lim b this bnd a, of 0 collector_new]
  have "r = Ok () \<and> clock_now (5 + 60) clk' = Ok (390 + 60)
     \<and> fst (collector_accept demo_crypto ?buf 4 NodeToCollector 0 (snd (provision demo_peer collector_new)))
       = built_verdict demo_peer 3 demo_datagram"
    unfolding e by (simp add: clockless_def)
  with buf a show ?thesis
    by (intro exI [of _ ?buf] exI [of _ clk']) (simp add: demo_verdicts)
qed

end
